(* ===== verification/Command_Machine.thy ===== *)
theory Command_Machine
  imports Cycle_Prelude
begin

text \<open>
  Workflows, tasks and goals are the same kind of object: a state that \<open>apply(&mut self, command)\<close>
  changes, returning the events it emitted or an error.  This theory runs such a machine over a
  list of commands and states the contract the three share as a locale.  Each machine proves
  the laws for its own \<open>apply\<close> and gets the facts about whole runs in return.
\<close>

section \<open>Runs\<close>

text \<open>
  \<open>apply\<close> gives back the state it leaves behind together with its result, so that what an
  erroneous command does to the state is part of the model.
\<close>

type_synonym ('s, 'c, 'e, 'v) machine = "'s \<Rightarrow> 'c \<Rightarrow> 's \<times> ('e + 'v list)"

fun run_state :: "('s, 'c, 'e, 'v) machine \<Rightarrow> 's \<Rightarrow> 'c list \<Rightarrow> 's" where
  "run_state f s [] = s"
| "run_state f s (c # cs) = run_state f (fst (f s c)) cs"

fun run_events :: "('s, 'c, 'e, 'v) machine \<Rightarrow> 's \<Rightarrow> 'c list \<Rightarrow> 'v list" where
  "run_events f s [] = []"
| "run_events f s (c # cs) =
     (case snd (f s c) of Inl _ \<Rightarrow> [] | Inr vs \<Rightarrow> vs) @ run_events f (fst (f s c)) cs"

text \<open>The commands of a run that were accepted, in order.\<close>

fun run_accepted :: "('s, 'c, 'e, 'v) machine \<Rightarrow> 's \<Rightarrow> 'c list \<Rightarrow> 'c list" where
  "run_accepted f s [] = []"
| "run_accepted f s (c # cs) =
     (case snd (f s c) of Inl _ \<Rightarrow> [] | Inr _ \<Rightarrow> [c]) @ run_accepted f (fst (f s c)) cs"

lemma run_state_append: "run_state f s (xs @ ys) = run_state f (run_state f s xs) ys"
  by (induction xs arbitrary: s) auto

lemma run_accepted_append:
  "run_accepted f s (xs @ ys) = run_accepted f s xs @ run_accepted f (run_state f s xs) ys"
  by (induction xs arbitrary: s) auto

lemma run_events_append:
  "run_events f s (xs @ ys) = run_events f s xs @ run_events f (run_state f s xs) ys"
  by (induction xs arbitrary: s) auto

text \<open>
  A predicate on the accepted commands and the state, kept by every accepted command and
  untouched by refused ones, holds of every run.
\<close>

lemma run_accepted_invariant:
  assumes "P [] s"
    and "\<And>acc s c vs. P acc s \<Longrightarrow> snd (f s c) = Inr vs \<Longrightarrow> P (acc @ [c]) (fst (f s c))"
    and "\<And>acc s c e. P acc s \<Longrightarrow> snd (f s c) = Inl e \<Longrightarrow> P acc (fst (f s c))"
  shows "P (run_accepted f s cs) (run_state f s cs)"
proof (induction cs rule: rev_induct)
  case Nil
  from assms(1) show ?case by simp
next
  case (snoc c cs)
  then show ?case
    using assms(2,3) by (auto simp: run_state_append run_accepted_append split: sum.splits)
qed

text \<open>A list of moves, each starting where the one before ended.\<close>

fun walk :: "'p \<Rightarrow> ('p \<times> 'p) list \<Rightarrow> 'p \<Rightarrow> bool" where
  "walk p [] q \<longleftrightarrow> p = q"
| "walk p ((a, b) # ms) q \<longleftrightarrow> a = p \<and> walk b ms q"

lemma walk_append: "walk p (xs @ ys) q \<longleftrightarrow> (\<exists>m. walk p xs m \<and> walk m ys q)"
  by (induction p xs q rule: walk.induct) auto

lemma walk_unique: "walk p ms q \<Longrightarrow> walk p ms q' \<Longrightarrow> q = q'"
  by (induction p ms q rule: walk.induct) auto

section \<open>The contract of a command machine\<close>

locale command_machine =
  fixes apply_command :: "'s \<Rightarrow> 'c \<Rightarrow> 's \<times> ('e + 'v list)"
    and phase :: "'s \<Rightarrow> 'p"
    and terminal :: "'p \<Rightarrow> bool"
    and moves :: "'v \<Rightarrow> ('p \<times> 'p) option"
    and good :: "'s \<Rightarrow> bool"
  assumes refused_frame: "snd (apply_command s c) = Inl e \<Longrightarrow> fst (apply_command s c) = s"
    and accepted_good: "good s \<Longrightarrow> snd (apply_command s c) = Inr vs \<Longrightarrow> good (fst (apply_command s c))"
    and terminal_refuses: "terminal (phase s) \<Longrightarrow> \<exists>e. snd (apply_command s c) = Inl e"
    and accepted_moves: "snd (apply_command s c) = Inr vs \<Longrightarrow>
      walk (phase s) (List.map_filter moves vs) (phase (fst (apply_command s c)))"
begin

lemma step_good: "good s \<Longrightarrow> good (fst (apply_command s c))"
  by (cases "snd (apply_command s c)") (auto simp: refused_frame accepted_good)

lemma run_good: "good s \<Longrightarrow> good (run_state apply_command s cs)"
  by (induction cs arbitrary: s) (auto simp: step_good)

lemma terminal_frame: "terminal (phase s) \<Longrightarrow> fst (apply_command s c) = s"
  using terminal_refuses refused_frame by blast

text \<open>Nothing happens after a terminal state: no change, no event, no accepted command.\<close>

lemma run_terminal:
  "terminal (phase s) \<Longrightarrow>
     run_state apply_command s cs = s \<and> run_events apply_command s cs = []
     \<and> run_accepted apply_command s cs = []"
proof (induction cs)
  case (Cons c cs)
  from terminal_refuses [OF Cons.prems, of c] obtain e where "snd (apply_command s c) = Inl e"
    by blast
  with Cons show ?case by (simp add: refused_frame)
qed simp

text \<open>The moves logged by a run lead from its first phase to its last.\<close>

lemma run_walk:
  "walk (phase s) (List.map_filter moves (run_events apply_command s cs))
     (phase (run_state apply_command s cs))"
proof (induction cs arbitrary: s)
  case Nil
  show ?case by (simp add: List.map_filter_def)
next
  case (Cons c cs)
  show ?case
  proof (cases "snd (apply_command s c)")
    case (Inl e)
    with Cons [of s] show ?thesis by (simp add: refused_frame)
  next
    case (Inr vs)
    with Cons [of "fst (apply_command s c)"] accepted_moves [OF Inr] show ?thesis
      by (auto simp: List.map_filter_def walk_append)
  qed
qed

text \<open>So the log alone determines the phase: replaying it cannot disagree with the state.\<close>

lemma log_determines_phase:
  "walk (phase s) (List.map_filter moves (run_events apply_command s cs)) q \<Longrightarrow>
   q = phase (run_state apply_command s cs)"
  by (rule walk_unique [OF _ run_walk])

end

end
