(* ===== verification/Cycle_Text.thy ===== *)
theory Cycle_Text
  imports Cycle_Prelude
begin

text \<open>
  Text and project-relative paths.  A \<open>String\<close> is the list of its UTF-8 bytes, each a
  \<open>char\<close>, so \<open>length\<close> is Rust's \<open>len()\<close>, the order is Rust's byte order, and \<open>sublist\<close>,
  \<open>prefix\<close> and \<open>suffix\<close> are \<open>contains\<close>, \<open>starts_with\<close> and \<open>ends_with\<close>.  The second half
  models \<open>crates/workflow-core/src/path.rs\<close> and shows what its two predicates decide.
\<close>

section \<open>Strings\<close>

text \<open>
  The UTF-8 encodings of the characters with the Unicode property White\_Space, which
  \<open>str::trim\<close> removes.  UTF-8 is self-synchronising, so on valid text an encoding at
  either end of the byte list is a character at that end.
\<close>

definition white_space :: "string list" where
  "white_space =
     [[CHR 0x09], [CHR 0x0A], [CHR 0x0B], [CHR 0x0C], [CHR 0x0D], [CHR 0x20],
      [CHR 0xC2, CHR 0x85], [CHR 0xC2, CHR 0xA0], [CHR 0xE1, CHR 0x9A, CHR 0x80],
      [CHR 0xE2, CHR 0x80, CHR 0x80], [CHR 0xE2, CHR 0x80, CHR 0x81],
      [CHR 0xE2, CHR 0x80, CHR 0x82], [CHR 0xE2, CHR 0x80, CHR 0x83],
      [CHR 0xE2, CHR 0x80, CHR 0x84], [CHR 0xE2, CHR 0x80, CHR 0x85],
      [CHR 0xE2, CHR 0x80, CHR 0x86], [CHR 0xE2, CHR 0x80, CHR 0x87],
      [CHR 0xE2, CHR 0x80, CHR 0x88], [CHR 0xE2, CHR 0x80, CHR 0x89],
      [CHR 0xE2, CHR 0x80, CHR 0x8A], [CHR 0xE2, CHR 0x80, CHR 0xA8],
      [CHR 0xE2, CHR 0x80, CHR 0xA9], [CHR 0xE2, CHR 0x80, CHR 0xAF],
      [CHR 0xE2, CHR 0x81, CHR 0x9F], [CHR 0xE3, CHR 0x80, CHR 0x80]]"

text \<open>Remove the given encodings from the front, as long as one of them is there.\<close>

function trim_front :: "string list \<Rightarrow> string \<Rightarrow> string" where
  "trim_front ws s =
     (case find (\<lambda>w. w \<noteq> [] \<and> prefix w s) ws of
        None \<Rightarrow> s
      | Some w \<Rightarrow> trim_front ws (drop (length w) s))"
  by pat_completeness auto
termination
  by (relation "measure (\<lambda>(ws, s). length s)")
    (auto simp: find_Some_iff prefix_def)

declare trim_front.simps [simp del]

definition trim_start :: "string \<Rightarrow> string" where
  "trim_start s = trim_front white_space s"

definition trim_end :: "string \<Rightarrow> string" where
  "trim_end s = rev (trim_front (map rev white_space) (rev s))"

definition trim :: "string \<Rightarrow> string" where
  "trim s = trim_end (trim_start s)"

text \<open>\<open>value.trim().is_empty()\<close>, the test the validators make.\<close>

definition blank :: "string \<Rightarrow> bool" where
  "blank s \<longleftrightarrow> trim s = []"

definition ascii_lower :: "char \<Rightarrow> char" where
  "ascii_lower c =
     (let n = (of_char c :: nat) in if 65 \<le> n \<and> n \<le> 90 then char_of (n + 32) else c)"

definition to_ascii_lowercase :: "string \<Rightarrow> string" where
  "to_ascii_lowercase = map ascii_lower"

definition is_ascii_digit :: "char \<Rightarrow> bool" where
  "is_ascii_digit c \<longleftrightarrow> (let n = (of_char c :: nat) in 48 \<le> n \<and> n \<le> 57)"

definition is_ascii_alphanumeric :: "char \<Rightarrow> bool" where
  "is_ascii_alphanumeric c \<longleftrightarrow> (let n = (of_char c :: nat) in
     48 \<le> n \<and> n \<le> 57 \<or> 65 \<le> n \<and> n \<le> 90 \<or> 97 \<le> n \<and> n \<le> 122)"

text \<open>The bytes of a string, \<open>as_bytes\<close>.\<close>

definition as_bytes :: "string \<Rightarrow> byte list" where
  "as_bytes s = map of_char s"

lemma of_char_byte_inject: "(of_char c :: byte) = of_char d \<longleftrightarrow> c = d"
proof
  assume "(of_char c :: byte) = of_char d"
  then have "unat (of_char c :: byte) = unat (of_char d :: byte)" by simp
  moreover have "unat (of_char x :: byte) = (of_char x :: nat)" for x
    unfolding of_nat_of_char [of x, where ?'a = byte, symmetric]
    by (simp add: unsigned_of_nat take_bit_nat_eq_self)
  ultimately have "(of_char c :: nat) = of_char d" by simp
  then show "c = d" by simp
qed simp

lemma as_bytes_inject [simp]: "as_bytes s = as_bytes t \<longleftrightarrow> s = t"
  unfolding as_bytes_def by (rule inj_map_eq_map) (simp add: inj_def of_char_byte_inject)

lemma length_as_bytes [simp]: "length (as_bytes s) = length s"
  by (simp add: as_bytes_def)

text \<open>\<open>split(c)\<close>: the pieces between separators, at least one; and \<open>join\<close>.\<close>

fun split_on :: "'a \<Rightarrow> 'a list \<Rightarrow> 'a list list" where
  "split_on d [] = [[]]"
| "split_on d (c # cs) =
     (if c = d then [] # split_on d cs
      else (case split_on d cs of [] \<Rightarrow> [[c]] | s # ss \<Rightarrow> (c # s) # ss))"

fun join_with :: "'a \<Rightarrow> 'a list list \<Rightarrow> 'a list" where
  "join_with d [] = []"
| "join_with d [s] = s"
| "join_with d (s # t # ss) = s @ d # join_with d (t # ss)"

lemma split_on_not_Nil [simp]: "split_on d s \<noteq> []"
  by (induction s) (auto split: list.splits)

lemma join_split [simp]: "join_with d (split_on d s) = s"
proof (induction s)
  case (Cons c cs)
  obtain t ts where ts: "split_on d cs = t # ts"
    by (cases "split_on d cs") auto
  with Cons show ?case by (cases ts) auto
qed simp

lemma split_on_inject: "split_on d s = split_on d t \<longleftrightarrow> s = t"
  by (metis join_split)

lemma split_on_append_sep: "split_on d (s @ d # t) = split_on d s @ split_on d t"
  by (induction s) (auto split: list.splits)

lemma split_on_single: "d \<notin> set s \<Longrightarrow> split_on d s = [s]"
  by (induction s) auto

lemma split_on_no_sep: "s \<in> set (split_on d t) \<Longrightarrow> d \<notin> set s"
  by (induction t arbitrary: s) (force split: list.splits if_splits)+

lemma join_append:
  "xs \<noteq> [] \<Longrightarrow> ys \<noteq> [] \<Longrightarrow> join_with d (xs @ ys) = join_with d xs @ d # join_with d ys"
proof (induction xs rule: join_with.induct)
  case (2 d s)
  then show ?case by (cases ys) auto
qed auto

text \<open>The pieces of one string extend those of another exactly at a separator.\<close>

lemma prefix_split_on:
  "prefix (split_on d s) (split_on d t) \<longleftrightarrow> t = s \<or> (\<exists>r. t = s @ d # r)"
proof
  assume "prefix (split_on d s) (split_on d t)"
  then obtain zs where zs: "split_on d t = split_on d s @ zs"
    by (auto simp: prefix_def)
  then have "t = join_with d (split_on d s @ zs)" by (metis join_split)
  then show "t = s \<or> (\<exists>r. t = s @ d # r)"
    by (cases "zs = []") (auto simp: join_append)
next
  assume "t = s \<or> (\<exists>r. t = s @ d # r)"
  then show "prefix (split_on d s) (split_on d t)"
    by (auto simp: split_on_append_sep)
qed

section \<open>Project-relative paths (path.rs)\<close>

definition second_byte_colon :: "string \<Rightarrow> bool" where
  "second_byte_colon s \<longleftrightarrow> (case s of a # b # r \<Rightarrow> b = CHR '':'' | _ \<Rightarrow> False)"

definition is_safe_relative :: "string \<Rightarrow> bool" where
  "is_safe_relative path \<longleftrightarrow>
     path \<noteq> []
     \<and> CHR 0x5C \<notin> set path
     \<and> \<not> prefix ''/'' path
     \<and> \<not> second_byte_colon path
     \<and> list_all (\<lambda>segment. segment \<noteq> [] \<and> segment \<noteq> ''.'' \<and> segment \<noteq> ''..'')
         (split_on (CHR ''/'') path)"

text \<open>\<open>first.strip_prefix(second).is_some_and(|suffix| suffix.starts_with('/'))\<close>.\<close>

definition strictly_below :: "string \<Rightarrow> string \<Rightarrow> bool" where
  "strictly_below first second \<longleftrightarrow>
     prefix second first \<and> prefix ''/'' (drop (length second) first)"

definition overlaps :: "string \<Rightarrow> string \<Rightarrow> bool" where
  "overlaps first second \<longleftrightarrow>
     first = second \<or> strictly_below first second \<or> strictly_below second first"

lemma strictly_below_iff: "strictly_below s t \<longleftrightarrow> (\<exists>r. s = t @ CHR ''/'' # r)"
  by (auto simp: strictly_below_def prefix_def)

lemma overlaps_sym: "overlaps s t \<longleftrightarrow> overlaps t s"
  by (auto simp: overlaps_def)

lemma overlaps_refl [simp]: "overlaps s s"
  by (simp add: overlaps_def)

text \<open>
  What a file system does with a relative path: a stack of directory names, where an empty
  or dot segment stays, a double dot goes up (\<open>None\<close> above the start) and a name goes down.
\<close>

fun resolve :: "string list \<Rightarrow> string list \<Rightarrow> string list option" where
  "resolve stack [] = Some (rev stack)"
| "resolve stack (seg # segs) =
     (if seg = [] \<or> seg = ''.'' then resolve stack segs
      else if seg = ''..'' then
        (case stack of [] \<Rightarrow> None | _ # up \<Rightarrow> resolve up segs)
      else resolve (seg # stack) segs)"

lemma resolve_plain:
  "list_all (\<lambda>s. s \<noteq> [] \<and> s \<noteq> ''.'' \<and> s \<noteq> ''..'') segs \<Longrightarrow>
   resolve stack segs = Some (rev stack @ segs)"
  by (induction segs arbitrary: stack) auto

text \<open>
  Two write scopes overlap exactly when one's path segments are a prefix of the
  other's: \<open>src\<close> overlaps \<open>src/a.rs\<close> and itself, never \<open>srcs\<close>.
\<close>

theorem overlaps_iff_segment_prefix:
  "overlaps first second \<longleftrightarrow>
     prefix (split_on (CHR ''/'') first) (split_on (CHR ''/'') second)
     \<or> prefix (split_on (CHR ''/'') second) (split_on (CHR ''/'') first)"
  by (auto simp: overlaps_def strictly_below_iff prefix_split_on)

text \<open>
  A path accepted as safe resolves, from the project root, to exactly the segments it is
  written with: it never climbs above the root, and two accepted paths that name the same
  file are the same string.
\<close>

theorem safe_relative_confined:
  assumes "is_safe_relative p" and "is_safe_relative q"
  shows "resolve [] (split_on (CHR ''/'') p) = Some (split_on (CHR ''/'') p)
    \<and> (resolve [] (split_on (CHR ''/'') q) = resolve [] (split_on (CHR ''/'') p) \<longrightarrow> q = p)"
  using assms by (simp add: is_safe_relative_def resolve_plain split_on_inject)

text \<open>The witness also shows that a path with a double dot is refused.\<close>

theorem safe_relative_confined_witness:
  "resolve [] (split_on (CHR ''/'') ''src/lib.rs'') = Some [''src'', ''lib.rs'']
   \<and> \<not> is_safe_relative ''src/../../etc''"
proof -
  have "is_safe_relative ''src/lib.rs''"
    by (simp add: is_safe_relative_def second_byte_colon_def prefix_def)
  from safe_relative_confined [OF this this] show ?thesis
    by (simp add: is_safe_relative_def)
qed

end
