(* ===== verification/Cycle_Digest.thy ===== *)
theory Cycle_Digest
  imports Cycle_Text
begin

text \<open>
  Identifiers, content digests and canonical hashing: \<open>id.rs\<close>, \<open>digest.rs\<close>, \<open>role.rs\<close> and
  \<open>time.rs\<close> of \<open>crates/workflow-core\<close>.  SHA-256 is not part of the sources: it is an argument
  \<open>sha\<close> from byte lists to 256-bit words of every definition that hashes, and no theorem
  assumes anything of it; where a property depends on collisions, the conclusion exhibits one.
\<close>

section \<open>Typed identifiers (id.rs)\<close>

type_synonym uuid = "128 word"

text \<open>
  The macro \<open>typed_id!\<close> wraps a UUID in a type of its own; a phantom parameter does the same.
  Identifiers are ordered by their sixteen bytes, which is the order of the 128-bit word.
\<close>

datatype 'k typed_id = Id (as_uuid: uuid)

instantiation typed_id :: (type) linorder
begin

definition less_eq_typed_id :: "'a typed_id \<Rightarrow> 'a typed_id \<Rightarrow> bool" where
  "less_eq_typed_id a b \<longleftrightarrow> as_uuid a \<le> as_uuid b"

definition less_typed_id :: "'a typed_id \<Rightarrow> 'a typed_id \<Rightarrow> bool" where
  "less_typed_id a b \<longleftrightarrow> as_uuid a < as_uuid b"

instance
  by standard (auto simp: less_eq_typed_id_def less_typed_id_def typed_id.expand)

end

lemma typed_id_less [simp]: "Id a < (Id b :: 'k typed_id) \<longleftrightarrow> a < b"
  by (simp add: less_typed_id_def)

lemma typed_id_le [simp]: "Id a \<le> (Id b :: 'k typed_id) \<longleftrightarrow> a \<le> b"
  by (simp add: less_eq_typed_id_def)

datatype project_tag = ProjectTag
datatype workflow_tag = WorkflowTag
datatype task_tag = TaskTag
datatype session_tag = SessionTag
datatype candidate_tag = CandidateTag
datatype event_tag = EventTag
datatype evidence_tag = EvidenceTag
datatype verification_plan_tag = VerificationPlanTag
datatype receipt_tag = ReceiptTag
datatype lease_tag = LeaseTag
datatype memory_tag = MemoryTag
datatype goal_tag = GoalTag

type_synonym project_id = "project_tag typed_id"
type_synonym workflow_id = "workflow_tag typed_id"
type_synonym task_id = "task_tag typed_id"
type_synonym session_id = "session_tag typed_id"
type_synonym candidate_id = "candidate_tag typed_id"
type_synonym event_id = "event_tag typed_id"
type_synonym evidence_id = "evidence_tag typed_id"
type_synonym verification_plan_id = "verification_plan_tag typed_id"
type_synonym receipt_id = "receipt_tag typed_id"
type_synonym lease_id = "lease_tag typed_id"
type_synonym memory_id = "memory_tag typed_id"
type_synonym goal_id = "goal_tag typed_id"

definition id_bytes :: "'k typed_id \<Rightarrow> byte list" where
  "id_bytes i = be_bytes 16 (unat (as_uuid i))"

lemma length_id_bytes [simp]: "length (id_bytes i) = 16"
  by (simp add: id_bytes_def)

lemma unat_uuid_bound: "unat (w :: uuid) < 256 ^ 16"
  using unsigned_less [of w, where ?'a = nat] by simp

lemma id_bytes_inject [simp]: "id_bytes i = id_bytes j \<longleftrightarrow> i = j"
  by (cases i; cases j)
    (simp add: id_bytes_def be_bytes_inject [OF unat_uuid_bound unat_uuid_bound]
      word_eq_iff_unsigned [where ?'a = nat] del: be_bytes.simps)

section \<open>Roles and timestamps (role.rs, time.rs)\<close>

datatype workflow_role =
    Architect
  | Executor
  | FunctionalReviewer
  | SecurityArchitectureReviewer
  | Arbiter

text \<open>
  A \<open>WorkflowTimestamp\<close> is an instant: its nanoseconds since the epoch.  The RFC 3339 text of
  an instant comes from the \<open>time\<close> crate and is an argument \<open>rfc3339\<close> where it is hashed.
\<close>

type_synonym workflow_timestamp = int

section \<open>Content digests (digest.rs)\<close>

type_synonym content_digest = "256 word"

definition digest_bytes :: "content_digest \<Rightarrow> byte list" where
  "digest_bytes d = be_bytes 32 (unat d)"

definition digest_from_bytes :: "byte list \<Rightarrow> content_digest" where
  "digest_from_bytes bs = of_nat (be_nat bs)"

lemma length_digest_bytes [simp]: "length (digest_bytes d) = 32"
  by (simp add: digest_bytes_def)

lemma unat_digest_bound: "unat (w :: content_digest) < 256 ^ 32"
  using unsigned_less [of w, where ?'a = nat] by simp

lemma digest_bytes_inject [simp]: "digest_bytes a = digest_bytes b \<longleftrightarrow> a = b"
  by (simp add: digest_bytes_def be_bytes_inject [OF unat_digest_bound unat_digest_bound]
      word_eq_iff_unsigned [where ?'a = nat] del: be_bytes.simps)

lemma digest_from_digest_bytes [simp]: "digest_from_bytes (digest_bytes d) = d"
  by (simp add: digest_from_bytes_def digest_bytes_def be_nat_be_bytes [OF unat_digest_bound]
      del: be_bytes.simps)

lemma digest_bytes_from_bytes: "length bs = 32 \<Longrightarrow> digest_bytes (digest_from_bytes bs) = bs"
  using be_nat_less [of bs] be_bytes_be_nat [of bs]
  by (simp add: digest_from_bytes_def digest_bytes_def unat_of_nat_small del: be_bytes.simps)

text \<open>\<open>Display\<close>: two lowercase hexadecimal digits for each byte.\<close>

definition hex_digit :: "nat \<Rightarrow> char" where
  "hex_digit n = (if n < 10 then char_of (48 + n) else char_of (87 + n))"

definition byte_hex :: "byte \<Rightarrow> string" where
  "byte_hex b = [hex_digit (unat b div 16), hex_digit (unat b mod 16)]"

definition digest_to_string :: "content_digest \<Rightarrow> string" where
  "digest_to_string d = concat (map byte_hex (digest_bytes d))"

text \<open>\<open>FromStr\<close>: 64 characters, all lowercase hexadecimal, read two at a time.\<close>

definition is_lower_hex :: "char \<Rightarrow> bool" where
  "is_lower_hex c \<longleftrightarrow>
     is_ascii_digit c \<or> (let n = (of_char c :: nat) in 97 \<le> n \<and> n \<le> 102)"

definition hex_value :: "char \<Rightarrow> nat" where
  "hex_value c = (let n = (of_char c :: nat) in if n \<le> 57 then n - 48 else n - 87)"

fun hex_pairs :: "string \<Rightarrow> byte list" where
  "hex_pairs (a # b # r) = of_nat (hex_value a * 16 + hex_value b) # hex_pairs r"
| "hex_pairs _ = []"

datatype digest_parse_error = DigestParseError

definition digest_from_str :: "string \<Rightarrow> digest_parse_error + content_digest" where
  "digest_from_str s =
     (if length s \<noteq> 64 \<or> list_ex (\<lambda>c. \<not> is_lower_hex c) s then Err DigestParseError
      else Ok (digest_from_bytes (hex_pairs s)))"

lemma hex_digit_props:
  "n < 16 \<Longrightarrow> is_lower_hex (hex_digit n) \<and> hex_value (hex_digit n) = n"
  by (simp add: hex_digit_def is_lower_hex_def is_ascii_digit_def hex_value_def Let_def)

lemma hex_value_props:
  "is_lower_hex c \<Longrightarrow> hex_value c < 16 \<and> hex_digit (hex_value c) = c"
  by (auto simp: hex_digit_def is_lower_hex_def is_ascii_digit_def hex_value_def Let_def)

lemma unat_byte: "unat (b :: byte) < 256"
  using unsigned_less [of b, where ?'a = nat] by simp

lemma hex_pairs_byte_hex: "hex_pairs (byte_hex b @ r) = b # hex_pairs r"
proof -
  have "unat b div 16 < 16" "unat b mod 16 < 16" using unat_byte [of b] by auto
  then have "hex_pairs (byte_hex b @ r) = of_nat (unat b div 16 * 16 + unat b mod 16) # hex_pairs r"
    by (simp add: byte_hex_def hex_digit_props del: div_mult_mod_eq)
  then show ?thesis by (simp only: div_mult_mod_eq) simp
qed

lemma hex_pairs_concat: "hex_pairs (concat (map byte_hex bs)) = bs"
  by (induction bs) (auto simp: hex_pairs_byte_hex)

lemma byte_hex_hex_pairs:
  "even (length s) \<Longrightarrow> list_all is_lower_hex s \<Longrightarrow> concat (map byte_hex (hex_pairs s)) = s"
proof (induction s rule: hex_pairs.induct)
  case (1 a b r)
  then have a: "hex_value a < 16" "hex_digit (hex_value a) = a"
    and b: "hex_value b < 16" "hex_digit (hex_value b) = b"
    by (auto dest: hex_value_props)
  then have "unat (of_nat (hex_value a * 16 + hex_value b) :: byte) = hex_value a * 16 + hex_value b"
    by (intro unat_of_nat_small) simp
  with a b have "byte_hex (of_nat (hex_value a * 16 + hex_value b)) = [a, b]"
    by (simp add: byte_hex_def)
  with 1 show ?case by simp
qed auto

lemma length_hex_pairs: "length (hex_pairs s) = length s div 2"
  by (induction s rule: hex_pairs.induct) auto

lemma byte_hex_lower: "list_all is_lower_hex (byte_hex b)"
proof -
  have "unat b div 16 < 16" "unat b mod 16 < 16" using unat_byte [of b] by auto
  then show ?thesis by (simp add: byte_hex_def hex_digit_props)
qed

lemma digest_to_string_shape:
  "length (digest_to_string d) = 64 \<and> list_all is_lower_hex (digest_to_string d)"
proof -
  have "length (concat (map byte_hex bs)) = 2 * length bs" for bs
    by (induction bs) (auto simp: byte_hex_def)
  moreover have "list_all is_lower_hex (concat (map byte_hex bs))" for bs
    by (induction bs) (auto simp: byte_hex_lower)
  ultimately show ?thesis by (simp add: digest_to_string_def)
qed

text \<open>
  Printing and parsing a digest are inverse to each other: parsing accepts exactly the
  texts that printing produces, and returns the digest they were printed from.
\<close>

theorem digest_text_roundtrip:
  "digest_from_str s = Ok d \<longleftrightarrow> s = digest_to_string d"
proof
  assume "digest_from_str s = Ok d"
  then have s: "length s = 64" "list_all is_lower_hex s" "d = digest_from_bytes (hex_pairs s)"
    by (auto simp: digest_from_str_def list_ex_iff list_all_iff split: if_splits)
  then show "s = digest_to_string d"
    by (simp add: digest_to_string_def digest_bytes_from_bytes length_hex_pairs byte_hex_hex_pairs)
next
  assume "s = digest_to_string d"
  with digest_to_string_shape [of d] show "digest_from_str s = Ok d"
    by (simp add: digest_from_str_def list_ex_iff list_all_iff)
      (simp add: digest_to_string_def hex_pairs_concat)
qed

section \<open>Canonical hashing (digest.rs)\<close>

text \<open>
  \<open>CanonicalHasher\<close> streams into SHA-256, so its state is the bytes written so far.  Texts and
  byte strings are prefixed with their length, which makes the stream unambiguous.
\<close>

type_synonym hasher = "byte list"

definition write_bytes :: "hasher \<Rightarrow> byte list \<Rightarrow> hasher" where
  "write_bytes h v = h @ be_u64 (of_nat (length v)) @ v"

definition write_str :: "hasher \<Rightarrow> string \<Rightarrow> hasher" where
  "write_str h s = write_bytes h (as_bytes s)"

definition write_bool :: "hasher \<Rightarrow> bool \<Rightarrow> hasher" where
  "write_bool h b = h @ [of_bool b]"

definition write_optional_str :: "hasher \<Rightarrow> string option \<Rightarrow> hasher" where
  "write_optional_str h x =
     (case x of Some s \<Rightarrow> write_str (write_bool h True) s | None \<Rightarrow> write_bool h False)"

definition write_digest :: "hasher \<Rightarrow> content_digest \<Rightarrow> hasher" where
  "write_digest h d = write_bytes h (digest_bytes d)"

definition write_u64 :: "hasher \<Rightarrow> u64 \<Rightarrow> hasher" where
  "write_u64 h n = h @ be_u64 n"

definition canonical_hasher :: "string \<Rightarrow> hasher" where
  "canonical_hasher domain = write_str [] domain"

text \<open>
  Two streams that agree so far and are extended by the same kind of item agree afterwards
  exactly when the items agree.  \<open>fits\<close> is the \<open>expect\<close> of the source: lengths fit in \<open>u64\<close>.
\<close>

definition fits :: "'a list \<Rightarrow> bool" where
  "fits xs \<longleftrightarrow> length xs < 2 ^ 64"

named_theorems canonical_inject \<open>what equality of two canonical streams says of their items\<close>

lemma item_bytes_inject [canonical_inject]:
  "fits v \<Longrightarrow> fits w \<Longrightarrow>
   be_u64 (of_nat (length v)) @ v @ r = be_u64 (of_nat (length w)) @ w @ r'
   \<longleftrightarrow> v = w \<and> r = r'"
  by (auto simp: append_eq_split fits_def of_nat_u64_inject)

lemma fits_digest_bytes [simp]: "fits (digest_bytes d)"
  by (simp add: fits_def)

lemma fits_id_bytes [simp]: "fits (id_bytes i)"
  by (simp add: fits_def)

lemma fits_as_bytes [simp]: "fits (as_bytes s) \<longleftrightarrow> fits s"
  by (simp add: fits_def)

lemma item_bool_inject [canonical_inject]:
  "(of_bool a :: byte) # r = of_bool b # r' \<longleftrightarrow> a = b \<and> r = r'"
  by auto

lemma item_u64_inject [canonical_inject]:
  "be_u64 m @ r = be_u64 n @ r' \<longleftrightarrow> m = n \<and> r = r'"
  by (simp add: append_eq_split)

text \<open>\<open>for x in xs { hasher.write_...(x) }\<close>: the items of a list, each written by \<open>w\<close>.\<close>

definition write_all :: "(hasher \<Rightarrow> 'a \<Rightarrow> hasher) \<Rightarrow> hasher \<Rightarrow> 'a list \<Rightarrow> hasher" where
  "write_all w h xs = foldl w h xs"

text \<open>A list of items, each of which can be split off its stream, can be split off too.\<close>

lemma concat_inject:
  assumes "\<And>x y r r'. x \<in> set xs \<Longrightarrow> y \<in> set ys \<Longrightarrow> enc x @ r = enc y @ r' \<Longrightarrow> x = y \<and> r = r'"
    and "length xs = length ys"
    and "concat (map enc xs) @ r = concat (map enc ys) @ r'"
  shows "xs = ys \<and> r = r'"
  using assms(2,1,3)
proof (induction xs ys rule: list_induct2)
  case (Cons x xs y ys)
  from Cons.prems(2) have "enc x @ concat (map enc xs) @ r = enc y @ concat (map enc ys) @ r'"
    by simp
  from Cons.prems(1) [OF _ _ this] have "x = y"
    and rest: "concat (map enc xs) @ r = concat (map enc ys) @ r'" by auto
  moreover have "xs = ys \<and> r = r'"
    by (rule Cons.IH [OF _ rest]) (rule Cons.prems(1), auto)
  ultimately show ?case by simp
qed simp

lemma foldl_append_items:
  "(\<And>h x. w h x = h @ enc x) \<Longrightarrow> write_all w h xs = h @ concat (map enc xs)"
  unfolding write_all_def by (induction xs arbitrary: h) auto

text \<open>A digest as an item of a list, and the same for identifiers.\<close>

definition digest_item :: "content_digest \<Rightarrow> byte list" where
  "digest_item d = write_digest [] d"

lemma write_digest_item: "write_digest h d = h @ digest_item d"
  by (simp add: write_digest_def digest_item_def write_bytes_def)

lemma digest_item_inject: "digest_item d @ r = digest_item d' @ r' \<longleftrightarrow> d = d' \<and> r = r'"
  by (simp add: digest_item_def write_digest_def write_bytes_def append_eq_split)

definition str_item :: "string \<Rightarrow> byte list" where
  "str_item s = write_str [] s"

lemma write_str_item: "write_str h s = h @ str_item s"
  by (simp add: write_str_def write_bytes_def str_item_def)

lemma str_item_inject [canonical_inject]:
  "fits s \<Longrightarrow> fits t \<Longrightarrow> str_item s @ r = str_item t @ r' \<longleftrightarrow> s = t \<and> r = r'"
  using item_bytes_inject [of "as_bytes s" "as_bytes t" r r']
  by (simp add: str_item_def write_str_def write_bytes_def)

definition id_item :: "'k typed_id \<Rightarrow> byte list" where
  "id_item i = write_bytes [] (id_bytes i)"

lemma write_id_item: "write_bytes h (id_bytes i) = h @ id_item i"
  by (simp add: write_bytes_def id_item_def)

lemma id_item_inject: "id_item i @ r = id_item j @ r' \<longleftrightarrow> i = j \<and> r = r'"
  by (simp add: id_item_def write_bytes_def append_eq_split)

section \<open>Project identifiers from stable keys (id.rs)\<close>

definition project_domain :: string where
  "project_domain = ''opencode-workflow/project/v1''"

definition project_id_from_stable_key :: "(byte list \<Rightarrow> content_digest) \<Rightarrow> string \<Rightarrow> project_id" where
  "project_id_from_stable_key sha value =
     (let input = as_bytes project_domain @ as_bytes value;
          bytes = take 16 (digest_bytes (sha input));
          bytes = bytes[6 := or (and (bytes ! 6) 0x0f) 0x80];
          bytes = bytes[8 := or (and (bytes ! 8) 0x3f) 0x80]
      in Id (of_nat (be_nat bytes)))"

end
