(* ===== verification/Workflow.thy ===== *)
theory Workflow
  imports Command_Machine Cycle_Digest
begin

text \<open>
  The workflow state machine of \<open>crates/workflow-core/src/workflow.rs\<close>: its state, the twenty
  commands with their guards in the order of the source's match, the invariant that ties the
  fields together, and what it implies for delivery and for the repair budget.
\<close>

section \<open>Data\<close>

datatype workflow_mode = Quick | Full

datatype repair_target = Execution_Target | Architecture_Target

datatype workflow_state =
    Intake
  | Routing
  | QuickExecution
  | Architecture
  | Execution
  | Verification
  | IndependentReviews
  | Arbitration
  | Delivery
  | Repair
  | Paused
  | Blocked
  | Completed
  | Cancelled

fun workflow_is_terminal :: "workflow_state \<Rightarrow> bool" where
  "workflow_is_terminal s \<longleftrightarrow> s = Completed \<or> s = Cancelled"

datatype workflow_command =
    CompleteIntake
  | Route workflow_mode
  | ArchitectureAccepted
  | CandidateReady candidate_id
  | VerificationPassed
  | VerificationFailed
  | VerificationRejected repair_target
  | ReviewsReady
  | Approve (mandatory_gates_passed: bool)
  | Deliver
  | Reject repair_target
  | BeginRepair
  | Pause
  | Resume
  | Cancel
  | RetryInfrastructure
  | ResumeBlocked (additional_cycles: u8)
  | BlockInfrastructure
  | ResumeInfrastructure
  | ReplanExecution

datatype workflow_event =
    WorkflowStateChanged workflow_state workflow_state
  | CandidateSelected candidate_id
  | RepairCycleConsumed (cycle: u8) (maximum: u8)
  | RepairBudgetExtended (previous: u8) (current: u8)
  | InfrastructureRetryAccepted

datatype transition_error =
    InvalidTransition
  | MandatoryGateFailed
  | MissingCandidate
  | MissingRepairTarget
  | InvalidAdditionalCycles
  | RepairBudgetOverflow

record workflow =
  wf_state :: workflow_state
  wf_mode :: "workflow_mode option"
  wf_candidate :: "candidate_id option"
  wf_repair_target :: "repair_target option"
  wf_cycles :: u8
  wf_max_cycles :: u8
  wf_paused_from :: "workflow_state option"
  wf_infrastructure_blocked_from :: "workflow_state option"

text \<open>\<open>Workflow::new\<close>; its argument is a \<open>NonZeroU8\<close>, \<open>Default\<close> passes five.\<close>

definition workflow_new :: "u8 \<Rightarrow> workflow" where
  "workflow_new max_repair_cycles =
     \<lparr>wf_state = Intake, wf_mode = None, wf_candidate = None, wf_repair_target = None,
      wf_cycles = 0, wf_max_cycles = max_repair_cycles, wf_paused_from = None,
      wf_infrastructure_blocked_from = None\<rparr>"

definition workflow_default :: workflow where
  "workflow_default = workflow_new 5"

section \<open>Operations\<close>

type_synonym workflow_result = "workflow \<times> (transition_error + workflow_event list)"

definition workflow_transition :: "workflow \<Rightarrow> workflow_state \<Rightarrow> workflow \<times> workflow_event list" where
  "workflow_transition w to = (w\<lparr>wf_state := to\<rparr>, [WorkflowStateChanged (wf_state w) to])"

text \<open>\<open>Ok(self.transition(to))\<close>, with the events emitted before it.\<close>

definition ok_transition :: "workflow \<Rightarrow> workflow_event list \<Rightarrow> workflow_state \<Rightarrow> workflow_result" where
  "ok_transition w before to =
     (case workflow_transition w to of (w', evs) \<Rightarrow> (w', Ok (before @ evs)))"

definition require_candidate :: "workflow \<Rightarrow> transition_error + candidate_id" where
  "require_candidate w = ok_or (wf_candidate w) MissingCandidate"

definition can_pause :: "workflow_state \<Rightarrow> bool" where
  "can_pause s \<longleftrightarrow> s \<notin> {Paused, Blocked, Verification, Delivery, Completed, Cancelled}"

definition can_retry_infrastructure :: "workflow_state \<Rightarrow> bool" where
  "can_retry_infrastructure s \<longleftrightarrow> s \<notin> {Paused, Blocked, Completed, Cancelled}"

definition can_block_infrastructure :: "workflow_state \<Rightarrow> bool" where
  "can_block_infrastructure s \<longleftrightarrow> s \<notin> {Paused, Blocked, Completed, Cancelled}"

text \<open>\<open>reject\<close>: consume a repair cycle, then repair or, with the budget used up, block.\<close>

definition workflow_reject :: "workflow \<Rightarrow> repair_target \<Rightarrow> workflow_result" where
  "workflow_reject w target =
     (case checked_add (wf_cycles w) 1 of
        None \<Rightarrow> (w, Err RepairBudgetOverflow)
      | Some next_cycle \<Rightarrow>
          let w1 = w\<lparr>wf_cycles := next_cycle, wf_repair_target := Some target\<rparr>
          in ok_transition w1 [RepairCycleConsumed next_cycle (wf_max_cycles w1)]
               (if next_cycle \<ge> wf_max_cycles w1 then Blocked else Repair))"

fun workflow_apply :: "workflow \<Rightarrow> workflow_command \<Rightarrow> workflow_result" where
  "workflow_apply w CompleteIntake =
     (if wf_state w = Intake then ok_transition w [] Routing else (w, Err InvalidTransition))"
| "workflow_apply w (Route mode) =
     (if wf_state w = Routing then
        ok_transition (w\<lparr>wf_mode := Some mode\<rparr>) []
          (case mode of Quick \<Rightarrow> QuickExecution | Full \<Rightarrow> Architecture)
      else (w, Err InvalidTransition))"
| "workflow_apply w ArchitectureAccepted =
     (if wf_state w = Architecture then ok_transition w [] Execution
      else (w, Err InvalidTransition))"
| "workflow_apply w (CandidateReady c) =
     (if wf_state w = QuickExecution \<or> wf_state w = Execution then
        ok_transition (w\<lparr>wf_candidate := Some c\<rparr>) [CandidateSelected c] Verification
      else (w, Err InvalidTransition))"
| "workflow_apply w VerificationPassed =
     (if wf_state w = Verification then
        (case require_candidate w of
           Inl e \<Rightarrow> (w, Err e)
         | Inr _ \<Rightarrow>
             (case wf_mode w of
                Some Quick \<Rightarrow> ok_transition w [] Arbitration
              | Some Full \<Rightarrow> ok_transition w [] IndependentReviews
              | None \<Rightarrow> (w, Err InvalidTransition)))
      else (w, Err InvalidTransition))"
| "workflow_apply w VerificationFailed =
     (if wf_state w = Verification then
        (case require_candidate w of
           Inl e \<Rightarrow> (w, Err e)
         | Inr _ \<Rightarrow> workflow_reject w Execution_Target)
      else (w, Err InvalidTransition))"
| "workflow_apply w (VerificationRejected target) =
     (if wf_state w = Verification then
        (case require_candidate w of
           Inl e \<Rightarrow> (w, Err e)
         | Inr _ \<Rightarrow> workflow_reject w target)
      else (w, Err InvalidTransition))"
| "workflow_apply w ReviewsReady =
     (if wf_state w = IndependentReviews then ok_transition w [] Arbitration
      else (w, Err InvalidTransition))"
| "workflow_apply w (Approve gates_passed) =
     (if wf_state w = Arbitration then
        (case require_candidate w of
           Inl e \<Rightarrow> (w, Err e)
         | Inr _ \<Rightarrow>
             (if \<not> gates_passed then (w, Err MandatoryGateFailed)
              else ok_transition w [] Delivery))
      else (w, Err InvalidTransition))"
| "workflow_apply w Deliver =
     (if wf_state w = Delivery then
        (case require_candidate w of
           Inl e \<Rightarrow> (w, Err e)
         | Inr _ \<Rightarrow> ok_transition w [] Completed)
      else (w, Err InvalidTransition))"
| "workflow_apply w (Reject target) =
     (if wf_state w = Arbitration then
        (case require_candidate w of
           Inl e \<Rightarrow> (w, Err e)
         | Inr _ \<Rightarrow> workflow_reject w target)
      else (w, Err InvalidTransition))"
| "workflow_apply w BeginRepair =
     (if wf_state w = Repair then
        let w1 = w\<lparr>wf_repair_target := None\<rparr> in
        (case wf_repair_target w of
           None \<Rightarrow> (w1, Err MissingRepairTarget)
         | Some target \<Rightarrow>
             ok_transition (w1\<lparr>wf_candidate := None\<rparr>) []
               (case target of Execution_Target \<Rightarrow> Execution | Architecture_Target \<Rightarrow> Architecture))
      else (w, Err InvalidTransition))"
| "workflow_apply w Pause =
     (if can_pause (wf_state w) then
        ok_transition (w\<lparr>wf_paused_from := Some (wf_state w)\<rparr>) [] Paused
      else (w, Err InvalidTransition))"
| "workflow_apply w Resume =
     (if wf_state w = Paused then
        let w1 = w\<lparr>wf_paused_from := None\<rparr> in
        (case wf_paused_from w of
           None \<Rightarrow> (w1, Err InvalidTransition)
         | Some prev \<Rightarrow> ok_transition w1 [] prev)
      else (w, Err InvalidTransition))"
| "workflow_apply w Cancel =
     (if \<not> workflow_is_terminal (wf_state w) then
        ok_transition (w\<lparr>wf_paused_from := None\<rparr>) [] Cancelled
      else (w, Err InvalidTransition))"
| "workflow_apply w RetryInfrastructure =
     (if can_retry_infrastructure (wf_state w) then (w, Ok [InfrastructureRetryAccepted])
      else (w, Err InvalidTransition))"
| "workflow_apply w (ResumeBlocked additional) =
     (if wf_state w = Blocked \<and> wf_infrastructure_blocked_from w = None then
        (if additional = 0 then (w, Err InvalidAdditionalCycles)
         else (case checked_add (wf_max_cycles w) additional of
                 None \<Rightarrow> (w, Err RepairBudgetOverflow)
               | Some extended \<Rightarrow>
                   ok_transition (w\<lparr>wf_max_cycles := extended\<rparr>)
                     [RepairBudgetExtended (wf_max_cycles w) extended] Repair))
      else (w, Err InvalidTransition))"
| "workflow_apply w BlockInfrastructure =
     (if can_block_infrastructure (wf_state w) then
        ok_transition (w\<lparr>wf_infrastructure_blocked_from := Some (wf_state w)\<rparr>) [] Blocked
      else (w, Err InvalidTransition))"
| "workflow_apply w ResumeInfrastructure =
     (if wf_state w = Blocked \<and> wf_infrastructure_blocked_from w \<noteq> None then
        let w1 = w\<lparr>wf_infrastructure_blocked_from := None\<rparr> in
        (case wf_infrastructure_blocked_from w of
           None \<Rightarrow> (w1, Err InvalidTransition)
         | Some prev \<Rightarrow> ok_transition w1 [] prev)
      else (w, Err InvalidTransition))"
| "workflow_apply w ReplanExecution =
     (if wf_state w = Execution then ok_transition w [] Architecture
      else (w, Err InvalidTransition))"

lemmas workflow_step_defs =
  ok_transition_def workflow_transition_def require_candidate_def workflow_reject_def

text \<open>How an accepted command arises: one case analysis for all the proofs below.\<close>

lemmas workflow_step_splits =
  if_splits option.splits workflow_mode.splits repair_target.splits sum.splits

section \<open>The invariant\<close>

text \<open>
  A pause and an infrastructure block remember where they came from.  \<open>effective\<close> is the stage
  the workflow is really in: the remembered one, or the budget block.
\<close>

definition effective :: "workflow \<Rightarrow> workflow_state" where
  "effective w =
     (if wf_state w = Paused then the (wf_paused_from w)
      else if wf_state w = Blocked \<and> wf_infrastructure_blocked_from w \<noteq> None
      then the (wf_infrastructure_blocked_from w)
      else wf_state w)"

text \<open>
  What each stage guarantees: no candidate before one is submitted and a candidate from then on,
  a mode once routed, reviews in full mode only, a repair target when there is one to use, and
  cycles left in the budget except where the workflow is blocked on it.
\<close>

fun stage_ok :: "workflow_state \<Rightarrow> workflow \<Rightarrow> bool" where
  "stage_ok Intake w \<longleftrightarrow> wf_candidate w = None \<and> wf_cycles w < wf_max_cycles w"
| "stage_ok Routing w \<longleftrightarrow> wf_candidate w = None \<and> wf_cycles w < wf_max_cycles w"
| "stage_ok QuickExecution w \<longleftrightarrow>
     wf_candidate w = None \<and> wf_mode w \<noteq> None \<and> wf_cycles w < wf_max_cycles w"
| "stage_ok Architecture w \<longleftrightarrow>
     wf_candidate w = None \<and> wf_mode w \<noteq> None \<and> wf_cycles w < wf_max_cycles w"
| "stage_ok Execution w \<longleftrightarrow>
     wf_candidate w = None \<and> wf_mode w \<noteq> None \<and> wf_cycles w < wf_max_cycles w"
| "stage_ok Verification w \<longleftrightarrow>
     wf_candidate w \<noteq> None \<and> wf_mode w \<noteq> None \<and> wf_cycles w < wf_max_cycles w"
| "stage_ok IndependentReviews w \<longleftrightarrow>
     wf_candidate w \<noteq> None \<and> wf_mode w = Some Full \<and> wf_cycles w < wf_max_cycles w"
| "stage_ok Arbitration w \<longleftrightarrow>
     wf_candidate w \<noteq> None \<and> wf_mode w \<noteq> None \<and> wf_cycles w < wf_max_cycles w"
| "stage_ok Delivery w \<longleftrightarrow>
     wf_candidate w \<noteq> None \<and> wf_mode w \<noteq> None \<and> wf_cycles w < wf_max_cycles w"
| "stage_ok Completed w \<longleftrightarrow>
     wf_candidate w \<noteq> None \<and> wf_mode w \<noteq> None \<and> wf_cycles w < wf_max_cycles w"
| "stage_ok Repair w \<longleftrightarrow>
     wf_candidate w \<noteq> None \<and> wf_mode w \<noteq> None \<and> wf_repair_target w \<noteq> None
     \<and> wf_cycles w < wf_max_cycles w"
| "stage_ok Blocked w \<longleftrightarrow>
     wf_candidate w \<noteq> None \<and> wf_mode w \<noteq> None \<and> wf_repair_target w \<noteq> None
     \<and> wf_cycles w = wf_max_cycles w"
| "stage_ok Cancelled w \<longleftrightarrow> wf_cycles w \<le> wf_max_cycles w"
| "stage_ok Paused w \<longleftrightarrow> False"

definition links_ok :: "workflow \<Rightarrow> bool" where
  "links_ok w =
     (case wf_state w of
        Paused \<Rightarrow> (case wf_paused_from w of None \<Rightarrow> False | Some s \<Rightarrow> can_pause s)
                  \<and> wf_infrastructure_blocked_from w = None
      | Blocked \<Rightarrow> (case wf_infrastructure_blocked_from w of
                      None \<Rightarrow> True | Some s \<Rightarrow> can_block_infrastructure s)
                  \<and> wf_paused_from w = None
      | Cancelled \<Rightarrow> wf_paused_from w = None
      | _ \<Rightarrow> wf_paused_from w = None \<and> wf_infrastructure_blocked_from w = None)"

definition workflow_ok :: "workflow \<Rightarrow> bool" where
  "workflow_ok w \<longleftrightarrow> links_ok w \<and> stage_ok (effective w) w"

lemma workflow_new_ok: "0 < m \<Longrightarrow> workflow_ok (workflow_new m)"
  by (simp add: workflow_ok_def workflow_new_def effective_def links_ok_def)

text \<open>A stage that is neither paused nor blocked is its own effective stage.\<close>

lemma workflow_ok_plain:
  assumes "workflow_ok w" and "wf_state w = s" and "s \<notin> {Paused, Blocked, Cancelled}"
  shows "stage_ok s w" and "wf_paused_from w = None"
    and "wf_infrastructure_blocked_from w = None"
  using assms by (cases s; simp add: workflow_ok_def effective_def links_ok_def)+

lemma workflow_ok_enter:
  assumes "wf_state w = s" and "s \<noteq> Paused" and "stage_ok s w"
    and "wf_paused_from w = None" and "wf_infrastructure_blocked_from w = None"
  shows "workflow_ok w"
  using assms by (cases s; simp add: workflow_ok_def effective_def links_ok_def)

lemma stage_ok_cong:
  assumes "wf_candidate w = wf_candidate w'" and "wf_mode w = wf_mode w'"
    and "wf_repair_target w = wf_repair_target w'" and "wf_cycles w = wf_cycles w'"
    and "wf_max_cycles w = wf_max_cycles w'"
  shows "stage_ok s w = stage_ok s w'"
  using assms by (cases s) simp_all

lemma stage_ok_budget: "stage_ok s w \<Longrightarrow> wf_cycles w \<le> wf_max_cycles w"
  by (cases s) auto

text \<open>Facts about the cycle counter, which is eight bits wide.\<close>

lemma next_cycle_bounds:
  assumes "checked_add (a :: u8) 1 = Some b" and "a < m"
  shows "b \<le> m" and "a \<noteq> b"
proof -
  from assms(1) have "unat b = unat a + 1" by (auto dest: checked_add_Some_unat)
  with assms(2) show "b \<le> m" "a \<noteq> b" by (auto simp: word_le_nat_alt word_less_nat_alt)
qed

lemma extended_budget:
  assumes "checked_add (a :: u8) b = Some c" and "b \<noteq> 0" and "n \<le> a"
  shows "n < c"
proof -
  from assms(1) have "unat c = unat a + unat b" by (rule checked_add_Some_unat)
  moreover have "0 < unat b" using assms(2) by (simp add: unat_gt_0)
  ultimately show ?thesis using assms(3) by (simp add: word_le_nat_alt word_less_nat_alt)
qed

lemma workflow_reject_ok:
  assumes "workflow_ok w" and "wf_state w = s" and "s = Verification \<or> s = Arbitration"
    and "snd (workflow_reject w target) = Inr evs"
  shows "workflow_ok (fst (workflow_reject w target))"
proof -
  have "s \<notin> {Paused, Blocked, Cancelled}" using assms(3) by auto
  note p = workflow_ok_plain [OF assms(1,2) this]
  from p(1) assms(3) have lt: "wf_cycles w < wf_max_cycles w" by auto
  from assms(4) obtain n where n: "checked_add (wf_cycles w) 1 = Some n"
    by (auto simp: workflow_reject_def split: option.splits)
  note b = next_cycle_bounds [OF n lt]
  show ?thesis
    by (rule workflow_ok_enter [where s = "if n \<ge> wf_max_cycles w then Blocked else Repair"])
      (use p assms(3) b in \<open>auto simp: workflow_reject_def n Let_def ok_transition_def
         workflow_transition_def not_le intro: antisym\<close>)
qed

text \<open>Most commands leave a plain stage for another one.\<close>

lemma ok_transition_enter:
  assumes "to \<noteq> Paused" and "stage_ok to w"
    and "wf_paused_from w = None" and "wf_infrastructure_blocked_from w = None"
  shows "workflow_ok (fst (ok_transition w evs to))"
proof (rule workflow_ok_enter)
  have "stage_ok to (w\<lparr>wf_state := to\<rparr>) = stage_ok to w" by (rule stage_ok_cong) simp_all
  with assms(2) show "stage_ok to (fst (ok_transition w evs to))"
    by (simp add: ok_transition_def workflow_transition_def)
qed (use assms in \<open>simp_all add: ok_transition_def workflow_transition_def\<close>)

text \<open>A suspended workflow keeps its effective stage, and gets it back when resumed.\<close>

lemma suspend_ok:
  assumes "workflow_ok w"
  shows "can_pause (wf_state w) \<Longrightarrow>
      workflow_ok (w\<lparr>wf_paused_from := Some (wf_state w), wf_state := Paused\<rparr>)"
    and "can_block_infrastructure (wf_state w) \<Longrightarrow>
      workflow_ok (w\<lparr>wf_infrastructure_blocked_from := Some (wf_state w), wf_state := Blocked\<rparr>)"
proof -
  have cong: "stage_ok s (w\<lparr>wf_paused_from := Some (wf_state w), wf_state := Paused\<rparr>) = stage_ok s w"
    "stage_ok s (w\<lparr>wf_infrastructure_blocked_from := Some (wf_state w), wf_state := Blocked\<rparr>)
     = stage_ok s w" for s
    by (rule stage_ok_cong; simp)+
  have plain: "can_pause (wf_state w) \<or> can_block_infrastructure (wf_state w) \<Longrightarrow>
      wf_state w \<notin> {Paused, Blocked, Cancelled}"
    by (auto simp: can_pause_def can_block_infrastructure_def)
  show "can_pause (wf_state w) \<Longrightarrow>
      workflow_ok (w\<lparr>wf_paused_from := Some (wf_state w), wf_state := Paused\<rparr>)"
    using workflow_ok_plain [OF assms refl] plain
    by (simp add: workflow_ok_def links_ok_def effective_def cong)
  show "can_block_infrastructure (wf_state w) \<Longrightarrow>
      workflow_ok (w\<lparr>wf_infrastructure_blocked_from := Some (wf_state w), wf_state := Blocked\<rparr>)"
    using workflow_ok_plain [OF assms refl] plain
    by (simp add: workflow_ok_def links_ok_def effective_def cong)
qed

lemma resume_ok:
  assumes "workflow_ok w"
  shows "wf_state w = Paused \<Longrightarrow> wf_paused_from w = Some s \<Longrightarrow>
      workflow_ok (w\<lparr>wf_paused_from := None, wf_state := s\<rparr>)"
    and "wf_state w = Blocked \<Longrightarrow> wf_infrastructure_blocked_from w = Some s \<Longrightarrow>
      workflow_ok (w\<lparr>wf_infrastructure_blocked_from := None, wf_state := s\<rparr>)"
proof -
  have cong: "stage_ok t (w\<lparr>wf_paused_from := None, wf_state := s\<rparr>) = stage_ok t w"
    "stage_ok t (w\<lparr>wf_infrastructure_blocked_from := None, wf_state := s\<rparr>) = stage_ok t w" for t
    by (rule stage_ok_cong; simp)+
  show "wf_state w = Paused \<Longrightarrow> wf_paused_from w = Some s \<Longrightarrow>
      workflow_ok (w\<lparr>wf_paused_from := None, wf_state := s\<rparr>)"
    using assms by (intro workflow_ok_enter [where s = s])
      (auto simp: cong workflow_ok_def links_ok_def effective_def can_pause_def)
  show "wf_state w = Blocked \<Longrightarrow> wf_infrastructure_blocked_from w = Some s \<Longrightarrow>
      workflow_ok (w\<lparr>wf_infrastructure_blocked_from := None, wf_state := s\<rparr>)"
    using assms by (intro workflow_ok_enter [where s = s])
      (auto simp: cong workflow_ok_def links_ok_def effective_def can_block_infrastructure_def)
qed

lemma cancel_ok:
  assumes "workflow_ok w"
  shows "workflow_ok (w\<lparr>wf_paused_from := None, wf_state := Cancelled\<rparr>)"
  using assms stage_ok_budget
  by (auto simp: workflow_ok_def links_ok_def effective_def)

lemma resume_blocked_ok:
  assumes "workflow_ok w" and "wf_state w = Blocked" and "wf_infrastructure_blocked_from w = None"
    and "n \<noteq> 0" and "checked_add (wf_max_cycles w) n = Some m"
  shows "workflow_ok (w\<lparr>wf_max_cycles := m, wf_state := Repair\<rparr>)"
  using assms extended_budget [OF assms(5,4)]
  by (intro workflow_ok_enter [where s = Repair])
    (auto simp: workflow_ok_def links_ok_def effective_def)

lemma workflow_apply_ok:
  assumes ok: "workflow_ok w" and acc: "snd (workflow_apply w c) = Inr evs"
  shows "workflow_ok (fst (workflow_apply w c))"
proof -
  note plain = workflow_ok_plain [OF ok]
  note enter = ok_transition_enter
  note step = workflow_step_defs
  show ?thesis
  proof (cases c)
    case (Route m)
    with acc plain [of Routing] show ?thesis
      by (auto intro!: enter split: if_splits workflow_mode.splits)
  next
    case (CandidateReady cand)
    with acc plain [of QuickExecution] plain [of Execution] show ?thesis
      by (auto intro!: enter split: if_splits)
  next
    case VerificationPassed
    with acc plain [of Verification] show ?thesis
      by (auto intro!: enter split: if_splits sum.splits option.splits workflow_mode.splits)
  next
    case VerificationFailed
    with acc show ?thesis
      by (auto intro!: workflow_reject_ok [OF ok refl] split: if_splits sum.splits)
  next
    case (VerificationRejected t)
    with acc show ?thesis
      by (auto intro!: workflow_reject_ok [OF ok refl] split: if_splits sum.splits)
  next
    case (Reject t)
    with acc show ?thesis
      by (auto intro!: workflow_reject_ok [OF ok refl] split: if_splits sum.splits)
  next
    case BeginRepair
    with acc plain [of Repair] show ?thesis
      by (auto intro!: enter simp: Let_def split: if_splits option.splits repair_target.splits)
  next
    case Pause
    with acc suspend_ok(1) [OF ok] show ?thesis by (auto simp: step split: if_splits)
  next
    case Resume
    with acc resume_ok(1) [OF ok] show ?thesis
      by (auto simp: step Let_def split: if_splits option.splits)
  next
    case Cancel
    with acc cancel_ok [OF ok] show ?thesis by (auto simp: step split: if_splits)
  next
    case (ResumeBlocked n)
    with acc resume_blocked_ok [OF ok] show ?thesis
      by (auto simp: step split: if_splits option.splits)
  next
    case BlockInfrastructure
    with acc suspend_ok(2) [OF ok] show ?thesis by (auto simp: step split: if_splits)
  next
    case ResumeInfrastructure
    with acc resume_ok(2) [OF ok] show ?thesis
      by (auto simp: step Let_def split: if_splits option.splits)
  qed (use acc ok plain [of Intake] plain [of Architecture] plain [of IndependentReviews]
         plain [of Arbitration] plain [of Delivery] plain [of Execution]
       in \<open>auto intro!: enter split: if_splits sum.splits\<close>)
qed

lemma workflow_refused_frame:
  "snd (workflow_apply w c) = Inl e \<Longrightarrow> fst (workflow_apply w c) = w"
  by (cases c) (auto simp: workflow_step_defs Let_def
      split: if_splits option.splits workflow_mode.splits sum.splits)

fun workflow_moves :: "workflow_event \<Rightarrow> (workflow_state \<times> workflow_state) option" where
  "workflow_moves (WorkflowStateChanged a b) = Some (a, b)"
| "workflow_moves _ = None"

lemma workflow_terminal_refuses:
  "workflow_is_terminal (wf_state w) \<Longrightarrow> \<exists>e. snd (workflow_apply w c) = Inl e"
  by (cases c) (auto simp: can_pause_def can_retry_infrastructure_def can_block_infrastructure_def)

lemma workflow_accepted_moves:
  "snd (workflow_apply w c) = Inr vs \<Longrightarrow>
   walk (wf_state w) (List.map_filter workflow_moves vs) (wf_state (fst (workflow_apply w c)))"
  by (cases c) (auto simp: workflow_step_defs Let_def List.map_filter_def
      split: if_splits option.splits workflow_mode.splits sum.splits)

interpretation wf_machine: command_machine workflow_apply wf_state workflow_is_terminal
    workflow_moves workflow_ok
  by unfold_locales
    (rule workflow_refused_frame workflow_apply_ok workflow_terminal_refuses
       workflow_accepted_moves, assumption+)+

section \<open>Delivery is gated\<close>

text \<open>What a list of accepted commands says: the last candidate submitted, and everything
  accepted since.\<close>

fun is_candidate_ready :: "workflow_command \<Rightarrow> bool" where
  "is_candidate_ready (CandidateReady _) = True"
| "is_candidate_ready _ = False"

definition last_candidate :: "workflow_command list \<Rightarrow> candidate_id option" where
  "last_candidate acc =
     foldl (\<lambda>x c. case c of CandidateReady k \<Rightarrow> Some k | _ \<Rightarrow> x) None acc"

definition since_candidate :: "workflow_command list \<Rightarrow> workflow_command list" where
  "since_candidate acc = rev (takeWhile (\<lambda>c. \<not> is_candidate_ready c) (rev acc))"

lemma last_candidate_snoc [simp]:
  "last_candidate (acc @ [c]) =
     (if is_candidate_ready c then (case c of CandidateReady k \<Rightarrow> Some k | _ \<Rightarrow> None)
      else last_candidate acc)"
  by (cases c) (simp_all add: last_candidate_def)

lemma since_candidate_snoc [simp]:
  "since_candidate (acc @ [c]) =
     (if is_candidate_ready c then [] else since_candidate acc @ [c])"
  by (cases c) (simp_all add: since_candidate_def)

fun gates_ok :: "workflow_state \<Rightarrow> workflow_command list \<Rightarrow> workflow \<Rightarrow> bool" where
  "gates_ok Verification acc w \<longleftrightarrow> last_candidate acc = wf_candidate w"
| "gates_ok IndependentReviews acc w \<longleftrightarrow>
     last_candidate acc = wf_candidate w \<and> VerificationPassed \<in> set (since_candidate acc)"
| "gates_ok Arbitration acc w \<longleftrightarrow>
     last_candidate acc = wf_candidate w \<and> VerificationPassed \<in> set (since_candidate acc)
     \<and> (wf_mode w = Some Full \<longrightarrow> ReviewsReady \<in> set (since_candidate acc))"
| "gates_ok Delivery acc w \<longleftrightarrow>
     last_candidate acc = wf_candidate w \<and> VerificationPassed \<in> set (since_candidate acc)
     \<and> (wf_mode w = Some Full \<longrightarrow> ReviewsReady \<in> set (since_candidate acc))
     \<and> Approve True \<in> set (since_candidate acc)"
| "gates_ok Completed acc w \<longleftrightarrow>
     last_candidate acc = wf_candidate w \<and> VerificationPassed \<in> set (since_candidate acc)
     \<and> (wf_mode w = Some Full \<longrightarrow> ReviewsReady \<in> set (since_candidate acc))
     \<and> Approve True \<in> set (since_candidate acc)"
| "gates_ok _ acc w \<longleftrightarrow> True"

lemma gates_ok_mono:
  assumes "gates_ok s acc w" and "\<not> is_candidate_ready c"
    and "wf_candidate w' = wf_candidate w" and "wf_mode w' = wf_mode w"
  shows "gates_ok s (acc @ [c]) w'"
  using assms by (cases s) auto

lemma effective_plain:
  assumes "workflow_ok w" and "wf_state w = s" and "s \<notin> {Paused, Blocked}"
  shows "effective w = s"
  using assms by (simp add: effective_def)

lemma gates_ok_step:
  assumes ok: "workflow_ok w" and g: "gates_ok (effective w) acc w"
    and acc: "snd (workflow_apply w c) = Inr vs"
  shows "gates_ok (effective (fst (workflow_apply w c))) (acc @ [c]) (fst (workflow_apply w c))"
proof -
  note plain = workflow_ok_plain [OF ok]
  note step = workflow_step_defs Let_def effective_def
  note mono = gates_ok_mono [where w = w]
  show ?thesis
  proof (cases c)
    case Pause
    with acc g show ?thesis
      by (auto simp: step can_pause_def intro!: mono split: if_splits)
  next
    case Resume
    with acc g ok show ?thesis
      by (auto simp: step workflow_ok_def links_ok_def can_pause_def intro!: mono
          split: if_splits option.splits)
  next
    case BlockInfrastructure
    with acc g show ?thesis
      by (auto simp: step can_block_infrastructure_def intro!: mono split: if_splits)
  next
    case ResumeInfrastructure
    with acc g ok show ?thesis
      by (auto simp: step workflow_ok_def links_ok_def can_block_infrastructure_def intro!: mono
          split: if_splits option.splits)
  next
    case RetryInfrastructure
    with acc g show ?thesis by (auto intro!: mono split: if_splits)
  next
    case VerificationPassed
    with acc g plain [of Verification] show ?thesis
      by (auto simp: step split: if_splits sum.splits option.splits workflow_mode.splits)
  next
    case (Route m)
    with acc plain [of Routing] show ?thesis
      by (auto simp: step split: if_splits workflow_mode.splits)
  next
    case BeginRepair
    with acc plain [of Repair] show ?thesis
      by (auto simp: step split: if_splits option.splits repair_target.splits)
  qed (use acc g plain [of Intake] plain [of Architecture] plain [of IndependentReviews]
         plain [of Arbitration] plain [of Delivery] plain [of Execution] plain [of Repair]
         plain [of QuickExecution] plain [of Verification]
       in \<open>auto simp: step split: if_splits sum.splits option.splits\<close>)
qed

definition workflow_accepted :: "u8 \<Rightarrow> workflow_command list \<Rightarrow> workflow_command list" where
  "workflow_accepted m cs = run_accepted workflow_apply (workflow_new m) cs"

definition workflow_run :: "u8 \<Rightarrow> workflow_command list \<Rightarrow> workflow" where
  "workflow_run m cs = run_state workflow_apply (workflow_new m) cs"

lemma workflow_run_ok: "0 < m \<Longrightarrow> workflow_ok (workflow_run m cs)"
  unfolding workflow_run_def by (rule wf_machine.run_good) (rule workflow_new_ok)

lemma workflow_run_gates:
  assumes "0 < m"
  shows "workflow_ok (workflow_run m cs)
    \<and> gates_ok (effective (workflow_run m cs)) (workflow_accepted m cs) (workflow_run m cs)"
  unfolding workflow_run_def workflow_accepted_def
proof (rule run_accepted_invariant
    [where P = "\<lambda>acc w. workflow_ok w \<and> gates_ok (effective w) acc w"])
  show "workflow_ok (workflow_new m) \<and> gates_ok (effective (workflow_new m)) [] (workflow_new m)"
    using workflow_new_ok [OF assms] by (simp add: workflow_new_def effective_def)
qed (auto simp: gates_ok_step workflow_apply_ok workflow_refused_frame)

lemma since_candidate_subset: "set (since_candidate acc) \<subseteq> set acc"
  using set_takeWhileD [of _ "\<lambda>c. \<not> is_candidate_ready c" "rev acc"]
  by (auto simp: since_candidate_def)

lemma run_gates_passed:
  assumes "wf_state (run_state workflow_apply workflow_default cs) \<in> {Delivery, Completed}"
  shows "VerificationPassed \<in> set (run_accepted workflow_apply workflow_default cs)
    \<and> Approve True \<in> set (run_accepted workflow_apply workflow_default cs)"
proof -
  have gates: "gates_ok (effective (workflow_run 5 cs)) (workflow_accepted 5 cs) (workflow_run 5 cs)"
    using workflow_run_gates [of 5 cs] by simp
  have state: "wf_state (workflow_run 5 cs) \<in> {Delivery, Completed}"
    using assms by (simp add: workflow_run_def workflow_default_def)
  then have "effective (workflow_run 5 cs) = wf_state (workflow_run 5 cs)"
    by (auto simp: effective_def)
  with gates state since_candidate_subset [THEN subsetD] show ?thesis
    by (auto simp: workflow_accepted_def workflow_default_def)
qed

section \<open>Properties\<close>

text \<open>
  C13. Whatever commands are issued, accepted or refused, a workflow that starts with a non-zero
  budget keeps its fields consistent: pause and block links, candidate, mode and repair target
  of the stage it is in, and repair cycles within the budget.
\<close>

theorem workflow_invariant_of_runs:
  assumes "0 < m"
  shows "workflow_ok (run_state workflow_apply (workflow_new m) cs)"
  using workflow_run_ok [OF assms] by (simp add: workflow_run_def)

theorem workflow_invariant_of_runs_witness:
  "workflow_ok (run_state workflow_apply (workflow_new 5)
     [CompleteIntake, Route Quick, Pause, Deliver, Resume, CandidateReady (Id 7),
      BlockInfrastructure, ResumeInfrastructure, VerificationFailed])"
  by (rule workflow_invariant_of_runs) simp

text \<open>
  C14. A workflow is delivered only through the gates, and only what passed them: in any run
  that ends in delivery or completion, the commands accepted since the last candidate was
  submitted include the verification of it, an approval that reported the mandatory gates
  as passed and, in full mode, the independent reviews; and that candidate is the current one.
\<close>

theorem delivery_requires_gates:
  assumes "0 < m" and "wf_state (workflow_run m cs) \<in> {Delivery, Completed}"
  shows "\<exists>k. wf_candidate (workflow_run m cs) = Some k
     \<and> last_candidate (workflow_accepted m cs) = Some k
     \<and> VerificationPassed \<in> set (since_candidate (workflow_accepted m cs))
     \<and> Approve True \<in> set (since_candidate (workflow_accepted m cs))
     \<and> (wf_mode (workflow_run m cs) = Some Full
         \<longrightarrow> ReviewsReady \<in> set (since_candidate (workflow_accepted m cs)))"
proof -
  have eff: "effective (workflow_run m cs) = wf_state (workflow_run m cs)"
    using assms(2) by (auto simp: effective_def)
  with workflow_run_gates [OF assms(1), of cs] assms(2) show ?thesis
    by (auto simp: workflow_ok_def)
qed

theorem delivery_requires_gates_witness:
  "\<exists>k. wf_candidate (workflow_run 5 [CompleteIntake, Route Quick, CandidateReady (Id 7),
         VerificationPassed, Approve False, Approve True, Deliver]) = Some k"
proof -
  let ?cs = "[CompleteIntake, Route Quick, CandidateReady (Id 7), VerificationPassed,
    Approve False, Approve True, Deliver]"
  have "wf_state (workflow_run 5 ?cs) \<in> {Delivery, Completed}"
    by (simp add: workflow_run_def workflow_new_def workflow_step_defs)
  from delivery_requires_gates [OF _ this] show ?thesis by auto
qed

text \<open>Counting rejections: each accepted one consumes exactly one repair cycle.\<close>

fun is_rejection :: "workflow_command \<Rightarrow> bool" where
  "is_rejection VerificationFailed = True"
| "is_rejection (VerificationRejected _) = True"
| "is_rejection (Reject _) = True"
| "is_rejection _ = False"

fun budget_extension :: "workflow_command \<Rightarrow> nat" where
  "budget_extension (ResumeBlocked n) = unat n"
| "budget_extension _ = 0"

lemma workflow_reject_counts:
  assumes "snd (workflow_reject w t) = Inr vs"
  shows "unat (wf_cycles (fst (workflow_reject w t))) = unat (wf_cycles w) + 1
    \<and> wf_max_cycles (fst (workflow_reject w t)) = wf_max_cycles w"
  using assms checked_add_Some_unat [of "wf_cycles w" 1]
  by (auto simp: workflow_reject_def ok_transition_def workflow_transition_def Let_def
      split: option.splits)

lemma workflow_apply_counts:
  assumes "snd (workflow_apply w c) = Inr vs"
  shows "unat (wf_cycles (fst (workflow_apply w c)))
      = unat (wf_cycles w) + (if is_rejection c then 1 else 0)
    \<and> unat (wf_max_cycles (fst (workflow_apply w c)))
      = unat (wf_max_cycles w) + budget_extension c"
proof (cases "is_rejection c")
  case True
  with assms show ?thesis
    by (cases c) (auto simp: workflow_reject_counts split: if_splits sum.splits)
next
  case False
  with assms checked_add_Some_unat [of "wf_max_cycles w"] show ?thesis
    by (cases c) (auto simp: workflow_step_defs Let_def
        split: if_splits option.splits workflow_mode.splits sum.splits)
qed

lemma rejection_never_overflows:
  assumes ok: "workflow_ok w" and "is_rejection c"
  shows "snd (workflow_apply w c) \<noteq> Err RepairBudgetOverflow"
proof -
  have "checked_add (wf_cycles w) 1 \<noteq> None" if "wf_state w \<in> {Verification, Arbitration}"
  proof -
    have "wf_cycles w < wf_max_cycles w"
      using that workflow_ok_plain(1) [OF ok refl] by auto
    then show ?thesis
      using unat_byte [of "wf_max_cycles w"] by (simp add: checked_add_None_iff word_less_nat_alt)
  qed
  with assms(2) show ?thesis
    by (cases c) (auto simp: workflow_step_defs Let_def split: option.splits sum.splits)
qed

text \<open>
  C30. The repair budget bounds the repair loop: the accepted rejections of a run are exactly
  the consumed cycles, never more than the initial budget plus the extensions granted by the
  user, and the eight-bit cycle counter never overflows: a rejection that is in order is accepted.
\<close>

theorem repair_budget_bounds_rejections:
  assumes "0 < m"
  shows "let w = workflow_run m cs; acc = workflow_accepted m cs in
     unat (wf_cycles w) = length (filter is_rejection acc)
     \<and> unat (wf_max_cycles w) = unat m + sum_list (map budget_extension acc)
     \<and> length (filter is_rejection acc) \<le> unat m + sum_list (map budget_extension acc)
     \<and> (\<forall>c. is_rejection c \<longrightarrow> snd (workflow_apply w c) \<noteq> Err RepairBudgetOverflow)"
proof -
  let ?P = "\<lambda>acc w. unat (wf_cycles w) = length (filter is_rejection acc)
     \<and> unat (wf_max_cycles w) = unat m + sum_list (map budget_extension acc)"
  have counts: "?P (workflow_accepted m cs) (workflow_run m cs)"
    unfolding workflow_run_def workflow_accepted_def
    by (rule run_accepted_invariant [where P = ?P])
      (auto simp: workflow_new_def workflow_refused_frame dest: workflow_apply_counts)
  have le: "unat (wf_cycles (workflow_run m cs)) \<le> unat (wf_max_cycles (workflow_run m cs))"
    using workflow_run_ok [OF assms, of cs] stage_ok_budget
    by (auto simp: workflow_ok_def word_le_nat_alt)
  note never = rejection_never_overflows [OF workflow_run_ok [OF assms]]
  from counts le never show ?thesis by (simp add: Let_def)
qed

theorem repair_budget_bounds_rejections_witness:
  "unat (wf_cycles (workflow_run 2 [CompleteIntake, Route Quick, CandidateReady (Id 7),
      VerificationFailed])) = length (filter is_rejection (workflow_accepted 2
      [CompleteIntake, Route Quick, CandidateReady (Id 7), VerificationFailed]))"
  using repair_budget_bounds_rejections [of 2 "[CompleteIntake, Route Quick,
      CandidateReady (Id 7), VerificationFailed]"] by (simp add: Let_def)

text \<open>
  The event log is a complete record of the state: the state changes emitted by a run form a
  path, and any path that replays them ends in the state the workflow is in.  Refused commands
  change nothing, and after completion or cancellation nothing changes any more.
\<close>

theorem workflow_log_replays:
  "(walk (wf_state w) (List.map_filter workflow_moves (run_events workflow_apply w cs)) q
      \<longleftrightarrow> q = wf_state (run_state workflow_apply w cs))
   \<and> (\<forall>c. (\<exists>e. snd (workflow_apply w c) = Err e) \<longrightarrow> fst (workflow_apply w c) = w)
   \<and> (workflow_is_terminal (wf_state w) \<longrightarrow>
        run_state workflow_apply w cs = w \<and> run_events workflow_apply w cs = [])"
  using wf_machine.run_walk wf_machine.log_determines_phase wf_machine.run_terminal
    wf_machine.refused_frame by blast

theorem workflow_log_replays_witness:
  "wf_state (run_state workflow_apply (workflow_new 5) [CompleteIntake, Deliver]) = Routing"
  using workflow_log_replays [of "workflow_new 5" "[CompleteIntake, Deliver]" Routing]
  by (simp add: workflow_new_def workflow_step_defs List.map_filter_def)

end
