(* ===== verification/Task_Lease.thy ===== *)
theory Task_Lease
  imports Workflow
begin

text \<open>
  The task state machine of \<open>crates/workflow-core/src/task.rs\<close> and the execution leases of
  \<open>lease.rs\<close>: who may run a task, until when, and what happens to a lease that ran out.
\<close>

section \<open>Tasks (task.rs)\<close>

datatype task_state =
    TaskPending
  | TaskReady
  | TaskLeased
  | TaskRunning
  | TaskVerifying
  | TaskCompleted
  | TaskFailed
  | TaskBlocked
  | TaskCancelled

fun task_is_terminal :: "task_state \<Rightarrow> bool" where
  "task_is_terminal s \<longleftrightarrow> s = TaskCompleted \<or> s = TaskFailed \<or> s = TaskCancelled"

datatype task_command =
    DependenciesSatisfied
  | LeaseTask
  | Start
  | SubmitCandidate
  | TaskVerificationPassed bool
  | TaskVerificationFailed (retryable: bool)
  | BlockTask
  | UnblockTask
  | CancelTask

datatype task_event =
    TaskStateChanged task_state task_state
  | AttemptStarted u32

record task =
  task_state :: task_state
  task_attempts :: u32

definition task_new :: task where
  "task_new = \<lparr>task_state = TaskPending, task_attempts = 0\<rparr>"

type_synonym task_result = "task \<times> (transition_error + task_event list)"

text \<open>\<open>Ok(self.transition(to))\<close>, with the events emitted before it.\<close>

definition task_transition :: "task \<Rightarrow> task_event list \<Rightarrow> task_state \<Rightarrow> task_result" where
  "task_transition t before to =
     (t\<lparr>task_state := to\<rparr>, Ok (before @ [TaskStateChanged (task_state t) to]))"

fun task_apply :: "task \<Rightarrow> task_command \<Rightarrow> task_result" where
  "task_apply t DependenciesSatisfied =
     (if task_state t = TaskPending then task_transition t [] TaskReady
      else (t, Err InvalidTransition))"
| "task_apply t LeaseTask =
     (if task_state t = TaskReady then task_transition t [] TaskLeased
      else (t, Err InvalidTransition))"
| "task_apply t Start =
     (if task_state t = TaskLeased then
        let t1 = t\<lparr>task_attempts := saturating_add (task_attempts t) 1\<rparr>
        in task_transition t1 [AttemptStarted (task_attempts t1)] TaskRunning
      else (t, Err InvalidTransition))"
| "task_apply t SubmitCandidate =
     (if task_state t = TaskRunning then task_transition t [] TaskVerifying
      else (t, Err InvalidTransition))"
| "task_apply t (TaskVerificationPassed gates_passed) =
     (if task_state t = TaskVerifying then
        (if \<not> gates_passed then (t, Err MandatoryGateFailed)
         else task_transition t [] TaskCompleted)
      else (t, Err InvalidTransition))"
| "task_apply t (TaskVerificationFailed retry) =
     (if task_state t = TaskVerifying then
        task_transition t [] (if retry then TaskReady else TaskFailed)
      else (t, Err InvalidTransition))"
| "task_apply t BlockTask =
     (if \<not> task_is_terminal (task_state t) \<and> task_state t \<noteq> TaskBlocked then
        task_transition t [] TaskBlocked
      else (t, Err InvalidTransition))"
| "task_apply t UnblockTask =
     (if task_state t = TaskBlocked then task_transition t [] TaskReady
      else (t, Err InvalidTransition))"
| "task_apply t CancelTask =
     (if \<not> task_is_terminal (task_state t) then task_transition t [] TaskCancelled
      else (t, Err InvalidTransition))"

fun task_moves :: "task_event \<Rightarrow> (task_state \<times> task_state) option" where
  "task_moves (TaskStateChanged a b) = Some (a, b)"
| "task_moves _ = None"

text \<open>Past its lease a task has been attempted at least once.\<close>

definition task_ok :: "task \<Rightarrow> bool" where
  "task_ok t \<longleftrightarrow> (task_state t \<in> {TaskRunning, TaskVerifying, TaskCompleted, TaskFailed}
     \<longrightarrow> task_attempts t \<noteq> 0)"

lemma saturating_add_one_pos: "saturating_add (a :: u32) 1 \<noteq> 0"
proof -
  have "unat (saturating_add a 1) = min (unat a + 1) (2 ^ 32 - 1)"
    by (simp add: unat_saturating_add)
  then have "0 < unat (saturating_add a 1)" by simp
  then show ?thesis by (simp add: unat_gt_0)
qed

interpretation task_machine: command_machine task_apply task_state task_is_terminal
    task_moves task_ok
proof unfold_locales
  fix t c e
  show "snd (task_apply t c) = Err e \<Longrightarrow> fst (task_apply t c) = t"
    by (cases c) (auto simp: task_transition_def Let_def split: if_splits)
next
  fix t c vs
  show "task_ok t \<Longrightarrow> snd (task_apply t c) = Ok vs \<Longrightarrow> task_ok (fst (task_apply t c))"
    by (cases c) (auto simp: task_transition_def task_ok_def Let_def saturating_add_one_pos
        split: if_splits)
next
  fix t c
  show "task_is_terminal (task_state t) \<Longrightarrow> \<exists>e. snd (task_apply t c) = Err e"
    by (cases c) auto
next
  fix t c vs
  show "snd (task_apply t c) = Ok vs \<Longrightarrow>
    walk (task_state t) (List.map_filter task_moves vs) (task_state (fst (task_apply t c)))"
    by (cases c) (auto simp: task_transition_def Let_def List.map_filter_def split: if_splits)
qed

text \<open>The stages of one attempt, read off the accepted commands since the last start.\<close>

definition since_start :: "task_command list \<Rightarrow> task_command list" where
  "since_start acc = rev (takeWhile (\<lambda>c. c \<noteq> Start) (rev acc))"

lemma since_start_snoc [simp]:
  "since_start (acc @ [c]) = (if c = Start then [] else since_start acc @ [c])"
  by (simp add: since_start_def)

definition attempts_of :: "task_command list \<Rightarrow> nat" where
  "attempts_of acc = count_list acc Start"

lemma attempts_of_snoc [simp]:
  "attempts_of (acc @ [c]) = attempts_of acc + (if c = Start then 1 else 0)"
  by (simp add: attempts_of_def)

fun task_log_ok :: "task_state \<Rightarrow> task_command list \<Rightarrow> bool" where
  "task_log_ok TaskRunning acc \<longleftrightarrow> Start \<in> set acc"
| "task_log_ok TaskVerifying acc \<longleftrightarrow>
     Start \<in> set acc \<and> SubmitCandidate \<in> set (since_start acc)"
| "task_log_ok TaskCompleted acc \<longleftrightarrow>
     Start \<in> set acc \<and> SubmitCandidate \<in> set (butlast (since_start acc))
     \<and> since_start acc \<noteq> [] \<and> last (since_start acc) = TaskVerificationPassed True"
| "task_log_ok _ acc \<longleftrightarrow> True"

lemma task_log_ok_step:
  assumes "task_log_ok (task_state t) acc" and "snd (task_apply t c) = Inr vs"
  shows "task_log_ok (task_state (fst (task_apply t c))) (acc @ [c])"
  using assms by (cases c) (auto simp: task_transition_def Let_def split: if_splits)

lemma task_attempts_step:
  assumes "snd (task_apply t c) = Inr vs"
  shows "task_attempts (fst (task_apply t c)) =
    (if c = Start then saturating_add (task_attempts t) 1 else task_attempts t)"
  using assms by (cases c) (auto simp: task_transition_def Let_def split: if_splits)

lemma min_step: "(x :: nat) = min n m \<Longrightarrow> min (x + 1) m = min (n + 1) m"
  by simp

lemma unat_saturating_add_one:
  "unat (saturating_add (a :: u32) 1) = min (unat a + 1) (2 ^ 32 - 1)"
proof -
  have "LENGTH(32) = 32" by simp
  from unat_saturating_add [of a 1, unfolded this unat_1] show ?thesis .
qed

lemma task_attempts_count:
  "unat (task_attempts (run_state task_apply task_new cs)) =
   min (attempts_of (run_accepted task_apply task_new cs)) (2 ^ 32 - 1)"
proof (rule run_accepted_invariant
    [where P = "\<lambda>acc t. unat (task_attempts t) = min (attempts_of acc) (2 ^ 32 - 1)"])
  show "unat (task_attempts task_new) = min (attempts_of []) (2 ^ 32 - 1)"
    by (simp add: task_new_def attempts_of_def)
next
  fix acc t c vs
  assume n: "unat (task_attempts t) = min (attempts_of acc) (2 ^ 32 - 1)"
    and a: "snd (task_apply t c) = Inr vs"
  show "unat (task_attempts (fst (task_apply t c))) = min (attempts_of (acc @ [c])) (2 ^ 32 - 1)"
  proof (cases "c = Start")
    case True
    show ?thesis
      unfolding task_attempts_step [OF a] attempts_of_snoc if_P [OF True] unat_saturating_add_one
      by (rule min_step [OF n])
  next
    case False
    show ?thesis
      unfolding task_attempts_step [OF a] attempts_of_snoc if_not_P [OF False] add_0_right
      by (rule n)
  qed
next
  fix acc t c e
  assume "unat (task_attempts t) = min (attempts_of acc) (2 ^ 32 - 1)"
    and "snd (task_apply t c) = Inl e"
  then show "unat (task_attempts (fst (task_apply t c))) = min (attempts_of acc) (2 ^ 32 - 1)"
    using task_machine.refused_frame [of t c e] by simp
qed

text \<open>
  C33. A task is completed only by an attempt that was started, submitted a candidate and then,
  as its last step, was verified with the mandatory gates passed; its attempt counter is the
  number of accepted starts, saturating at the largest 32-bit value.
\<close>

theorem task_completion_requires_gates:
  assumes "t = run_state task_apply task_new cs" and "acc = run_accepted task_apply task_new cs"
  shows "unat (task_attempts t) = min (count_list acc Start) (2 ^ 32 - 1)
    \<and> (task_state t = TaskCompleted \<longrightarrow>
         Start \<in> set acc \<and> since_start acc \<noteq> []
         \<and> last (since_start acc) = TaskVerificationPassed True
         \<and> SubmitCandidate \<in> set (butlast (since_start acc)))"
proof -
  have "task_log_ok (task_state t) acc"
    unfolding assms
    by (rule run_accepted_invariant [where P = "\<lambda>acc t. task_log_ok (task_state t) acc"])
      (auto simp: task_log_ok_step task_machine.refused_frame task_new_def)
  then show ?thesis using task_attempts_count [of cs] by (auto simp: attempts_of_def assms)
qed

theorem task_completion_requires_gates_witness:
  "let cs = [DependenciesSatisfied, LeaseTask, Start, SubmitCandidate, TaskVerificationPassed False,
       TaskVerificationPassed True] in
   Start \<in> set (run_accepted task_apply task_new cs)"
proof -
  let ?cs = "[DependenciesSatisfied, LeaseTask, Start, SubmitCandidate,
    TaskVerificationPassed False, TaskVerificationPassed True]"
  have "task_state (run_state task_apply task_new ?cs) = TaskCompleted"
    by (simp add: task_new_def task_transition_def Let_def)
  with task_completion_requires_gates [OF refl refl, of ?cs]
  have "Start \<in> set (run_accepted task_apply task_new ?cs)" by blast
  then show ?thesis unfolding Let_def .
qed

section \<open>Leases (lease.rs)\<close>

datatype action_safety = Idempotent | NonIdempotent

datatype lease_reconciliation = Active | Replayable | ManualReviewRequired

datatype lease_error = Expired | InvalidDuration | TimeOverflow

record lease =
  lease_id :: lease_id
  lease_task_id :: task_id
  lease_owner :: session_id
  acquired_at_unix_millis :: i64
  expires_at_unix_millis :: i64
  lease_safety :: action_safety

text \<open>The identifier comes from a fresh UUID, which is an argument here.\<close>

definition lease_acquire ::
  "lease_id \<Rightarrow> task_id \<Rightarrow> session_id \<Rightarrow> i64 \<Rightarrow> i64 \<Rightarrow> action_safety \<Rightarrow> lease_error + lease" where
  "lease_acquire fresh task owner now duration safety =
     (if duration \<le> 0 then Err InvalidDuration
      else and_then (ok_or (checked_add_i64 now duration) TimeOverflow) (\<lambda>expires.
        Ok \<lparr>lease_id = fresh, lease_task_id = task, lease_owner = owner,
            acquired_at_unix_millis = now, expires_at_unix_millis = expires,
            lease_safety = safety\<rparr>))"

definition lease_heartbeat :: "lease \<Rightarrow> i64 \<Rightarrow> i64 \<Rightarrow> lease \<times> (lease_error + unit)" where
  "lease_heartbeat l now duration =
     (if now > expires_at_unix_millis l then (l, Err Expired)
      else if duration \<le> 0 then (l, Err InvalidDuration)
      else (case checked_add_i64 now duration of
              None \<Rightarrow> (l, Err TimeOverflow)
            | Some expires \<Rightarrow> (l\<lparr>expires_at_unix_millis := expires\<rparr>, Ok ())))"

definition lease_reconcile :: "lease \<Rightarrow> i64 \<Rightarrow> lease_reconciliation" where
  "lease_reconcile l now =
     (if now \<le> expires_at_unix_millis l then Active
      else (case lease_safety l of
              Idempotent \<Rightarrow> Replayable
            | NonIdempotent \<Rightarrow> ManualReviewRequired))"

text \<open>A holder's life: acquire, then heartbeats at increasing times, each with a duration.\<close>

fun lease_life :: "lease \<Rightarrow> (i64 \<times> i64) list \<Rightarrow> lease" where
  "lease_life l [] = l"
| "lease_life l ((now, d) # beats) = lease_life (fst (lease_heartbeat l now d)) beats"

lemma lease_heartbeat_frame:
  "lease_id (fst (lease_heartbeat l now d)) = lease_id l
   \<and> lease_owner (fst (lease_heartbeat l now d)) = lease_owner l
   \<and> lease_task_id (fst (lease_heartbeat l now d)) = lease_task_id l
   \<and> lease_safety (fst (lease_heartbeat l now d)) = lease_safety l"
  by (auto simp: lease_heartbeat_def split: option.splits)

lemma lease_heartbeat_dead:
  "expires_at_unix_millis l < now \<Longrightarrow> lease_heartbeat l now d = (l, Err Expired)"
  by (simp add: lease_heartbeat_def)

text \<open>
  A lease, once past its expiry, cannot be brought back: every later heartbeat is refused,
  and it stays replayable if its action is idempotent and in need of manual review if it is not.
  Until then, and only until then, it is active for its owner.
\<close>

theorem lease_expiry_is_final:
  assumes "expires_at_unix_millis l < now" and "\<And>t d. (t, d) \<in> set beats \<Longrightarrow> now \<le> t"
    and "now \<le> later"
  shows "lease_life l beats = l
    \<and> snd (lease_heartbeat (lease_life l beats) later d) = Err Expired
    \<and> lease_reconcile (lease_life l beats) later =
        (if lease_safety l = Idempotent then Replayable else ManualReviewRequired)"
proof -
  have "lease_life l beats = l"
    using assms(2)
  proof (induction beats)
    case (Cons b beats)
    obtain t d where b: "b = (t, d)" by (cases b)
    with Cons.prems have "now \<le> t" by auto
    with assms(1) have "lease_heartbeat l t d = (l, Err Expired)"
      by (simp add: lease_heartbeat_dead)
    with Cons b show ?case by auto
  qed simp
  with assms show ?thesis
    by (cases "lease_safety l") (auto simp: lease_heartbeat_dead lease_reconcile_def)
qed

theorem lease_expiry_is_final_witness:
  "let l = \<lparr>lease_id = Id 1, lease_task_id = Id 2, lease_owner = Id 3,
       acquired_at_unix_millis = 1000, expires_at_unix_millis = 1050,
       lease_safety = NonIdempotent\<rparr>
   in lease_reconcile (lease_life l [(1051, 100), (1060, 100)]) 1061 = ManualReviewRequired"
proof -
  define l where "l = \<lparr>lease_id = Id 1, lease_task_id = Id 2, lease_owner = Id 3,
       acquired_at_unix_millis = 1000, expires_at_unix_millis = (1050 :: i64),
       lease_safety = NonIdempotent\<rparr>"
  have "expires_at_unix_millis l < 1051" by (simp add: l_def)
  from lease_expiry_is_final [OF this, of "[(1051, 100), (1060, 100)]" 1061]
  have "lease_reconcile (lease_life l [(1051, 100), (1060, 100)]) 1061 =
    (if lease_safety l = Idempotent then Replayable else ManualReviewRequired)" by force
  then show ?thesis by (simp add: l_def Let_def del: lease_life.simps)
qed

end
