(* ===== verification/Request.thy ===== *)
theory Request
  imports Cycle_Digest "HOL-Library.Multiset"
begin

text \<open>
  The immutable request and its amendments: \<open>crates/workflow-core/src/request.rs\<close>.  An original
  text never changes; amendments are appended with a one-based sequence number; loading a record
  checks that numbering; the digest binds the whole record.
\<close>

section \<open>Data\<close>

record request_amendment =
  am_sequence :: u32
  am_text :: string
  am_received_at :: workflow_timestamp

record request_record =
  original_text :: string
  attachment_hashes :: "content_digest list"
  amendments :: "request_amendment list"

datatype request_error = InvalidAmendmentSequence | TooManyAmendments

section \<open>Operations\<close>

definition request_new :: "string \<Rightarrow> content_digest list \<Rightarrow> request_record" where
  "request_new text hashes =
     \<lparr>original_text = text, attachment_hashes = hashes, amendments = []\<rparr>"

text \<open>\<open>u32::try_from(index)?.checked_add(1)?\<close>.\<close>

definition next_sequence :: "nat \<Rightarrow> request_error + u32" where
  "next_sequence n =
     and_then (if n < 2 ^ 32 then Ok (of_nat n :: u32) else Err TooManyAmendments)
       (\<lambda>i. ok_or (checked_add i 1) TooManyAmendments)"

definition request_append_amendment ::
  "request_record \<Rightarrow> string \<Rightarrow> workflow_timestamp \<Rightarrow> request_record \<times> (request_error + unit)" where
  "request_append_amendment r text received =
     (case next_sequence (length (amendments r)) of
        Inl e \<Rightarrow> (r, Err e)
      | Inr sequence \<Rightarrow>
          (r\<lparr>amendments := amendments r @
               [\<lparr>am_sequence = sequence, am_text = text, am_received_at = received\<rparr>]\<rparr>, Ok ()))"

text \<open>\<open>TryFrom<RequestRecordUnchecked>\<close>: the amendments must be numbered one, two, three, ...\<close>

fun check_sequences :: "nat \<Rightarrow> request_amendment list \<Rightarrow> request_error + unit" where
  "check_sequences index [] = Ok ()"
| "check_sequences index (a # as) =
     and_then (next_sequence index) (\<lambda>expected.
       if am_sequence a \<noteq> expected then Err InvalidAmendmentSequence
       else check_sequences (Suc index) as)"

definition request_try_from :: "request_record \<Rightarrow> request_error + request_record" where
  "request_try_from r = and_then (check_sequences 0 (amendments r)) (\<lambda>_. Ok r)"

lemma next_sequence_Ok_iff:
  "next_sequence n = Ok s \<longleftrightarrow> n + 1 < 2 ^ 32 \<and> s = of_nat (n + 1)"
proof (cases "n < 2 ^ 32")
  case True
  then have "unat (of_nat n :: u32) = n" by (intro unat_of_nat_small) simp
  with True show ?thesis by (auto simp: next_sequence_def checked_add_def)
next
  case False
  then show ?thesis by (simp add: next_sequence_def)
qed

lemma next_sequence_Err_iff:
  "next_sequence n = Err e \<longleftrightarrow> \<not> n + 1 < 2 ^ 32 \<and> e = TooManyAmendments"
proof (cases "next_sequence n")
  case (Inl e')
  then have "e' = TooManyAmendments"
    by (auto simp: next_sequence_def and_then_Err_iff split: if_splits)
  with Inl next_sequence_Ok_iff [of n "of_nat (n + 1)"] show ?thesis by auto
next
  case (Inr s)
  with next_sequence_Ok_iff [of n s] show ?thesis by auto
qed

lemma check_sequences_Ok_iff:
  "check_sequences n as = Ok () \<longleftrightarrow>
     map am_sequence as = map of_nat [n + 1..<n + 1 + length as]
     \<and> (as \<noteq> [] \<longrightarrow> n + length as < 2 ^ 32)"
proof (induction as arbitrary: n)
  case (Cons a as)
  have "[n + 1..<n + 1 + length (a # as)] = (n + 1) # [Suc n + 1..<Suc n + 1 + length as]"
    by (simp add: upt_rec)
  with Cons [of "Suc n"] show ?case
    by (cases as) (auto simp: next_sequence_Ok_iff simp del: upt.simps)
qed simp

text \<open>A list of amendments appended in turn; a refused one leaves the record as it was.\<close>

definition append_all :: "request_record \<Rightarrow> (string \<times> workflow_timestamp) list \<Rightarrow> request_record" where
  "append_all r items = foldl (\<lambda>r (text, at). fst (request_append_amendment r text at)) r items"

definition request_ok :: "request_record \<Rightarrow> bool" where
  "request_ok r \<longleftrightarrow> check_sequences 0 (amendments r) = Ok ()"

lemma request_append_ok:
  "request_ok r \<Longrightarrow> request_ok (fst (request_append_amendment r t at))"
  by (auto simp: request_ok_def check_sequences_Ok_iff request_append_amendment_def
      next_sequence_Ok_iff next_sequence_Err_iff split: sum.splits)

lemma request_append_keeps_text:
  "original_text (fst (request_append_amendment r t at)) = original_text r
   \<and> attachment_hashes (fst (request_append_amendment r t at)) = attachment_hashes r"
  by (simp add: request_append_amendment_def split: sum.split)

lemma append_all_ok:
  "request_ok r \<Longrightarrow> request_ok (append_all r items)
     \<and> original_text (append_all r items) = original_text r
     \<and> attachment_hashes (append_all r items) = attachment_hashes r"
  unfolding append_all_def
  by (induction items arbitrary: r)
    (auto simp: request_append_ok request_append_keeps_text)

text \<open>
  Amending never touches what was asked: a record created from a text and attachments and
  amended any number of times keeps both, numbers its amendments one, two, three and so on,
  and is accepted unchanged when it is loaded again; loading accepts no other numbering.
\<close>

theorem amended_requests_reload:
  "let r = append_all (request_new text hashes) items in
     original_text r = text \<and> attachment_hashes r = hashes \<and> request_try_from r = Ok r
     \<and> map am_sequence (amendments r) = map of_nat [1..<1 + length (amendments r)]
     \<and> (request_try_from s = Ok s'
          \<longrightarrow> s' = s \<and> map am_sequence (amendments s) = map of_nat [1..<1 + length (amendments s)])"
proof -
  have "request_ok (request_new text hashes)" by (simp add: request_ok_def request_new_def)
  from append_all_ok [OF this, of items] show ?thesis
    by (auto simp: Let_def request_try_from_def request_ok_def request_new_def
        check_sequences_Ok_iff)
qed

theorem amended_requests_reload_witness:
  "request_try_from (append_all (request_new ''fix the login'' []) [(''also logout'', 10)])
     = Ok (append_all (request_new ''fix the login'' []) [(''also logout'', 10)])"
  using amended_requests_reload [of "''fix the login''" "[]" "[(''also logout'', 10)]"]
  unfolding Let_def by blast

section \<open>Digests\<close>

definition amendment_domain :: string where
  "amendment_domain = ''opencode-workflow/request-amendment/v1''"

definition request_domain :: string where
  "request_domain = ''opencode-workflow/request/v1''"

definition write_amendment ::
  "(workflow_timestamp \<Rightarrow> string) \<Rightarrow> hasher \<Rightarrow> request_amendment \<Rightarrow> hasher" where
  "write_amendment rfc3339 h a =
     write_str (write_str (write_u64 h (ucast (am_sequence a))) (am_text a))
       (rfc3339 (am_received_at a))"

definition amendment_digest ::
  "(byte list \<Rightarrow> content_digest) \<Rightarrow> (workflow_timestamp \<Rightarrow> string) \<Rightarrow> request_amendment
   \<Rightarrow> content_digest" where
  "amendment_digest sha rfc3339 a =
     sha (write_amendment rfc3339 (canonical_hasher amendment_domain) a)"

text \<open>The bytes that are hashed: attachments sorted, amendments in order.\<close>

definition request_stream :: "(workflow_timestamp \<Rightarrow> string) \<Rightarrow> request_record \<Rightarrow> hasher" where
  "request_stream rfc3339 r =
     (let h = write_str (canonical_hasher request_domain) (original_text r);
          attachments = sort (attachment_hashes r);
          h = write_u64 h (of_nat (length attachments));
          h = write_all write_digest h attachments;
          h = write_u64 h (of_nat (length (amendments r)))
      in write_all (write_amendment rfc3339) h (amendments r))"

definition request_digest ::
  "(byte list \<Rightarrow> content_digest) \<Rightarrow> (workflow_timestamp \<Rightarrow> string) \<Rightarrow> request_record
   \<Rightarrow> content_digest" where
  "request_digest sha rfc3339 r = sha (request_stream rfc3339 r)"

definition amendment_item :: "(workflow_timestamp \<Rightarrow> string) \<Rightarrow> request_amendment \<Rightarrow> byte list" where
  "amendment_item rfc3339 a = write_amendment rfc3339 [] a"

lemma write_amendment_item: "write_amendment rfc h a = h @ amendment_item rfc a"
  by (simp add: write_amendment_def amendment_item_def write_str_def write_bytes_def write_u64_def)

text \<open>Everything of the record that has a length must have one that fits in 64 bits.\<close>

definition request_fits :: "(workflow_timestamp \<Rightarrow> string) \<Rightarrow> request_record \<Rightarrow> bool" where
  "request_fits rfc3339 r \<longleftrightarrow>
     fits (original_text r) \<and> fits (attachment_hashes r) \<and> fits (amendments r)
     \<and> list_all (\<lambda>a. fits (am_text a) \<and> fits (rfc3339 (am_received_at a))) (amendments r)"

text \<open>What of an amendment is hashed: its instant as the RFC 3339 text.\<close>

definition amendment_view ::
  "(workflow_timestamp \<Rightarrow> string) \<Rightarrow> request_amendment \<Rightarrow> u32 \<times> string \<times> string" where
  "amendment_view rfc3339 a = (am_sequence a, am_text a, rfc3339 (am_received_at a))"

definition view_item :: "u32 \<times> string \<times> string \<Rightarrow> byte list" where
  "view_item v = (case v of (s, t, i) \<Rightarrow> write_str (write_str (write_u64 [] (ucast s)) t) i)"

lemma amendment_item_view: "amendment_item rfc a = view_item (amendment_view rfc a)"
  by (simp add: amendment_item_def view_item_def amendment_view_def write_amendment_def)

lemma ucast_u32_u64_inject: "(ucast (a :: u32) :: u64) = ucast b \<longleftrightarrow> a = b"
proof
  assume "(ucast a :: u64) = ucast b"
  then have "unat (ucast a :: u64) = unat (ucast b :: u64)" by simp
  moreover have "unat (ucast x :: u64) = unat x" for x :: u32
    using unsigned_less [of x, where ?'a = nat] by (simp add: unsigned_ucast_eq take_bit_nat_eq_self)
  ultimately show "a = b" by (simp add: word_eq_iff_unsigned [where ?'a = nat])
qed simp

lemma view_item_inject:
  assumes "fits t" "fits i" "fits t'" "fits i'"
    and "view_item (s, t, i) @ r = view_item (s', t', i') @ r'"
  shows "(s, t, i) = (s', t', i') \<and> r = r'"
  using assms
  by (simp add: view_item_def write_str_def write_bytes_def write_u64_def)
    (auto simp: append_eq_split ucast_u32_u64_inject fits_def of_nat_u64_inject)

lemma amendments_stream_inject:
  assumes "list_all (\<lambda>a. fits (am_text a) \<and> fits (rfc (am_received_at a))) xs"
    and "list_all (\<lambda>a. fits (am_text a) \<and> fits (rfc (am_received_at a))) ys"
    and "length xs = length ys"
    and "concat (map (amendment_item rfc) xs) = concat (map (amendment_item rfc) ys)"
  shows "map (amendment_view rfc) xs = map (amendment_view rfc) ys"
proof -
  have "concat (map view_item (map (amendment_view rfc) xs)) @ [] =
        concat (map view_item (map (amendment_view rfc) ys)) @ []"
    using assms(4) by (simp add: amendment_item_view comp_def cong: map_cong)
  then have "map (amendment_view rfc) xs = map (amendment_view rfc) ys \<and> [] = ([] :: byte list)"
    by (rule concat_inject [rotated 2])
      (use assms(1-3) in \<open>auto simp: amendment_view_def list_all_iff dest: view_item_inject [rotated 4]\<close>)
  then show ?thesis by simp
qed

text \<open>
  The bytes hashed for a request determine it: two requests with the same stream have the
  same original text, the same attachments up to their order, and the same amendments in order
  (sequence number, text and RFC 3339 instant).  So a request digest that is reused for another
  request exhibits two different inputs of SHA-256 with one output.
\<close>

theorem request_digest_binds:
  assumes "request_fits rfc r" and "request_fits rfc s"
    and "request_digest sha rfc r = request_digest sha rfc s"
  shows "(original_text r = original_text s
        \<and> mset (attachment_hashes r) = mset (attachment_hashes s)
        \<and> map (amendment_view rfc) (amendments r) = map (amendment_view rfc) (amendments s))
     \<or> (request_stream rfc r \<noteq> request_stream rfc s
        \<and> sha (request_stream rfc r) = sha (request_stream rfc s))"
proof (cases "request_stream rfc r = request_stream rfc s")
  case False
  with assms(3) show ?thesis by (simp add: request_digest_def)
next
  case True
  note fit = assms(1,2) [unfolded request_fits_def]
  let ?A = "\<lambda>r. concat (map digest_item (sort (attachment_hashes r)))"
  let ?M = "\<lambda>r. concat (map (amendment_item rfc) (amendments r))"
  have stream: "request_stream rfc r = canonical_hasher request_domain
      @ be_u64 (of_nat (length (as_bytes (original_text r)))) @ as_bytes (original_text r)
      @ be_u64 (of_nat (length (attachment_hashes r))) @ ?A r
      @ be_u64 (of_nat (length (amendments r))) @ ?M r" for r
    by (simp add: request_stream_def Let_def write_str_def write_bytes_def write_u64_def
        foldl_append_items [OF write_digest_item] foldl_append_items [OF write_amendment_item])
  from True [unfolded stream] fit have otext: "original_text r = original_text s"
    and na: "length (attachment_hashes r) = length (attachment_hashes s)"
    and rest: "?A r @ be_u64 (of_nat (length (amendments r))) @ ?M r
      = ?A s @ be_u64 (of_nat (length (amendments s))) @ ?M s"
    by (auto simp: item_bytes_inject append_eq_split fits_def of_nat_u64_inject)
  have "sort (attachment_hashes r) = sort (attachment_hashes s)
    \<and> be_u64 (of_nat (length (amendments r))) @ ?M r
      = be_u64 (of_nat (length (amendments s))) @ ?M s"
    by (rule concat_inject [OF _ _ rest]) (simp_all add: digest_item_inject na)
  then have sorted: "sort (attachment_hashes r) = sort (attachment_hashes s)"
    and len: "length (amendments r) = length (amendments s)" and m: "?M r = ?M s"
    using fit by (auto simp: append_eq_split fits_def of_nat_u64_inject)
  from sorted have "mset (attachment_hashes r) = mset (attachment_hashes s)"
    by (metis mset_sort)
  moreover have "map (amendment_view rfc) (amendments r) = map (amendment_view rfc) (amendments s)"
    by (rule amendments_stream_inject [OF _ _ len m]) (use fit in simp_all)
  ultimately show ?thesis using otext by simp
qed

text \<open>A toy hash shows that the hypotheses can hold.\<close>

theorem request_digest_binds_witness:
  "let sha = (\<lambda>_. 0); rfc = (\<lambda>_. ''1970-01-01T00:00:00Z'');
       r = request_new ''build it'' [5, 3]; s = request_new ''build it'' [3, 5] in
   original_text r = original_text s
     \<or> request_stream rfc r \<noteq> request_stream rfc s"
proof -
  let ?rfc = "\<lambda>_ :: workflow_timestamp. ''1970-01-01T00:00:00Z''"
  have "request_fits ?rfc (request_new ''build it'' [5, 3])"
    "request_fits ?rfc (request_new ''build it'' [3, 5])"
    by (simp_all add: request_fits_def request_new_def fits_def)
  from request_digest_binds [OF this, of "\<lambda>_. 0"] show ?thesis
    by (auto simp: request_digest_def Let_def)
qed

end
