(* ===== verification/Goal.thy ===== *)
theory Goal
  imports Command_Machine Request
begin

text \<open>
  Goals (\<open>crates/workflow-core/src/goal.rs\<close>): an objective pursued through a bounded number of
  continuations.  The theory models creation, amendment, the twelve commands and the checks made
  when a stored goal is loaded, and compares what the commands can produce with what loads.
\<close>

section \<open>Data\<close>

definition max_items :: nat where "max_items = 256"
definition max_objective_bytes :: nat where "max_objective_bytes = 8 * 1024 * 1024"
definition max_text_bytes :: nat where "max_text_bytes = 4096"

datatype goal_state =
    GoalDraft
  | GoalPlanning
  | GoalReady
  | GoalActive
  | GoalPaused
  | GoalBlocked
  | GoalCompleting
  | GoalCompleted
  | GoalAborted

fun goal_is_terminal :: "goal_state \<Rightarrow> bool" where
  "goal_is_terminal s \<longleftrightarrow> s = GoalCompleted \<or> s = GoalAborted"

datatype goal_command =
    StartPlanning
  | MarkReady
  | Activate
  | PauseGoal
  | ResumeGoal
  | BlockGoal
  | ResumeBlockedGoal
  | Continue
  | RequestCompletion
  | ApproveCompletion
  | RejectCompletion
  | Abort

datatype goal_event =
    GoalStateChanged goal_state goal_state
  | ContinuationRecorded u8 u8
  | ContinuationLimitReached u8

datatype goal_error =
    InvalidObjective
  | InvalidField
  | InvalidGoalTransition
  | GoalRequest request_error

record goal =
  goal_request :: request_record
  success_criteria :: "string list"
  goal_constraints :: "string list"
  non_goals :: "string list"
  goal_state :: goal_state
  max_continuations :: u8
  continuations :: u8
  goal_paused_from :: "goal_state option"
  goal_blocked_from :: "goal_state option"

section \<open>Creation, loading and amendment\<close>

definition validate_objective :: "string \<Rightarrow> goal_error + unit" where
  "validate_objective value =
     (if blank value \<or> max_objective_bytes < length value then Err InvalidObjective else Ok ())"

definition validate_items :: "string list \<Rightarrow> goal_error + unit" where
  "validate_items values =
     (if max_items < length values
         \<or> list_ex (\<lambda>v. blank v \<or> max_text_bytes < length v) values
      then Err InvalidField else Ok ())"

text \<open>\<open>Goal::new\<close>; the continuation limit is a \<open>NonZeroU8\<close>.\<close>

definition goal_new ::
  "string \<Rightarrow> string list \<Rightarrow> string list \<Rightarrow> string list \<Rightarrow> u8 \<Rightarrow> goal_error + goal" where
  "goal_new objective criteria constraints nongoals maximum =
     and_then (validate_objective objective) (\<lambda>_.
     and_then (validate_items criteria) (\<lambda>_.
     and_then (validate_items constraints) (\<lambda>_.
     and_then (validate_items nongoals) (\<lambda>_.
     Ok \<lparr>goal_request = request_new objective [], success_criteria = criteria,
         goal_constraints = constraints, non_goals = nongoals, goal_state = GoalDraft,
         max_continuations = maximum, continuations = 0, goal_paused_from = None,
         goal_blocked_from = None\<rparr>))))"

text \<open>\<open>TryFrom<UncheckedGoal>\<close>; the embedded request was checked when it was parsed.\<close>

definition goal_try_from :: "goal \<Rightarrow> goal_error + goal" where
  "goal_try_from g =
     and_then (validate_objective (original_text (goal_request g))) (\<lambda>_.
     and_then (validate_items (success_criteria g)) (\<lambda>_.
     and_then (validate_items (goal_constraints g)) (\<lambda>_.
     and_then (validate_items (non_goals g)) (\<lambda>_.
     if max_continuations g = 0 \<or> continuations g > max_continuations g then Err InvalidField
     else Ok g))))"

definition goal_append_amendment ::
  "goal \<Rightarrow> string \<Rightarrow> workflow_timestamp \<Rightarrow> goal \<times> (goal_error + unit)" where
  "goal_append_amendment g text received =
     (if goal_is_terminal (goal_state g) \<or> blank text \<or> max_objective_bytes < length text
      then (g, Err InvalidGoalTransition)
      else (case request_append_amendment (goal_request g) text received of
              (r, res) \<Rightarrow> (g\<lparr>goal_request := r\<rparr>, map_err GoalRequest res)))"

section \<open>Commands\<close>

type_synonym goal_result = "goal \<times> (goal_error + goal_event list)"

definition goal_transition :: "goal \<Rightarrow> goal_event list \<Rightarrow> goal_state \<Rightarrow> goal_result" where
  "goal_transition g before to =
     (g\<lparr>goal_state := to\<rparr>, Ok (before @ [GoalStateChanged (goal_state g) to]))"

definition continue_goal :: "goal \<Rightarrow> goal_result" where
  "continue_goal g =
     (case checked_add (continuations g) 1 of
        None \<Rightarrow> (g, Err InvalidGoalTransition)
      | Some n \<Rightarrow>
          let g1 = g\<lparr>continuations := n\<rparr>;
              events = [ContinuationRecorded n (max_continuations g1)]
          in if n \<ge> max_continuations g1
             then goal_transition (g1\<lparr>goal_blocked_from := Some (goal_state g1)\<rparr>)
                    (events @ [ContinuationLimitReached (max_continuations g1)]) GoalBlocked
             else (g1, Ok events))"

fun goal_apply :: "goal \<Rightarrow> goal_command \<Rightarrow> goal_result" where
  "goal_apply g StartPlanning =
     (if goal_state g = GoalDraft then goal_transition g [] GoalPlanning
      else (g, Err InvalidGoalTransition))"
| "goal_apply g MarkReady =
     (if goal_state g = GoalPlanning then goal_transition g [] GoalReady
      else (g, Err InvalidGoalTransition))"
| "goal_apply g Activate =
     (if goal_state g = GoalReady then goal_transition g [] GoalActive
      else (g, Err InvalidGoalTransition))"
| "goal_apply g PauseGoal =
     (if goal_state g \<in> {GoalPlanning, GoalReady, GoalActive} then
        goal_transition (g\<lparr>goal_paused_from := Some (goal_state g)\<rparr>) [] GoalPaused
      else (g, Err InvalidGoalTransition))"
| "goal_apply g ResumeGoal =
     (if goal_state g = GoalPaused then
        let g1 = g\<lparr>goal_paused_from := None\<rparr> in
        (case goal_paused_from g of
           None \<Rightarrow> (g1, Err InvalidGoalTransition)
         | Some prev \<Rightarrow> goal_transition g1 [] prev)
      else (g, Err InvalidGoalTransition))"
| "goal_apply g BlockGoal =
     (if goal_state g \<in> {GoalPlanning, GoalActive, GoalCompleting} then
        goal_transition (g\<lparr>goal_blocked_from := Some (goal_state g)\<rparr>) [] GoalBlocked
      else (g, Err InvalidGoalTransition))"
| "goal_apply g ResumeBlockedGoal =
     (if goal_state g = GoalBlocked then
        let g1 = g\<lparr>goal_blocked_from := None\<rparr> in
        (case goal_blocked_from g of
           None \<Rightarrow> (g1, Err InvalidGoalTransition)
         | Some prev \<Rightarrow> goal_transition g1 [] prev)
      else (g, Err InvalidGoalTransition))"
| "goal_apply g Continue =
     (if goal_state g = GoalActive then continue_goal g else (g, Err InvalidGoalTransition))"
| "goal_apply g RequestCompletion =
     (if goal_state g = GoalActive then goal_transition g [] GoalCompleting
      else (g, Err InvalidGoalTransition))"
| "goal_apply g ApproveCompletion =
     (if goal_state g = GoalCompleting then goal_transition g [] GoalCompleted
      else (g, Err InvalidGoalTransition))"
| "goal_apply g RejectCompletion =
     (if goal_state g = GoalCompleting then goal_transition g [] GoalActive
      else (g, Err InvalidGoalTransition))"
| "goal_apply g Abort =
     (if \<not> goal_is_terminal (goal_state g) then
        goal_transition (g\<lparr>goal_paused_from := None, goal_blocked_from := None\<rparr>) [] GoalAborted
      else (g, Err InvalidGoalTransition))"

fun goal_moves :: "goal_event \<Rightarrow> (goal_state \<times> goal_state) option" where
  "goal_moves (GoalStateChanged a b) = Some (a, b)"
| "goal_moves _ = None"

text \<open>The links of a paused or blocked goal point back to a stage it can come from.\<close>

definition goal_ok :: "goal \<Rightarrow> bool" where
  "goal_ok g \<longleftrightarrow>
     (case goal_paused_from g of
        None \<Rightarrow> goal_state g \<noteq> GoalPaused
      | Some s \<Rightarrow> goal_state g = GoalPaused \<and> s \<in> {GoalPlanning, GoalReady, GoalActive})
   \<and> (case goal_blocked_from g of
        None \<Rightarrow> goal_state g \<noteq> GoalBlocked
      | Some s \<Rightarrow> goal_state g = GoalBlocked \<and> s \<in> {GoalPlanning, GoalActive, GoalCompleting})"

lemmas goal_step_defs = goal_transition_def continue_goal_def

interpretation goal_machine: command_machine goal_apply goal_state goal_is_terminal
    goal_moves goal_ok
proof unfold_locales
  fix g c e
  show "snd (goal_apply g c) = Err e \<Longrightarrow> fst (goal_apply g c) = g"
    by (cases c) (auto simp: goal_step_defs Let_def split: if_splits option.splits)
next
  fix g c vs
  show "goal_ok g \<Longrightarrow> snd (goal_apply g c) = Ok vs \<Longrightarrow> goal_ok (fst (goal_apply g c))"
    by (cases c) (auto simp: goal_step_defs goal_ok_def Let_def split: if_splits option.splits)
next
  fix g c
  show "goal_is_terminal (goal_state g) \<Longrightarrow> \<exists>e. snd (goal_apply g c) = Err e"
    by (cases c) auto
next
  fix g c vs
  show "snd (goal_apply g c) = Ok vs \<Longrightarrow>
    walk (goal_state g) (List.map_filter goal_moves vs) (goal_state (fst (goal_apply g c)))"
    by (cases c) (auto simp: goal_step_defs Let_def List.map_filter_def
        split: if_splits option.splits)
qed

section \<open>The continuation budget\<close>

abbreviation run_goal :: "goal \<Rightarrow> goal_command list \<Rightarrow> goal" where
  "run_goal \<equiv> run_state goal_apply"

abbreviation accepted_goal :: "goal \<Rightarrow> goal_command list \<Rightarrow> goal_command list" where
  "accepted_goal \<equiv> run_accepted goal_apply"

lemma goal_new_Ok_iff:
  "goal_new objective criteria cons nongoals maximum = Ok g \<longleftrightarrow>
     validate_objective objective = Ok () \<and> validate_items criteria = Ok ()
     \<and> validate_items cons = Ok () \<and> validate_items nongoals = Ok ()
     \<and> g = \<lparr>goal_request = request_new objective [], success_criteria = criteria,
         goal_constraints = cons, non_goals = nongoals, goal_state = GoalDraft,
         max_continuations = maximum, continuations = 0, goal_paused_from = None,
         goal_blocked_from = None\<rparr>"
  by (auto simp: goal_new_def)

lemma goal_new_ok: "goal_new objective criteria cons nongoals maximum = Ok g \<Longrightarrow> goal_ok g"
  by (simp add: goal_new_Ok_iff goal_ok_def)

text \<open>No command touches what was asked for, or the limit.\<close>

lemma goal_apply_frame:
  "goal_request (fst (goal_apply g c)) = goal_request g
   \<and> success_criteria (fst (goal_apply g c)) = success_criteria g
   \<and> goal_constraints (fst (goal_apply g c)) = goal_constraints g
   \<and> non_goals (fst (goal_apply g c)) = non_goals g
   \<and> max_continuations (fst (goal_apply g c)) = max_continuations g"
  by (cases c) (auto simp: goal_step_defs Let_def split: option.splits)

lemma goal_run_frame:
  "goal_request (run_goal g cs) = goal_request g
   \<and> success_criteria (run_goal g cs) = success_criteria g
   \<and> goal_constraints (run_goal g cs) = goal_constraints g
   \<and> non_goals (run_goal g cs) = non_goals g
   \<and> max_continuations (run_goal g cs) = max_continuations g"
  by (induction cs arbitrary: g) (simp_all add: goal_apply_frame)

lemma goal_accepted_count:
  "snd (goal_apply g c) = Ok vs \<Longrightarrow>
     unat (continuations (fst (goal_apply g c))) =
       unat (continuations g) + (if c = Continue then 1 else 0)"
  by (cases c) (auto simp: goal_step_defs Let_def checked_add_Some_unat
      split: option.splits if_splits)

definition continues :: "goal_command list \<Rightarrow> nat" where
  "continues acc = length (filter (\<lambda>c. c = Continue) acc)"

lemma run_goal_count:
  "unat (continuations (run_goal g cs)) =
     unat (continuations g) + continues (accepted_goal g cs)"
proof -
  have "(\<lambda>acc h. unat (continuations h) = unat (continuations g) + continues acc)
      (accepted_goal g cs) (run_goal g cs)"
    by (rule run_accepted_invariant)
      (auto simp: continues_def goal_accepted_count goal_machine.refused_frame)
  then show ?thesis by simp
qed

text \<open>What holds as long as nobody resumes a blocked goal.\<close>

definition within_budget :: "goal_command list \<Rightarrow> goal \<Rightarrow> bool" where
  "within_budget acc g \<longleftrightarrow> ResumeBlockedGoal \<notin> set acc \<longrightarrow>
     continuations g \<le> max_continuations g
     \<and> (continuations g = max_continuations g \<longrightarrow> goal_state g \<in> {GoalBlocked, GoalAborted})"

lemma within_budget_same:
  assumes "within_budget acc g" and "snd (goal_apply g c) = Ok vs"
    and "c \<noteq> Continue"
  shows "within_budget (acc @ [c]) (fst (goal_apply g c))"
proof -
  have "continuations (fst (goal_apply g c)) = continuations g"
    using goal_accepted_count [OF assms(2)] assms(3)
    by (simp add: word_eq_iff_unsigned [where ?'a = nat])
  moreover have "c = ResumeBlockedGoal \<or> (goal_state g \<in> {GoalBlocked, GoalAborted} \<longrightarrow>
      goal_state (fst (goal_apply g c)) \<in> {GoalBlocked, GoalAborted})"
    using assms(2) by (cases c) (auto simp: goal_step_defs split: if_splits)
  ultimately show ?thesis
    using assms(1) by (auto simp: within_budget_def goal_apply_frame)
qed

lemma within_budget_continue:
  assumes "within_budget acc g" and "snd (goal_apply g Continue) = Ok vs"
  shows "within_budget (acc @ [Continue]) (fst (goal_apply g Continue))"
proof -
  from assms(2) have active: "goal_state g = GoalActive" by (simp split: if_splits)
  obtain n where n: "checked_add (continuations g) 1 = Some n"
    using assms(2) active by (auto simp: continue_goal_def split: option.splits)
  then have u: "unat n = unat (continuations g) + 1" by (simp add: checked_add_Some_unat)
  show ?thesis
  proof (cases "ResumeBlockedGoal \<in> set acc")
    case False
    with assms(1) active have "continuations g < max_continuations g"
      by (auto simp: within_budget_def)
    with u have "n \<le> max_continuations g" by (simp add: word_le_nat_alt word_less_nat_alt)
    with active n show ?thesis
      by (auto simp: within_budget_def goal_step_defs Let_def)
  qed (simp add: within_budget_def)
qed

lemma within_budget_step:
  "within_budget acc g \<Longrightarrow> snd (goal_apply g c) = Ok vs \<Longrightarrow>
     within_budget (acc @ [c]) (fst (goal_apply g c))"
  using within_budget_same within_budget_continue by (cases "c = Continue") blast+

lemma run_within_budget:
  assumes "continuations g < max_continuations g"
  shows "within_budget (accepted_goal g cs) (run_goal g cs)"
proof (rule run_accepted_invariant)
  show "within_budget [] g" using assms by (auto simp: within_budget_def)
qed (simp_all add: within_budget_step goal_machine.refused_frame)

section \<open>Properties\<close>

text \<open>
  C34. The continuation counter of a goal counts the accepted \<open>Continue\<close> commands, over any run
  from creation.  As long as no accepted command resumes a blocked goal the counter stays within
  the goal's limit, and when it meets the limit the goal is blocked or aborted.
\<close>

theorem goal_continuation_budget:
  assumes "goal_new objective criteria cons nongoals maximum = Ok g0" and "maximum \<noteq> 0"
  shows "unat (continuations (run_state goal_apply g0 cs)) =
      continues (run_accepted goal_apply g0 cs)
    \<and> (ResumeBlockedGoal \<notin> set (run_accepted goal_apply g0 cs) \<longrightarrow>
        continues (run_accepted goal_apply g0 cs) \<le> unat maximum
        \<and> (continues (run_accepted goal_apply g0 cs) = unat maximum \<longrightarrow>
            goal_state (run_state goal_apply g0 cs) \<in> {GoalBlocked, GoalAborted}))"
proof -
  from assms have g0: "continuations g0 = 0" "max_continuations g0 = maximum"
    by (simp_all add: goal_new_Ok_iff)
  with assms have "continuations g0 < max_continuations g0"
    by (simp add: word_neq_0_conv)
  from run_within_budget [OF this, of cs] run_goal_count [of g0 cs] g0 show ?thesis
    by (auto simp: within_budget_def goal_run_frame word_le_nat_alt
        word_eq_iff_unsigned [where ?'a = nat])
qed

definition sample_goal :: goal where
  "sample_goal = \<lparr>goal_request = request_new ''ship it'' [], success_criteria = [''tests pass''],
     goal_constraints = [], non_goals = [], goal_state = GoalDraft, max_continuations = 2,
     continuations = 0, goal_paused_from = None, goal_blocked_from = None\<rparr>"

lemma sample_goal_new: "goal_new ''ship it'' [''tests pass''] [] [] 2 = Ok sample_goal"
  by (simp add: sample_goal_def goal_new_Ok_iff validate_objective_def validate_items_def
      max_objective_bytes_def max_items_def max_text_bytes_def) code_simp

theorem goal_continuation_budget_witness:
  "continues (run_accepted goal_apply sample_goal
      [StartPlanning, MarkReady, Activate, Continue, Continue, Continue]) \<le> 2
   \<and> ResumeBlockedGoal \<notin> set (run_accepted goal_apply sample_goal
      [StartPlanning, MarkReady, Activate, Continue, Continue, Continue])"
proof -
  have "ResumeBlockedGoal \<notin> set (run_accepted goal_apply sample_goal
      [StartPlanning, MarkReady, Activate, Continue, Continue, Continue])"
    by code_simp
  with goal_continuation_budget [OF sample_goal_new, of
      "[StartPlanning, MarkReady, Activate, Continue, Continue, Continue]"]
  show ?thesis by simp
qed

text \<open>
  A goal made by the constructor and driven by any commands loads again from storage exactly
  when its accepted \<open>Continue\<close> commands are within the limit: the loader's check is the only thing
  that can refuse it, and it refuses with \<open>InvalidField\<close>.
\<close>

theorem goal_reloads_iff_within_limit:
  assumes "goal_new objective criteria cons nongoals maximum = Ok g0" and "maximum \<noteq> 0"
  shows "goal_try_from (run_state goal_apply g0 cs) =
     (if continues (run_accepted goal_apply g0 cs) \<le> unat maximum
      then Ok (run_state goal_apply g0 cs) else Err InvalidField)"
proof -
  let ?g = "run_state goal_apply g0 cs"
  from assms(1) have "validate_objective (original_text (goal_request ?g)) = Ok ()"
    "validate_items (success_criteria ?g) = Ok ()" "validate_items (goal_constraints ?g) = Ok ()"
    "validate_items (non_goals ?g) = Ok ()" "max_continuations ?g = maximum"
    "continuations g0 = 0"
    by (simp_all add: goal_run_frame goal_new_Ok_iff request_new_def)
  with assms(2) run_goal_count [of g0 cs] show ?thesis
    by (auto simp: goal_try_from_def word_less_nat_alt not_less)
qed

theorem goal_reloads_iff_within_limit_witness:
  "goal_try_from (run_state goal_apply sample_goal [StartPlanning, MarkReady, Activate, Continue])
     = Ok (run_state goal_apply sample_goal [StartPlanning, MarkReady, Activate, Continue])"
proof -
  have "continues (run_accepted goal_apply sample_goal
      [StartPlanning, MarkReady, Activate, Continue]) = 1"
    by code_simp
  with goal_reloads_iff_within_limit [OF sample_goal_new, of
      "[StartPlanning, MarkReady, Activate, Continue]"]
  show ?thesis by simp
qed

text \<open>
  Resuming a goal that was blocked at its limit puts it back in the active stage with the
  counter at the limit, where one more \<open>Continue\<close> is accepted and counted.  Every command of the
  run below is accepted, and the goal it leaves behind is one the loader refuses.
\<close>

theorem resumed_goal_overruns_limit:
  "goal_new ''ship it'' [''tests pass''] [] [] 2 = Ok sample_goal
   \<and> run_accepted goal_apply sample_goal
       [StartPlanning, MarkReady, Activate, Continue, Continue, ResumeBlockedGoal, Continue] =
       [StartPlanning, MarkReady, Activate, Continue, Continue, ResumeBlockedGoal, Continue]
   \<and> goal_try_from (run_state goal_apply sample_goal
       [StartPlanning, MarkReady, Activate, Continue, Continue, ResumeBlockedGoal, Continue]) =
       Err InvalidField"
proof -
  let ?cs = "[StartPlanning, MarkReady, Activate, Continue, Continue, ResumeBlockedGoal, Continue]"
  have "run_accepted goal_apply sample_goal ?cs = ?cs" by code_simp
  moreover have "goal_try_from (run_state goal_apply sample_goal ?cs) = Err InvalidField"
  proof -
    let ?g = "run_state goal_apply sample_goal ?cs"
    have "continuations ?g > max_continuations ?g" by code_simp
    moreover have "validate_objective (original_text (goal_request ?g)) = Ok ()"
      "validate_items (success_criteria ?g) = Ok ()" "validate_items (goal_constraints ?g) = Ok ()"
      "validate_items (non_goals ?g) = Ok ()"
      using sample_goal_new by (simp_all only: goal_run_frame goal_new_Ok_iff)
        (simp_all add: request_new_def sample_goal_def)
    ultimately show ?thesis by (simp only: goal_try_from_def and_then.simps) simp
  qed
  ultimately show ?thesis using sample_goal_new by simp
qed

end
