(* ===== verification/Ordered_Map.thy ===== *)
theory Ordered_Map
  imports Cycle_Prelude
begin

text \<open>
  \<open>BTreeMap\<close> and \<open>BTreeSet\<close> of the standard library.  A map is the list of its entries in key
  order, a set is the sorted list of its elements, so that iteration, \<open>pop_first\<close> and \<open>insert\<close>
  compute.  The contract the components rely on is the locale \<open>ordered_map\<close>.
\<close>

section \<open>Entries in key order\<close>

type_synonym ('k, 'v) btree_map = "('k \<times> 'v) list"

fun bt_insert :: "'k::linorder \<Rightarrow> 'v \<Rightarrow> ('k, 'v) btree_map \<Rightarrow> ('k, 'v) btree_map" where
  "bt_insert k v [] = [(k, v)]"
| "bt_insert k v ((k', v') # m) =
     (if k < k' then (k, v) # (k', v') # m
      else if k = k' then (k, v) # m
      else (k', v') # bt_insert k v m)"

definition bt_get :: "('k, 'v) btree_map \<Rightarrow> 'k \<Rightarrow> 'v option" where
  "bt_get m k = map_of m k"

abbreviation bt_keys :: "('k, 'v) btree_map \<Rightarrow> 'k list" where
  "bt_keys m \<equiv> map fst m"

abbreviation bt_values :: "('k, 'v) btree_map \<Rightarrow> 'v list" where
  "bt_values m \<equiv> map snd m"

definition bt_wf :: "('k::linorder, 'v) btree_map \<Rightarrow> bool" where
  "bt_wf m \<longleftrightarrow> sorted_wrt (<) (bt_keys m)"

lemma bt_wf_Nil [simp]: "bt_wf []"
  by (simp add: bt_wf_def)

lemma bt_get_Nil [simp]: "bt_get [] k = None"
  by (simp add: bt_get_def)

lemma bt_keys_insert: "set (bt_keys (bt_insert k v m)) = insert k (set (bt_keys m))"
  by (induction k v m rule: bt_insert.induct) auto

lemma bt_wf_insert: "bt_wf m \<Longrightarrow> bt_wf (bt_insert k v m)"
proof (induction k v m rule: bt_insert.induct)
  case (2 k v k' v' m)
  then show ?case
    using bt_keys_insert [of k v m] by (auto simp: bt_wf_def simp del: set_map)
qed (simp add: bt_wf_def)

lemma bt_set_insert_new:
  "k \<notin> set (bt_keys m) \<Longrightarrow> set (bt_insert k v m) = insert (k, v) (set m)"
  by (induction k v m rule: bt_insert.induct) auto

lemma bt_get_insert: "bt_wf m \<Longrightarrow> bt_get (bt_insert k v m) = (bt_get m)(k \<mapsto> v)"
proof (induction k v m rule: bt_insert.induct)
  case (2 k v k' v' m)
  then show ?case
    by (auto simp: bt_wf_def bt_get_def fun_eq_iff dest: map_of_SomeD)
qed (simp add: bt_get_def fun_eq_iff)

lemma bt_wf_distinct: "bt_wf m \<Longrightarrow> distinct (bt_keys m)"
  by (simp add: bt_wf_def strict_sorted_iff)

lemma bt_get_Some_iff: "bt_wf m \<Longrightarrow> bt_get m k = Some v \<longleftrightarrow> (k, v) \<in> set m"
  by (simp add: bt_get_def bt_wf_distinct)

lemma bt_get_None_iff: "bt_get m k = None \<longleftrightarrow> k \<notin> set (bt_keys m)"
  by (simp add: bt_get_def map_of_eq_None_iff)

text \<open>Assigning through \<open>get_mut\<close>: the entry keeps its place.\<close>

fun bt_set :: "'k \<Rightarrow> 'v \<Rightarrow> ('k, 'v) btree_map \<Rightarrow> ('k, 'v) btree_map" where
  "bt_set k v [] = []"
| "bt_set k v ((k', v') # m) = (if k' = k then (k, v) # m else (k', v') # bt_set k v m)"

lemma bt_keys_set [simp]: "bt_keys (bt_set k v m) = bt_keys m"
  by (induction k v m rule: bt_set.induct) auto

lemma bt_wf_set [simp]: "bt_wf (bt_set k v m) = bt_wf m"
  by (simp add: bt_wf_def)

lemma bt_get_set: "bt_get m k = Some v0 \<Longrightarrow> bt_get (bt_set k v m) = (bt_get m)(k \<mapsto> v)"
  by (induction k v m rule: bt_set.induct) (auto simp: bt_get_def fun_eq_iff split: if_splits)

lemma bt_sum_set:
  "bt_get m k = Some (Suc n) \<Longrightarrow> sum_list (bt_values m) = Suc (sum_list (bt_values (bt_set k n m)))"
  by (induction m) (auto simp: bt_get_def split: if_splits)

text \<open>\<open>BTreeMap::retain\<close> and \<open>BTreeMap::remove\<close>.\<close>

definition bt_retain :: "('k \<Rightarrow> 'v \<Rightarrow> bool) \<Rightarrow> ('k, 'v) btree_map \<Rightarrow> ('k, 'v) btree_map" where
  "bt_retain P m = filter (\<lambda>(k, v). P k v) m"

definition bt_remove :: "'k \<Rightarrow> ('k, 'v) btree_map \<Rightarrow> ('k, 'v) btree_map" where
  "bt_remove k m = filter (\<lambda>(k', _). k' \<noteq> k) m"

lemma option_eqI: "(\<And>v. x = Some v \<longleftrightarrow> y = Some v) \<Longrightarrow> x = y"
  by (cases x; cases y) auto

lemma bt_retain_wf: "bt_wf m \<Longrightarrow> bt_wf (bt_retain P m)"
  unfolding bt_wf_def bt_retain_def sorted_wrt_map by (rule sorted_wrt_filter)

lemma bt_retain_get_Some:
  "bt_wf m \<Longrightarrow> bt_get (bt_retain P m) k = Some v \<longleftrightarrow> bt_get m k = Some v \<and> P k v"
  by (simp add: bt_get_Some_iff bt_retain_wf) (auto simp: bt_retain_def)

lemma bt_insert_length: "length (bt_insert k v m) \<le> Suc (length m)"
  by (induction k v m rule: bt_insert.induct) auto

lemma bt_get_remove: "bt_get (bt_remove k m) = (bt_get m)(k := None)"
  by (induction m) (auto simp: bt_remove_def bt_get_def fun_eq_iff)

lemma bt_retain_length: "length (bt_retain P m) \<le> length m"
  by (simp add: bt_retain_def)

lemma bt_remove_length: "length (bt_remove k m) \<le> length m"
  by (simp add: bt_remove_def)

lemma bt_remove_wf: "bt_wf m \<Longrightarrow> bt_wf (bt_remove k m)"
  unfolding bt_wf_def bt_remove_def sorted_wrt_map by (rule sorted_wrt_filter)

lemma bt_remove_get: "bt_wf m \<Longrightarrow> bt_get (bt_remove k m) = (bt_get m)(k := None)"
proof (rule ext)
  fix k'
  assume m: "bt_wf m"
  have "bt_get (bt_remove k m) k' = Some v \<longleftrightarrow> bt_get m k' = Some v \<and> k' \<noteq> k" for v
    using m by (simp add: bt_get_Some_iff bt_remove_wf) (auto simp: bt_remove_def)
  then show "bt_get (bt_remove k m) k' = ((bt_get m)(k := None)) k'"
    by (intro option_eqI) auto
qed

lemma bt_remove_keys: "set (bt_keys (bt_remove k m)) = set (bt_keys m) - {k}"
  by (auto simp: bt_remove_def)

section \<open>The contract\<close>

locale ordered_map =
  fixes put :: "'k::linorder \<Rightarrow> 'v \<Rightarrow> 'm \<Rightarrow> 'm"
    and get :: "'m \<Rightarrow> 'k \<Rightarrow> 'v option"
    and entries :: "'m \<Rightarrow> ('k \<times> 'v) list"
    and nothing :: 'm
    and good :: "'m \<Rightarrow> bool"
  assumes good_nothing: "good nothing"
    and good_put: "good m \<Longrightarrow> good (put k v m)"
    and entries_nothing: "entries nothing = []"
    and get_put: "good m \<Longrightarrow> get (put k v m) = (get m)(k \<mapsto> v)"
    and entries_sorted: "good m \<Longrightarrow> sorted_wrt (<) (map fst (entries m))"
    and entries_get: "good m \<Longrightarrow> get m k = Some v \<longleftrightarrow> (k, v) \<in> set (entries m)"
begin

lemma get_nothing: "get nothing k = None"
  using entries_get [OF good_nothing, of k] by (cases "get nothing k") (auto simp: entries_nothing)

lemma keys_distinct: "good m \<Longrightarrow> distinct (map fst (entries m))"
  using entries_sorted by (simp add: strict_sorted_iff)

lemma keys_put: "good m \<Longrightarrow> fst ` set (entries (put k v m)) = insert k (fst ` set (entries m))"
proof -
  assume m: "good m"
  have "k' \<in> fst ` set (entries m') \<longleftrightarrow> get m' k' \<noteq> None" if "good m'" for m' k'
    using entries_get [OF that] by force
  with m show ?thesis by (auto simp: good_put get_put set_eq_iff)
qed

text \<open>Collecting entries one by one: the last entry of a key wins.\<close>

lemma good_collect: "good m \<Longrightarrow> good (fold (\<lambda>(k, v). put k v) xs m)"
  by (induction xs arbitrary: m) (auto simp: good_put)

lemma get_collect:
  "good m \<Longrightarrow> get (fold (\<lambda>(k, v). put k v) xs m) = get m ++ map_of (rev xs)"
  by (induction xs arbitrary: m) (auto simp: good_put get_put map_add_def fun_eq_iff
      split: option.splits)

text \<open>Two maps with the same lookups iterate alike: the order of insertion does not show.\<close>

lemma entries_ext:
  assumes "good m" and "good m'" and "get m = get m'"
  shows "entries m = entries m'"
proof -
  have s: "set (entries m) = set (entries m')"
    using assms entries_get by (auto simp: set_eq_iff) metis+
  have inj: "inj_on fst (set (entries m))"
    using keys_distinct [OF assms(1)] by (simp add: distinct_map)
  have "map fst (entries m) = map fst (entries m')"
    using s entries_sorted [OF assms(1)] entries_sorted [OF assms(2)]
    by (intro strict_sorted_equal) simp_all
  with s inj show ?thesis
    by (intro map_inj_on [where f = fst]) simp_all
qed

end

interpretation btree: ordered_map bt_insert bt_get "\<lambda>m. m" "[]" bt_wf
  by unfold_locales
    (auto simp: bt_wf_insert bt_get_insert bt_get_Some_iff bt_wf_def [symmetric])

section \<open>Indexing a list by a key\<close>

text \<open>
  The validation loops all have one shape: refuse an element that fails a check or repeats a key,
  and otherwise record it under its key.
\<close>

definition index_by :: "('a \<Rightarrow> 'k::linorder) \<Rightarrow> 'a list \<Rightarrow> ('k, 'a) btree_map \<Rightarrow> ('k, 'a) btree_map" where
  "index_by key xs m = fold (\<lambda>x. bt_insert (key x) x) xs m"

lemma index_loop_Ok_iff:
  assumes "\<And>m x m'. f m x = Ok m' \<longleftrightarrow> P x \<and> key x \<notin> set (bt_keys m) \<and> m' = bt_insert (key x) x m"
  shows "try_fold f m xs = Ok m' \<longleftrightarrow> (\<forall>x \<in> set xs. P x) \<and> distinct (map key xs)
     \<and> set (map key xs) \<inter> set (bt_keys m) = {} \<and> m' = index_by key xs m"
proof (induction xs arbitrary: m)
  case (Cons x xs)
  have "try_fold f m (x # xs) = Ok m' \<longleftrightarrow> P x \<and> key x \<notin> set (bt_keys m)
      \<and> try_fold f (bt_insert (key x) x m) xs = Ok m'"
    by (auto simp: assms simp del: set_map)
  then show ?case
    unfolding Cons bt_keys_insert by (auto simp: index_by_def simp del: set_map)
qed (auto simp: index_by_def)

lemma index_by_entries:
  "distinct (map key xs) \<Longrightarrow> set (map key xs) \<inter> set (bt_keys m) = {} \<Longrightarrow>
   set (index_by key xs m) = set m \<union> (\<lambda>x. (key x, x)) ` set xs"
proof (induction xs arbitrary: m)
  case (Cons x xs)
  then have "key x \<notin> set (bt_keys m)" by auto
  with Cons show ?case
    using bt_keys_insert [of "key x" x m] bt_set_insert_new [of "key x" m x]
    by (simp add: index_by_def del: set_map)
qed (simp add: index_by_def)

lemma index_by_wf: "bt_wf m \<Longrightarrow> bt_wf (index_by key xs m)"
  by (induction xs arbitrary: m) (auto simp: index_by_def bt_wf_insert)

lemma index_by_get:
  "distinct (map key xs) \<Longrightarrow> bt_get (index_by key xs []) k = Some x \<longleftrightarrow> x \<in> set xs \<and> key x = k"
  using index_by_entries [of key xs "[]"] bt_get_Some_iff [OF index_by_wf [OF bt_wf_Nil], of key xs k x]
  by auto

lemma index_by_get_None:
  "distinct (map key xs) \<Longrightarrow> bt_get (index_by key xs []) k = None \<longleftrightarrow> k \<notin> key ` set xs"
  using index_by_get [of key xs k] by (metis image_iff not_None_eq)

text \<open>Every key of \<open>R\<close> has a checked element, and every element has a key in \<open>R\<close>.\<close>

lemma keys_cover_iff:
  assumes "inj_on f S"
  shows "(\<forall>d \<in> S. f d \<in> R) \<and> (\<forall>r \<in> R. \<exists>d \<in> S. f d = r \<and> Q d) \<longleftrightarrow> f ` S = R \<and> (\<forall>d \<in> S. Q d)"
proof
  assume *: "(\<forall>d \<in> S. f d \<in> R) \<and> (\<forall>r \<in> R. \<exists>d \<in> S. f d = r \<and> Q d)"
  have "\<forall>d \<in> S. Q d"
  proof
    fix d
    assume d: "d \<in> S"
    with * obtain e where "e \<in> S" "f e = f d" "Q e" by metis
    with assms d show "Q d" by (metis inj_onD)
  qed
  moreover have "f ` S \<subseteq> R" using * by (simp add: image_subset_iff)
  moreover have "R \<subseteq> f ` S" using * by (metis image_eqI subsetI)
  ultimately show "f ` S = R \<and> (\<forall>d \<in> S. Q d)" by blast
qed blast

section \<open>Sets\<close>

text \<open>\<open>BTreeSet::insert\<close> and the iteration order of a set are those of a sorted list.\<close>

abbreviation bs_insert :: "'k::linorder \<Rightarrow> 'k list \<Rightarrow> 'k list" where
  "bs_insert \<equiv> insort_insert"

definition bs_wf :: "'k::linorder list \<Rightarrow> bool" where
  "bs_wf xs \<longleftrightarrow> sorted xs \<and> distinct xs"

lemma bs_wf_iff: "bs_wf xs \<longleftrightarrow> sorted_wrt (<) xs"
  by (simp add: bs_wf_def strict_sorted_iff)

lemma bs_wf_Nil [simp]: "bs_wf []"
  by (simp add: bs_wf_def)

lemma bs_wf_insert: "bs_wf xs \<Longrightarrow> bs_wf (bs_insert x xs)"
  by (simp add: bs_wf_def sorted_insort_insert distinct_insort_insert)

lemma bs_wf_tail: "bs_wf (x # xs) \<Longrightarrow> bs_wf xs"
  by (simp add: bs_wf_def)

lemma bs_insert_length: "length (bs_insert x xs) \<le> Suc (length xs)"
  by (simp add: insort_insert_key_def)

end
