(* ===== verification/Dag.thy ===== *)
theory Dag
  imports Ordered_Map Cycle_Digest
begin

text \<open>
  Task graphs (\<open>crates/workflow-core/src/dag.rs\<close>): the checks on the nodes, the search that
  decides whether two tasks are ordered by their dependencies, and the topological sort.  The
  two work-list loops are functions with their measures; the two operations that would panic on
  an inconsistent count return \<open>None\<close>, and the theory shows that they never do.
\<close>

section \<open>Data\<close>

record task_node =
  node_id :: task_id
  node_owner :: workflow_role
  node_scopes :: "string list"
  node_dependencies :: "task_id list"

datatype dag_error =
    EmptyGraph
  | DuplicateTask task_id
  | InvalidOwner task_id
  | InvalidScope task_id string
  | OverlappingScope task_id task_id string string
  | DuplicateDependency task_id task_id
  | MissingDependency task_id task_id
  | CycleInGraph

type_synonym node_map = "(task_id, task_node) btree_map"

record task_dag =
  dag_nodes :: node_map
  dag_order :: "task_id list"

section \<open>Reachability along dependencies\<close>

definition dependencies_of :: "node_map \<Rightarrow> task_id \<Rightarrow> task_id list" where
  "dependencies_of nodes t = (case bt_get nodes t of None \<Rightarrow> [] | Some n \<Rightarrow> node_dependencies n)"

definition unvisited :: "node_map \<Rightarrow> task_id set \<Rightarrow> nat" where
  "unvisited nodes visited = card (set (bt_keys nodes) - visited)"

lemma unvisited_insert:
  assumes "t \<notin> visited" and "dependencies_of nodes t \<noteq> []"
  shows "unvisited nodes (insert t visited) < unvisited nodes visited"
proof -
  have "t \<in> set (bt_keys nodes)"
    using assms(2) bt_get_None_iff [of nodes t]
    by (auto simp: dependencies_of_def simp del: set_map split: option.splits)
  with assms(1) show ?thesis
    unfolding unvisited_def by (intro psubset_card_mono) auto
qed

lemma unvisited_mono: "unvisited nodes (insert t visited) \<le> unvisited nodes visited"
  unfolding unvisited_def by (rule card_mono) auto

text \<open>The stack \<open>pending\<close> has its top first; the dependencies are pushed in their order.\<close>

function search :: "node_map \<Rightarrow> task_id \<Rightarrow> task_id list \<Rightarrow> task_id set \<Rightarrow> bool" where
  "search nodes target [] visited = False"
| "search nodes target (t # pending) visited =
     (if t \<in> visited then search nodes target pending visited
      else if target \<in> set (dependencies_of nodes t) then True
      else search nodes target (rev (dependencies_of nodes t) @ pending) (insert t visited))"
  by pat_completeness auto
termination
  by (relation "measures [\<lambda>(nodes, _, _, visited). unvisited nodes visited,
        \<lambda>(_, _, pending, _). length pending]")
    (auto dest: unvisited_insert intro: le_neq_implies_less unvisited_mono)

definition depends_on :: "node_map \<Rightarrow> task_id \<Rightarrow> task_id \<Rightarrow> bool" where
  "depends_on nodes task target = search nodes target [task] {}"

definition dependency_ordered :: "node_map \<Rightarrow> task_id \<Rightarrow> task_id \<Rightarrow> bool" where
  "dependency_ordered nodes first second \<longleftrightarrow>
     depends_on nodes first second \<or> depends_on nodes second first"

section \<open>Validation of the nodes\<close>

fun check_dependencies ::
  "node_map \<Rightarrow> task_id \<Rightarrow> task_id set \<Rightarrow> task_id list \<Rightarrow> dag_error + unit" where
  "check_dependencies nodes t seen [] = Ok ()"
| "check_dependencies nodes t seen (d # ds) =
     (if d \<in> seen then Err (DuplicateDependency t d)
      else if bt_get nodes d = None then Err (MissingDependency t d)
      else check_dependencies nodes t (insert d seen) ds)"

definition check_node :: "node_map \<Rightarrow> task_node \<Rightarrow> dag_error + unit" where
  "check_node nodes n =
     (if node_owner n \<noteq> Executor then Err (InvalidOwner (node_id n))
      else if node_scopes n = [] then Err (InvalidScope (node_id n) '''')
      else and_then (try_each (\<lambda>s. ensure (is_safe_relative s) (InvalidScope (node_id n) s))
             (node_scopes n)) (\<lambda>_.
           check_dependencies nodes (node_id n) {} (node_dependencies n)))"

definition add_scope ::
  "node_map \<Rightarrow> task_id \<Rightarrow> (task_id \<times> string) list \<Rightarrow> string \<Rightarrow>
     dag_error + (task_id \<times> string) list" where
  "add_scope nodes t scopes scope =
     and_then (try_each (\<lambda>(other_task, other_scope).
         if overlaps scope other_scope \<and> \<not> dependency_ordered nodes t other_task
         then Err (OverlappingScope other_task t other_scope scope) else Ok ()) scopes) (\<lambda>_.
     Ok (scopes @ [(t, scope)]))"

definition validate_nodes :: "node_map \<Rightarrow> dag_error + unit" where
  "validate_nodes nodes =
     and_then (try_each (check_node nodes) (bt_values nodes)) (\<lambda>_.
     and_then (try_fold (\<lambda>scopes n. try_fold (add_scope nodes (node_id n)) scopes (node_scopes n))
         [] (bt_values nodes)) (\<lambda>_.
     Ok ()))"

section \<open>The topological sort\<close>

type_synonym degrees = "(task_id, nat) btree_map"

definition add_dependents ::
  "(task_id, task_id list) btree_map \<Rightarrow> task_node \<Rightarrow> (task_id, task_id list) btree_map" where
  "add_dependents ds n =
     fold (\<lambda>d ds. bt_insert d ((case bt_get ds d of None \<Rightarrow> [] | Some l \<Rightarrow> l) @ [node_id n]) ds)
       (node_dependencies n) ds"

text \<open>The inner loop; \<open>None\<close> where the code would panic (a missing or an exhausted count).\<close>

fun release :: "task_id list \<Rightarrow> degrees \<times> task_id list \<Rightarrow> (degrees \<times> task_id list) option" where
  "release [] s = Some s"
| "release (d # ds) (degs, ready) =
     (case bt_get degs d of
        None \<Rightarrow> None
      | Some 0 \<Rightarrow> None
      | Some (Suc n) \<Rightarrow>
          release ds (bt_set d n degs, if n = 0 then bs_insert d ready else ready))"

definition work :: "degrees \<Rightarrow> task_id list \<Rightarrow> nat" where
  "work degs ready = sum_list (bt_values degs) + length ready"

lemma release_work:
  "release ds (degs, ready) = Some (degs', ready') \<Longrightarrow> work degs' ready' \<le> work degs ready"
proof (induction ds arbitrary: degs ready)
  case (Cons d ds)
  then obtain n where n: "bt_get degs d = Some (Suc n)"
    by (auto split: option.splits nat.splits)
  with Cons.prems have "release ds (bt_set d n degs,
      if n = 0 then bs_insert d ready else ready) = Some (degs', ready')"
    by simp
  from Cons.IH [OF this] bt_sum_set [OF n] bs_insert_length [of d ready] show ?case
    by (auto simp: work_def split: if_splits)
qed simp

text \<open>
  The outer loop.  Each round takes one task out of \<open>ready\<close>, and a task enters \<open>ready\<close> only when
  a count goes down, so \<open>work\<close> decreases.
\<close>

function kahn ::
  "(task_id, task_id list) btree_map \<Rightarrow> degrees \<Rightarrow> task_id list \<Rightarrow> task_id list \<Rightarrow>
     task_id list option" where
  "kahn dependents degs [] order = Some order"
| "kahn dependents degs (t # ready) order =
     (case release (case bt_get dependents t of None \<Rightarrow> [] | Some l \<Rightarrow> l) (degs, ready) of
        None \<Rightarrow> None
      | Some (degs', ready') \<Rightarrow> kahn dependents degs' ready' (order @ [t]))"
  by pat_completeness auto
termination
proof (relation "measure (\<lambda>(_, degs, ready, _). work degs ready)")
  fix dependents :: "(task_id, task_id list) btree_map" and degs t ready order x degs' ready'
  assume "release (case bt_get dependents t of None \<Rightarrow> [] | Some l \<Rightarrow> l) (degs, ready) = Some x"
    and "(degs', ready') = x"
  then have "work degs' ready' \<le> work degs ready" using release_work by blast
  also have "\<dots> < work degs (t # ready)" by (simp add: work_def)
  finally show "((dependents, degs', ready', order @ [t]), (dependents, degs, t # ready, order))
      \<in> measure (\<lambda>(_, degs, ready, _). work degs ready)" by simp
qed simp

definition initial_degrees :: "node_map \<Rightarrow> degrees" where
  "initial_degrees nodes =
     fold (\<lambda>(k, v). bt_insert k v)
       (map (\<lambda>n. (node_id n, length (node_dependencies n))) (bt_values nodes)) []"

definition dag_sort :: "node_map \<Rightarrow> (dag_error + task_id list) option" where
  "dag_sort nodes =
     (let degs = initial_degrees nodes;
          dependents = fold (\<lambda>n ds. add_dependents ds n) (bt_values nodes) [];
          ready = map fst (filter (\<lambda>(_, degree). degree = 0) degs)
      in case kahn dependents degs ready [] of
           None \<Rightarrow> None
         | Some order \<Rightarrow>
             Some (if length order = length nodes then Ok order else Err CycleInGraph))"

fun index_nodes :: "node_map \<Rightarrow> task_node list \<Rightarrow> dag_error + node_map" where
  "index_nodes m [] = Ok m"
| "index_nodes m (n # ns) =
     (if bt_get m (node_id n) \<noteq> None then Err (DuplicateTask (node_id n))
      else index_nodes (bt_insert (node_id n) n m) ns)"

definition dag_validate :: "task_node list \<Rightarrow> (dag_error + task_dag) option" where
  "dag_validate nodes =
     (if nodes = [] then Some (Err EmptyGraph)
      else case index_nodes [] nodes of
        Inl e \<Rightarrow> Some (Err e)
      | Inr indexed \<Rightarrow>
          (case validate_nodes indexed of
             Inl e \<Rightarrow> Some (Err e)
           | Inr _ \<Rightarrow>
               (case dag_sort indexed of
                  None \<Rightarrow> None
                | Some (Inl e) \<Rightarrow> Some (Err e)
                | Some (Inr order) \<Rightarrow> Some (Ok \<lparr>dag_nodes = indexed, dag_order = order\<rparr>))))"

section \<open>Queries\<close>

text \<open>The completed tasks are read through \<open>contains\<close> only, so a set models the \<open>BTreeSet\<close>.\<close>

definition ready_tasks :: "task_dag \<Rightarrow> task_id set \<Rightarrow> task_id list" where
  "ready_tasks dag completed =
     fold bs_insert (map node_id (filter (\<lambda>n. node_id n \<notin> completed
         \<and> list_all (\<lambda>d. d \<in> completed) (node_dependencies n)) (bt_values (dag_nodes dag)))) []"

definition can_complete :: "task_dag \<Rightarrow> task_id \<Rightarrow> task_id set \<Rightarrow> bool" where
  "can_complete dag t completed \<longleftrightarrow> t \<notin> completed
     \<and> (case bt_get (dag_nodes dag) t of
          None \<Rightarrow> False
        | Some n \<Rightarrow> list_all (\<lambda>d. d \<in> completed) (node_dependencies n))"

definition dag_dependencies :: "task_dag \<Rightarrow> task_id \<Rightarrow> task_id list option" where
  "dag_dependencies dag t = map_option node_dependencies (bt_get (dag_nodes dag) t)"

section \<open>The search decides reachability\<close>

definition edges :: "node_map \<Rightarrow> (task_id \<times> task_id) set" where
  "edges nodes = {(t, d). d \<in> set (dependencies_of nodes t)}"

lemma edges_iff [simp]: "(t, d) \<in> edges nodes \<longleftrightarrow> d \<in> set (dependencies_of nodes t)"
  by (simp add: edges_def)

lemma search_sound:
  "search nodes target pending visited \<Longrightarrow> \<exists>t \<in> set pending. (t, target) \<in> (edges nodes)\<^sup>+"
proof (induction nodes target pending visited rule: search.induct)
  case (2 nodes target t pending visited)
  show ?case
  proof (cases "t \<in> visited \<or> target \<in> set (dependencies_of nodes t)")
    case True
    with 2 show ?thesis by auto
  next
    case False
    with 2 obtain u where u: "u \<in> set (rev (dependencies_of nodes t) @ pending)"
      and path: "(u, target) \<in> (edges nodes)\<^sup>+"
      by auto
    show ?thesis
    proof (cases "u \<in> set pending")
      case False
      with u have "(t, u) \<in> edges nodes" by simp
      with path show ?thesis by (auto intro: trancl_into_trancl2)
    qed (use path in auto)
  qed
qed simp

lemma search_complete:
  assumes "\<not> search nodes target pending visited"
    and "\<And>v. v \<in> visited \<Longrightarrow> target \<notin> set (dependencies_of nodes v)
        \<and> set (dependencies_of nodes v) \<subseteq> visited \<union> set pending"
  shows "v \<in> visited \<union> set pending \<Longrightarrow> (v, target) \<notin> (edges nodes)\<^sup>+"
  using assms
proof (induction nodes target pending visited arbitrary: v rule: search.induct)
  case (1 nodes target visited)
  have "(a, b) \<in> (edges nodes)\<^sup>+ \<Longrightarrow> a \<in> visited \<Longrightarrow> b \<in> visited \<and> b \<noteq> target" for a b
    by (induction rule: trancl_induct) (use 1 in \<open>auto simp: subset_iff\<close>)
  with 1 show ?case by auto
next
  case (2 nodes target t pending visited)
  show ?case
  proof (cases "t \<in> visited")
    case True
    have "v \<in> visited \<union> set pending" using 2(3) True by auto
    then show ?thesis using 2(1) [OF True] 2(4,5) True by auto
  next
    case False
    then have target: "target \<notin> set (dependencies_of nodes t)" using 2(4) by auto
    have inv: "target \<notin> set (dependencies_of nodes u) \<and> set (dependencies_of nodes u)
        \<subseteq> insert t visited \<union> set (rev (dependencies_of nodes t) @ pending)"
      if "u \<in> insert t visited" for u
      using that target 2(5) [of u] by auto
    have "\<not> search nodes target (rev (dependencies_of nodes t) @ pending) (insert t visited)"
      using 2(4) False target by simp
    moreover have "v \<in> insert t visited \<union> set (rev (dependencies_of nodes t) @ pending)"
      using 2(3) by auto
    ultimately show ?thesis using 2(2) [OF False target] inv by blast
  qed
qed

lemma depends_on_iff: "depends_on nodes t target \<longleftrightarrow> (t, target) \<in> (edges nodes)\<^sup>+"
  unfolding depends_on_def
  using search_sound [of nodes target "[t]" "{}"] search_complete [of nodes target "[t]" "{}" t]
  by (auto simp del: search.simps)

section \<open>The sort\<close>

text \<open>What the validated nodes give the sort.\<close>

definition nodes_ok :: "node_map \<Rightarrow> bool" where
  "nodes_ok nodes \<longleftrightarrow> bt_wf nodes
     \<and> (\<forall>(t, n) \<in> set nodes. node_id n = t \<and> distinct (node_dependencies n)
         \<and> set (node_dependencies n) \<subseteq> set (bt_keys nodes))"

lemma nodes_ok_get:
  "nodes_ok nodes \<Longrightarrow> (t, n) \<in> set nodes \<longleftrightarrow> bt_get nodes t = Some n"
  by (simp add: nodes_ok_def bt_get_Some_iff)

lemma nodes_ok_dependencies:
  "nodes_ok nodes \<Longrightarrow> (t, n) \<in> set nodes \<Longrightarrow> dependencies_of nodes t = node_dependencies n"
  by (simp add: nodes_ok_get dependencies_of_def)

lemma nodes_ok_closed:
  assumes "nodes_ok nodes"
  shows "set (dependencies_of nodes t) \<subseteq> set (bt_keys nodes)"
proof (cases "bt_get nodes t")
  case None
  then show ?thesis by (simp add: dependencies_of_def)
next
  case (Some n)
  with assms have "(t, n) \<in> set nodes" by (simp add: nodes_ok_get)
  with assms show ?thesis by (auto simp: nodes_ok_def nodes_ok_dependencies)
qed

text \<open>Counting: the dependents of a task are the tasks that name it.\<close>

definition listed :: "('k, 'a list) btree_map \<Rightarrow> 'k \<Rightarrow> 'a list" where
  "listed m k = (case bt_get m k of None \<Rightarrow> [] | Some l \<Rightarrow> l)"

lemma add_dependents_wf: "bt_wf ds \<Longrightarrow> bt_wf (add_dependents ds n)"
proof -
  have "bt_wf ds \<Longrightarrow> bt_wf (fold (\<lambda>d ds. bt_insert d (listed ds d @ [i]) ds) xs ds)" for i xs
    by (induction xs arbitrary: ds) (simp_all add: bt_wf_insert)
  then show "bt_wf ds \<Longrightarrow> bt_wf (add_dependents ds n)"
    by (simp add: add_dependents_def listed_def)
qed

lemma listed_add_dependents:
  assumes "bt_wf ds"
  shows "listed (add_dependents ds n) d =
     listed ds d @ replicate (count_list (node_dependencies n) d) (node_id n)"
proof -
  have "listed (fold (\<lambda>d ds. bt_insert d (listed ds d @ [i]) ds) xs ds) d =
      listed ds d @ replicate (count_list xs d) i" if "bt_wf ds" for xs i ds
    using that
  proof (induction xs arbitrary: ds)
    case (Cons x xs)
    have "listed (bt_insert x (listed ds x @ [i]) ds) d =
        listed ds d @ (if x = d then [i] else [])"
      using Cons.prems by (simp add: listed_def [where m = "bt_insert x l ds" for l] bt_get_insert)
        (simp add: listed_def)
    with Cons show ?case by (simp add: bt_wf_insert replicate_append_same)
  qed simp
  with assms show ?thesis by (simp add: add_dependents_def listed_def)
qed

lemma listed_all_dependents:
  assumes "bt_wf ds"
  shows "listed (fold (\<lambda>n ds. add_dependents ds n) ns ds) d =
     listed ds d @ concat (map (\<lambda>n. replicate (count_list (node_dependencies n) d) (node_id n)) ns)"
  using assms
  by (induction ns arbitrary: ds) (simp_all add: add_dependents_wf listed_add_dependents)

lemma distinct_count_list: "distinct xs \<Longrightarrow> count_list xs x = (if x \<in> set xs then 1 else 0)"
  by (induction xs) auto

lemma dependents_spec:
  assumes "nodes_ok nodes"
  shows "listed (fold (\<lambda>n ds. add_dependents ds n) (bt_values nodes) []) d =
     filter (\<lambda>t. d \<in> set (dependencies_of nodes t)) (bt_keys nodes)"
proof -
  have "concat (map (\<lambda>n. replicate (count_list (node_dependencies n) d) (node_id n)) (map snd ms)) =
      filter (\<lambda>t. d \<in> set (dependencies_of nodes t)) (map fst ms)" if "set ms \<subseteq> set nodes" for ms
    using that
  proof (induction ms)
    case (Cons m ms)
    obtain t n where m: "m = (t, n)" by fastforce
    with Cons.prems assms have "node_id n = t" "distinct (node_dependencies n)"
      "dependencies_of nodes t = node_dependencies n"
      by (auto simp: nodes_ok_def nodes_ok_dependencies)
    with m Cons show ?case by (simp add: distinct_count_list)
  qed simp
  from this [of nodes] show ?thesis by (simp add: listed_all_dependents) (simp add: listed_def)
qed

lemma degrees_spec:
  assumes "nodes_ok nodes"
  shows "bt_wf (initial_degrees nodes)"
    and "bt_get (initial_degrees nodes) t =
      map_option (\<lambda>n. length (node_dependencies n)) (bt_get nodes t)"
proof -
  let ?f = "\<lambda>n. length (node_dependencies n)"
  let ?xs = "map (\<lambda>n. (node_id n, ?f n)) (bt_values nodes)"
  show "bt_wf (initial_degrees nodes)"
    unfolding initial_degrees_def by (rule btree.good_collect) simp
  let ?ys = "map (\<lambda>(k, n). (k, ?f n)) nodes"
  have eq: "?xs = ?ys"
    using assms by (auto simp: nodes_ok_def)
  have "map fst ?ys = bt_keys nodes" by (simp add: comp_def split_def)
  then have "distinct (map fst ?ys)" using assms by (simp only: nodes_ok_def bt_wf_distinct)
  then have "map_of (rev ?ys) = map_of ?ys"
    by (subst map_of_inject_set) (simp_all only: rev_map [symmetric] distinct_rev set_rev)
  then have "map_of (rev ?xs) = map_of ?ys" by (simp only: eq)
  also have "\<dots> = (\<lambda>t. map_option ?f (bt_get nodes t))"
    by (rule ext) (simp add: map_of_map bt_get_def)
  finally show "bt_get (initial_degrees nodes) t = map_option ?f (bt_get nodes t)"
    using btree.get_collect [of "[]" ?xs]
    by (simp add: initial_degrees_def map_add_def fun_eq_iff split: option.splits)
qed

text \<open>The inner loop lowers the count of every listed task and wakes those that reach zero.\<close>

lemma release_spec:
  assumes "distinct ds" and "\<And>v. v \<in> set ds \<Longrightarrow> \<exists>n. bt_get degs v = Some (Suc n)"
  shows "\<exists>degs' ready'. release ds (degs, ready) = Some (degs', ready')
     \<and> bt_get degs' =
        (\<lambda>v. if v \<in> set ds then map_option (\<lambda>n. n - 1) (bt_get degs v) else bt_get degs v)
     \<and> set ready' = set ready \<union> {v \<in> set ds. bt_get degs v = Some 1}
     \<and> (bs_wf ready \<longrightarrow> bs_wf ready')"
  using assms
proof (induction ds arbitrary: degs ready)
  case (Cons d ds)
  from Cons.prems(2) [of d] obtain n where n: "bt_get degs d = Some (Suc n)" by auto
  let ?degs = "bt_set d n degs" and ?ready = "if n = 0 then bs_insert d ready else ready"
  have get: "bt_get ?degs = (bt_get degs)(d \<mapsto> n)" using n by (rule bt_get_set)
  have "\<exists>m. bt_get ?degs v = Some (Suc m)" if "v \<in> set ds" for v
    using Cons.prems that get by auto
  from Cons.IH [OF _ this, of ?ready] Cons.prems(1) obtain degs' ready' where
    run: "release ds (?degs, ?ready) = Some (degs', ready')"
    and degs': "bt_get degs' =
      (\<lambda>v. if v \<in> set ds then map_option (\<lambda>n. n - 1) (bt_get ?degs v) else bt_get ?degs v)"
    and ready': "set ready' = set ?ready \<union> {v \<in> set ds. bt_get ?degs v = Some 1}"
    and wf: "bs_wf ?ready \<longrightarrow> bs_wf ready'"
    by auto
  have "release (d # ds) (degs, ready) = Some (degs', ready')" using run n by simp
  moreover have "bt_get degs' = (\<lambda>v. if v \<in> set (d # ds)
      then map_option (\<lambda>n. n - 1) (bt_get degs v) else bt_get degs v)"
    using degs' get n Cons.prems(1) by (auto simp: fun_eq_iff)
  moreover have "set ready' = set ready \<union> {v \<in> set (d # ds). bt_get degs v = Some 1}"
  proof -
    have "bt_get ?degs v = bt_get degs v" if "v \<in> set ds" for v
      using that Cons.prems(1) get by auto
    then have "{v \<in> set ds. bt_get ?degs v = Some 1} = {v \<in> set ds. bt_get degs v = Some 1}"
      by auto
    moreover have "set ?ready = set ready \<union> (if n = 0 then {d} else {})"
      by (simp add: set_insort_insert)
    moreover have "{v \<in> set (d # ds). bt_get degs v = Some 1} =
        (if n = 0 then {d} else {}) \<union> {v \<in> set ds. bt_get degs v = Some 1}"
      using n by auto
    ultimately show ?thesis unfolding ready' by (simp only: Un_assoc)
  qed
  moreover have "bs_wf ready \<longrightarrow> bs_wf ready'" using wf by (simp add: bs_wf_insert)
  ultimately show ?case by blast
qed auto

text \<open>Dependencies before dependents.\<close>

definition topological :: "node_map \<Rightarrow> task_id list \<Rightarrow> bool" where
  "topological nodes order \<longleftrightarrow>
     (\<forall>xs t ys. order = xs @ t # ys \<longrightarrow> set (dependencies_of nodes t) \<subseteq> set xs)"

lemma topological_snoc:
  "topological nodes order \<Longrightarrow> set (dependencies_of nodes t) \<subseteq> set order \<Longrightarrow>
     topological nodes (order @ [t])"
  unfolding topological_def
proof (intro allI impI)
  fix xs u ys
  assume order: "\<forall>xs t ys. order = xs @ t # ys \<longrightarrow> set (dependencies_of nodes t) \<subseteq> set xs"
    and t: "set (dependencies_of nodes t) \<subseteq> set order" and eq: "order @ [t] = xs @ u # ys"
  show "set (dependencies_of nodes u) \<subseteq> set xs"
  proof (cases ys rule: rev_cases)
    case Nil
    with eq t show ?thesis by simp
  next
    case (snoc zs z)
    with eq have "order = xs @ u # zs" by simp
    with order show ?thesis by blast
  qed
qed

lemma topological_split:
  "topological nodes (xs @ t # ys) \<Longrightarrow> set (dependencies_of nodes t) \<subseteq> set xs"
  by (simp add: topological_def)

lemma topological_member:
  assumes "topological nodes order" and "t \<in> set order"
  shows "set (dependencies_of nodes t) \<subseteq> set order"
proof -
  from split_list [OF assms(2)] obtain xs ys where "order = xs @ t # ys" by blast
  with assms(1) topological_split [of nodes xs t ys] show ?thesis by auto
qed

definition kahn_inv :: "node_map \<Rightarrow> degrees \<Rightarrow> task_id list \<Rightarrow> task_id list \<Rightarrow> bool" where
  "kahn_inv nodes degs ready order \<longleftrightarrow>
     distinct order \<and> set order \<subseteq> set (bt_keys nodes) \<and> topological nodes order \<and> bs_wf ready
     \<and> (\<forall>t \<in> set (bt_keys nodes).
          bt_get degs t = Some (card (set (dependencies_of nodes t) - set order)))
     \<and> set ready = {t \<in> set (bt_keys nodes). t \<notin> set order
          \<and> set (dependencies_of nodes t) \<subseteq> set order}"

lemma card_Diff_insert_pred:
  "finite A \<Longrightarrow> t \<in> A \<Longrightarrow> t \<notin> B \<Longrightarrow> card (A - insert t B) = card (A - B) - 1"
  by (metis Diff_iff Diff_insert card_Diff_singleton)

lemma kahn_step:
  assumes "nodes_ok nodes" and inv: "kahn_inv nodes degs (t # ready) order"
    and ds: "distinct ds" "set ds = {v \<in> set (bt_keys nodes). t \<in> set (dependencies_of nodes v)}"
  shows "\<exists>degs' ready'. release ds (degs, ready) = Some (degs', ready')
     \<and> kahn_inv nodes degs' ready' (order @ [t])"
proof -
  let ?V = "set (bt_keys nodes)" and ?D = "\<lambda>t. set (dependencies_of nodes t)"
  from inv have t: "t \<in> ?V" "t \<notin> set order" "?D t \<subseteq> set order"
    by (auto simp: kahn_inv_def simp del: set_map)
  from inv have degs: "\<And>v. v \<in> ?V \<Longrightarrow> bt_get degs v = Some (card (?D v - set order))"
    and topo: "topological nodes order"
    and ready: "insert t (set ready) = {v \<in> ?V. v \<notin> set order \<and> ?D v \<subseteq> set order}"
    and wf: "bs_wf (t # ready)"
    by (auto simp: kahn_inv_def simp del: set_map)
  have tnot: "t \<notin> set ready" using wf by (simp add: bs_wf_def)
  have pos: "0 < card (?D v - set order)" if "v \<in> set ds" for v
    using that ds(2) t(2) by (auto simp: card_gt_0_iff simp del: set_map)
  have "\<exists>n. bt_get degs v = Some (Suc n)" if "v \<in> set ds" for v
    using degs [of v] that ds(2) pos [OF that] by (auto simp: gr0_conv_Suc simp del: set_map)
  from release_spec [OF ds(1) this, of ready] obtain degs' ready' where
    run: "release ds (degs, ready) = Some (degs', ready')"
    and degs': "bt_get degs' =
      (\<lambda>v. if v \<in> set ds then map_option (\<lambda>n. n - 1) (bt_get degs v) else bt_get degs v)"
    and ready': "set ready' = set ready \<union> {v \<in> set ds. bt_get degs v = Some 1}"
    and wf': "bs_wf ready \<longrightarrow> bs_wf ready'"
    by auto
  have "bt_get degs' v = Some (card (?D v - set (order @ [t])))" if "v \<in> ?V" for v
  proof (cases "t \<in> ?D v")
    case True
    then show ?thesis using degs' degs [OF that] that ds(2) t(2)
      by (simp add: card_Diff_insert_pred del: set_map)
  next
    case False
    then show ?thesis using degs' degs [OF that] ds(2) by (simp del: set_map)
  qed
  moreover have "set ready' = {v \<in> ?V. v \<notin> set (order @ [t]) \<and> ?D v \<subseteq> set (order @ [t])}"
  proof -
    have one: "v \<in> set ds \<and> bt_get degs v = Some 1 \<longleftrightarrow>
        v \<in> ?V \<and> t \<in> ?D v \<and> ?D v \<subseteq> insert t (set order)" for v
    proof -
      have "card (?D v - set order) = 1 \<longleftrightarrow> ?D v - set order = {t}" if "t \<in> ?D v"
        using that t(2) by (auto simp: card_1_singleton_iff set_eq_iff) metis
      moreover have "?D v - set order = {t} \<longleftrightarrow> ?D v \<subseteq> insert t (set order)" if "t \<in> ?D v"
        using that t(2) by auto
      ultimately show ?thesis using ds(2) degs [of v] by (auto simp del: set_map)
    qed
    have new: "v \<notin> set order \<and> v \<noteq> t" if "t \<in> ?D v" for v
      using that topological_member [OF topo] t by blast
    have "v \<in> set ready \<longleftrightarrow> v \<in> ?V \<and> v \<notin> set order \<and> v \<noteq> t \<and> ?D v \<subseteq> set order" for v
      using ready tnot by (auto simp del: set_map)
    with one new show ?thesis unfolding ready' set_eq_iff
      by (simp del: set_map) blast
  qed
  ultimately have "kahn_inv nodes degs' ready' (order @ [t])"
    using inv t wf wf' topological_snoc [OF topo t(3)]
    by (auto simp: kahn_inv_def bs_wf_tail simp del: set_map)
  with run show ?thesis by blast
qed

lemma kahn_spec:
  assumes "nodes_ok nodes" and "kahn_inv nodes degs ready order"
    and "\<And>t. distinct (listed dependents t) \<and> set (listed dependents t) =
      {v \<in> set (bt_keys nodes). t \<in> set (dependencies_of nodes v)}"
  shows "\<exists>order' degs'. kahn dependents degs ready order = Some order'
     \<and> kahn_inv nodes degs' [] order'"
  using assms(2,3)
proof (induction dependents degs ready order rule: kahn.induct)
  case (2 dependents degs t ready order)
  from kahn_step [OF assms(1) 2(2)] 2(3) obtain degs' ready' where
    run: "release (listed dependents t) (degs, ready) = Some (degs', ready')"
    and inv: "kahn_inv nodes degs' ready' (order @ [t])"
    by metis
  from 2(1) [OF run [unfolded listed_def] refl inv 2(3)] run show ?case
    by (auto simp: listed_def)
qed auto

lemma initial_inv:
  assumes ok: "nodes_ok nodes"
  shows "kahn_inv nodes (initial_degrees nodes)
     (map fst (filter (\<lambda>(_, degree). degree = 0) (initial_degrees nodes))) []"
proof -
  let ?degs = "initial_degrees nodes"
  note wf = degrees_spec(1) [OF ok]
  have get: "bt_get ?degs t = (if t \<in> set (bt_keys nodes)
      then Some (length (dependencies_of nodes t)) else None)" for t
    using bt_get_None_iff [of nodes t]
    by (auto simp: degrees_spec(2) [OF ok] dependencies_of_def simp del: set_map
        split: option.splits)
  have dist: "distinct (dependencies_of nodes t)" for t
    using ok nodes_ok_get [OF ok, of t]
    by (auto simp: dependencies_of_def nodes_ok_def split: option.splits)
  have "t \<in> set (map fst (filter (\<lambda>(_, degree). degree = 0) ?degs)) \<longleftrightarrow>
      bt_get ?degs t = Some 0" for t
    using bt_get_Some_iff [OF wf, of t 0] by force
  then have "set (map fst (filter (\<lambda>(_, degree). degree = 0) ?degs)) =
      {t \<in> set (bt_keys nodes). t \<notin> set [] \<and> set (dependencies_of nodes t) \<subseteq> set []}"
    unfolding set_eq_iff get by (simp del: set_map)
  moreover have "bs_wf (map fst (filter (\<lambda>(_, degree). degree = 0) ?degs))"
  proof -
    have "sorted_wrt (\<lambda>a b. fst a < fst b) (filter (\<lambda>(_, degree). degree = 0) ?degs)"
      using wf by (intro sorted_wrt_filter) (simp add: bt_wf_def sorted_wrt_map)
    then show ?thesis by (simp add: bs_wf_iff sorted_wrt_map)
  qed
  moreover have "\<forall>t \<in> set (bt_keys nodes).
      bt_get ?degs t = Some (card (set (dependencies_of nodes t) - set []))"
    by (simp add: get dist distinct_card del: set_map)
  moreover have "topological nodes []" by (simp add: topological_def)
  ultimately show ?thesis unfolding kahn_inv_def by simp
qed

lemma position_split:
  "u \<notin> set xs \<Longrightarrow> length (takeWhile (\<lambda>v. v \<noteq> u) (xs @ u # ys)) = length xs"
  by (induction xs) auto

lemma topological_acyclic:
  assumes "topological nodes order" and "\<And>t d. (t, d) \<in> edges nodes \<Longrightarrow> t \<in> set order"
    and "distinct order"
  shows "acyclic (edges nodes)"
proof -
  let ?pos = "\<lambda>t. length (takeWhile (\<lambda>u. u \<noteq> t) order)"
  have "?pos d < ?pos t" if "(t, d) \<in> edges nodes" for t d
  proof -
    from split_list [OF assms(2) [OF that]] obtain xs ys where order: "order = xs @ t # ys" by blast
    then have "d \<in> set xs" using assms(1) that topological_split [of nodes xs t ys] by auto
    then obtain as bs where xs: "xs = as @ d # bs" and as: "d \<notin> set as"
      using split_list_first by metis
    have "?pos d = length as"
      using position_split [OF as, of "bs @ t # ys"] order xs by simp
    moreover have "?pos t = length xs"
      using position_split [of t xs ys] order assms(3) by simp
    ultimately show ?thesis using xs by simp
  qed
  then show ?thesis by (intro acyclicI_order [where f = ?pos]) auto
qed

lemma dependencies_source: "d \<in> set (dependencies_of nodes t) \<Longrightarrow> t \<in> set (bt_keys nodes)"
  using bt_get_None_iff [of nodes t]
  by (auto simp: dependencies_of_def simp del: set_map split: option.splits)

lemma edges_finite:
  assumes "nodes_ok nodes"
  shows "finite (edges nodes)"
proof (rule finite_subset)
  show "edges nodes \<subseteq> set (bt_keys nodes) \<times> set (bt_keys nodes)"
    using nodes_ok_closed [OF assms] dependencies_source by (auto simp: edges_def)
qed simp

lemma kahn_end:
  assumes ok: "nodes_ok nodes" and inv: "kahn_inv nodes degs [] order"
  shows "set order = set (bt_keys nodes) \<longleftrightarrow> acyclic (edges nodes)"
proof
  assume "set order = set (bt_keys nodes)"
  with inv show "acyclic (edges nodes)"
    by (intro topological_acyclic [of nodes order])
      (simp_all add: kahn_inv_def dependencies_source del: set_map)
next
  assume acyclic: "acyclic (edges nodes)"
  let ?rest = "set (bt_keys nodes) - set order"
  have wf: "wf ((edges nodes)\<inverse>)"
    using edges_finite [OF ok] acyclic by (rule finite_acyclic_wf_converse)
  show "set order = set (bt_keys nodes)"
  proof (rule ccontr)
    assume "set order \<noteq> set (bt_keys nodes)"
    with inv have "?rest \<noteq> {}" by (auto simp: kahn_inv_def)
    then obtain z where z: "z \<in> ?rest" "\<And>y. (y, z) \<in> (edges nodes)\<inverse> \<Longrightarrow> y \<notin> ?rest"
      using wf by (metis wfE_min ex_in_conv)
    then have "set (dependencies_of nodes z) \<subseteq> set order"
      using nodes_ok_closed [OF ok, of z] by auto
    with z(1) inv show False by (auto simp: kahn_inv_def)
  qed
qed

lemma dag_sort_spec:
  assumes ok: "nodes_ok nodes"
  shows "\<exists>order. topological nodes order \<and> distinct order
     \<and> (acyclic (edges nodes) \<longrightarrow> set order = set (bt_keys nodes))
     \<and> dag_sort nodes = Some (if acyclic (edges nodes) then Ok order else Err CycleInGraph)"
proof -
  let ?ds = "fold (\<lambda>n ds. add_dependents ds n) (bt_values nodes) []"
  have "distinct (bt_keys nodes)" using ok by (simp add: nodes_ok_def bt_wf_distinct)
  then obtain order degs where
    run: "kahn ?ds (initial_degrees nodes)
      (map fst (filter (\<lambda>(_, degree). degree = 0) (initial_degrees nodes))) [] = Some order"
    and inv: "kahn_inv nodes degs [] order"
    using kahn_spec [OF ok initial_inv [OF ok], of ?ds] by (auto simp: dependents_spec [OF ok])
  from inv have order: "topological nodes order" "distinct order"
    "set order \<subseteq> set (bt_keys nodes)"
    by (simp_all add: kahn_inv_def)
  have "length order = length nodes \<longleftrightarrow> set order = set (bt_keys nodes)"
    using order(2,3) \<open>distinct (bt_keys nodes)\<close>
    by (metis card_subset_eq distinct_card finite_set length_map)
  then have "dag_sort nodes = Some (if acyclic (edges nodes) then Ok order else Err CycleInGraph)"
    using run kahn_end [OF ok inv] by (simp add: dag_sort_def)
  with order kahn_end [OF ok inv] show ?thesis by blast
qed

section \<open>What validation accepts\<close>

lemma index_nodes_Ok:
  assumes "bt_wf m" and "\<forall>(t, n) \<in> set m. node_id n = t"
  shows "index_nodes m ns = Ok m' \<Longrightarrow> bt_wf m' \<and> (\<forall>(t, n) \<in> set m'. node_id n = t)
      \<and> distinct (map node_id ns) \<and> set (map node_id ns) \<inter> set (bt_keys m) = {}
      \<and> set m' = set m \<union> (\<lambda>n. (node_id n, n)) ` set ns"
  using assms
proof (induction ns arbitrary: m)
  case (Cons n ns)
  from Cons.prems(1) have new: "node_id n \<notin> set (bt_keys m)"
    and rest: "index_nodes (bt_insert (node_id n) n m) ns = Ok m'"
    using bt_get_None_iff [of m "node_id n"] by (auto split: if_splits)
  have "\<forall>(t, k) \<in> set (bt_insert (node_id n) n m). node_id k = t"
    using Cons.prems(3) new by (simp add: bt_set_insert_new del: set_map)
  note IH = Cons.IH [OF rest bt_wf_insert [OF Cons.prems(2)] this]
  from IH new show ?case
    unfolding bt_keys_insert bt_set_insert_new [OF new] by (auto simp del: set_map) 
qed simp

lemma index_nodes_total:
  assumes "bt_wf m" and "distinct (map node_id ns)"
    and "set (map node_id ns) \<inter> set (bt_keys m) = {}"
  shows "\<exists>m'. index_nodes m ns = Ok m'"
  using assms
proof (induction ns arbitrary: m)
  case (Cons n ns)
  then have "bt_get m (node_id n) = None" by (simp add: bt_get_None_iff)
  with Cons show ?case
    using bt_keys_insert [of "node_id n" n m] by (simp add: bt_wf_insert del: set_map)
qed simp

lemma check_dependencies_Ok_iff:
  "check_dependencies nodes t seen ds = Ok u \<longleftrightarrow>
     distinct ds \<and> set ds \<inter> seen = {} \<and> set ds \<subseteq> set (bt_keys nodes)"
  using bt_get_None_iff [of nodes]
  by (induction ds arbitrary: seen) (auto simp del: set_map)

lemma check_node_Ok_iff:
  "check_node nodes n = Ok u \<longleftrightarrow> node_owner n = Executor \<and> node_scopes n \<noteq> []
     \<and> (\<forall>s \<in> set (node_scopes n). is_safe_relative s) \<and> distinct (node_dependencies n)
     \<and> set (node_dependencies n) \<subseteq> set (bt_keys nodes)"
  by (auto simp: check_node_def check_dependencies_Ok_iff simp del: set_map)

definition compatible :: "node_map \<Rightarrow> task_id \<times> string \<Rightarrow> task_id \<times> string \<Rightarrow> bool" where
  "compatible nodes = (\<lambda>(u, s) (t, s').
     overlaps s' s \<longrightarrow> (t, u) \<in> (edges nodes)\<^sup>+ \<or> (u, t) \<in> (edges nodes)\<^sup>+)"

lemma add_scope_Ok_iff:
  "add_scope nodes t acc s = Ok r \<longleftrightarrow>
     r = acc @ [(t, s)] \<and> (\<forall>p \<in> set acc. compatible nodes p (t, s))"
  by (fastforce simp: add_scope_def compatible_def dependency_ordered_def depends_on_iff)

lemma add_scopes_Ok_iff:
  "sorted_wrt (compatible nodes) acc \<Longrightarrow>
   try_fold (add_scope nodes t) acc ss = Ok r \<longleftrightarrow>
     r = acc @ map (Pair t) ss \<and> sorted_wrt (compatible nodes) r"
proof (induction ss arbitrary: acc)
  case (Cons s ss)
  show ?case
  proof (cases "\<forall>p \<in> set acc. compatible nodes p (t, s)")
    case True
    then have "sorted_wrt (compatible nodes) (acc @ [(t, s)])"
      using Cons.prems by (simp add: sorted_wrt_append)
    from Cons.IH [OF this] True show ?thesis by (auto simp: add_scope_Ok_iff)
  next
    case False
    then show ?thesis by (auto simp: add_scope_Ok_iff sorted_wrt_append)
  qed
qed auto

definition scope_list :: "task_node list \<Rightarrow> (task_id \<times> string) list" where
  "scope_list ns = concat (map (\<lambda>n. map (Pair (node_id n)) (node_scopes n)) ns)"

lemma scope_loop_Ok_iff:
  "sorted_wrt (compatible nodes) acc \<Longrightarrow>
   try_fold (\<lambda>acc n. try_fold (add_scope nodes (node_id n)) acc (node_scopes n)) acc ns = Ok r \<longleftrightarrow>
     r = acc @ scope_list ns \<and> sorted_wrt (compatible nodes) r"
proof (induction ns arbitrary: acc)
  case (Cons n ns)
  let ?acc = "acc @ map (Pair (node_id n)) (node_scopes n)"
  show ?case
  proof (cases "sorted_wrt (compatible nodes) ?acc")
    case True
    from Cons.IH [OF True] True show ?thesis
      by (auto simp: add_scopes_Ok_iff [OF Cons.prems] scope_list_def)
  next
    case False
    then show ?thesis
      by (auto simp: add_scopes_Ok_iff [OF Cons.prems] scope_list_def sorted_wrt_append)
  qed
qed (auto simp: scope_list_def)

lemma validate_nodes_Ok_iff:
  "validate_nodes nodes = Ok u \<longleftrightarrow>
     (\<forall>n \<in> set (bt_values nodes). check_node nodes n = Ok ())
     \<and> sorted_wrt (compatible nodes) (scope_list (bt_values nodes))"
  by (auto simp: validate_nodes_def scope_loop_Ok_iff)

text \<open>
  The same conditions stated on the list of nodes that was handed in, without maps or searches.
\<close>

definition graph_edges :: "task_node list \<Rightarrow> (task_id \<times> task_id) set" where
  "graph_edges ns = {(node_id n, d) | n d. n \<in> set ns \<and> d \<in> set (node_dependencies n)}"

definition ordered_in :: "task_node list \<Rightarrow> task_id \<Rightarrow> task_id \<Rightarrow> bool" where
  "ordered_in ns t u \<longleftrightarrow> (t, u) \<in> (graph_edges ns)\<^sup>+ \<or> (u, t) \<in> (graph_edges ns)\<^sup>+"

definition node_checked :: "task_id set \<Rightarrow> task_node \<Rightarrow> bool" where
  "node_checked ids n \<longleftrightarrow> node_owner n = Executor \<and> node_scopes n \<noteq> []
     \<and> (\<forall>s \<in> set (node_scopes n). is_safe_relative s) \<and> distinct (node_dependencies n)
     \<and> set (node_dependencies n) \<subseteq> ids"

definition scopes_apart :: "task_node \<Rightarrow> bool" where
  "scopes_apart n \<longleftrightarrow> sorted_wrt (\<lambda>s s'. \<not> overlaps s' s) (node_scopes n)"

definition separated :: "task_node list \<Rightarrow> task_node \<Rightarrow> task_node \<Rightarrow> bool" where
  "separated ns m n \<longleftrightarrow> (\<forall>s \<in> set (node_scopes m). \<forall>s' \<in> set (node_scopes n).
     overlaps s s' \<longrightarrow> ordered_in ns (node_id m) (node_id n))"

definition graph_ok :: "task_node list \<Rightarrow> bool" where
  "graph_ok ns \<longleftrightarrow> ns \<noteq> [] \<and> distinct (map node_id ns)
     \<and> (\<forall>n \<in> set ns. node_checked (node_id ` set ns) n) \<and> (\<forall>n \<in> set ns. scopes_apart n)
     \<and> (\<forall>m \<in> set ns. \<forall>n \<in> set ns. m \<noteq> n \<longrightarrow> separated ns m n)
     \<and> acyclic (graph_edges ns)"

lemma compatible_sym: "compatible nodes p q = compatible nodes q p"
  by (auto simp: compatible_def overlaps_sym split: prod.splits)

lemma sorted_wrt_concat_symmetric:
  assumes "distinct ns" and "\<And>x y. P x y = P y x"
  shows "sorted_wrt P (concat (map f ns)) \<longleftrightarrow> (\<forall>n \<in> set ns. sorted_wrt P (f n))
     \<and> (\<forall>m \<in> set ns. \<forall>n \<in> set ns. m \<noteq> n \<longrightarrow> (\<forall>x \<in> set (f m). \<forall>y \<in> set (f n). P x y))"
  using assms(1)
proof (induction ns)
  case (Cons n ns)
  define R where "R m n \<longleftrightarrow> (\<forall>x \<in> set (f m). \<forall>y \<in> set (f n). P x y)" for m n
  have sym: "R m k = R k m" for m k using assms(2) by (auto simp: R_def)
  have "(\<forall>x \<in> set (f n). \<forall>y \<in> set (concat (map f ns)). P x y) \<longleftrightarrow> (\<forall>m \<in> set ns. R n m)"
    by (auto simp: R_def)
  moreover have "(\<forall>m \<in> set (n # ns). \<forall>k \<in> set (n # ns). m \<noteq> k \<longrightarrow> R m k) \<longleftrightarrow>
      (\<forall>m \<in> set ns. R n m) \<and> (\<forall>m \<in> set ns. \<forall>k \<in> set ns. m \<noteq> k \<longrightarrow> R m k)"
    using Cons.prems sym by auto
  moreover note Cons.IH [OF distinct.simps(2) [THEN iffD1, OF Cons.prems, THEN conjunct2],
      folded R_def]
  ultimately show ?case unfolding R_def [symmetric]
    by (simp only: list.map concat.simps sorted_wrt_append list.set ball_simps) blast
qed simp

lemma indexed_edges:
  assumes "bt_wf m" and "set m = (\<lambda>n. (node_id n, n)) ` set ns"
  shows "edges m = graph_edges ns"
proof -
  have "bt_get m t = Some n \<longleftrightarrow> n \<in> set ns \<and> node_id n = t" for t n
    using bt_get_Some_iff [OF assms(1), of t n] assms(2) by auto
  then show ?thesis
    by (auto simp: edges_def graph_edges_def dependencies_of_def split: option.splits)
      (metis option.exhaust)+
qed

lemma indexed_valid_iff:
  assumes wf: "bt_wf m" and m: "set m = (\<lambda>n. (node_id n, n)) ` set ns"
    and dist: "distinct (map node_id ns)" and ne: "ns \<noteq> []"
  shows "validate_nodes m = Ok () \<and> acyclic (edges m) \<longleftrightarrow> graph_ok ns"
proof -
  have vals: "set (bt_values m) = set ns" and keys: "set (bt_keys m) = node_id ` set ns"
    using m by force+
  have "distinct (bt_values m)"
  proof -
    have "map node_id (bt_values m) = bt_keys m" using m by auto
    with bt_wf_distinct [OF wf] show ?thesis by (metis distinct_map)
  qed
  note pairs = sorted_wrt_concat_symmetric [OF this, of "compatible m"
      "\<lambda>n. map (Pair (node_id n)) (node_scopes n)", OF compatible_sym]
  have compat: "compatible m (t, s) (u, s') \<longleftrightarrow> (overlaps s s' \<longrightarrow> ordered_in ns t u)" for t u s s'
    by (auto simp: compatible_def ordered_in_def indexed_edges [OF wf m] overlaps_sym)
  have within: "sorted_wrt (compatible m) (map (Pair (node_id n)) (node_scopes n)) \<longleftrightarrow>
      scopes_apart n"
    if "acyclic (graph_edges ns)" for n
    using that
    by (simp add: scopes_apart_def sorted_wrt_map compat ordered_in_def acyclic_def overlaps_sym)
  show ?thesis
  proof (cases "acyclic (graph_edges ns)")
    case True
    have "sorted_wrt (compatible m) (scope_list (bt_values m)) \<longleftrightarrow>
        (\<forall>n \<in> set ns. scopes_apart n) \<and> (\<forall>k \<in> set ns. \<forall>n \<in> set ns. k \<noteq> n \<longrightarrow> separated ns k n)"
      unfolding scope_list_def pairs vals within [OF True] separated_def by (simp add: compat)
    moreover have "(\<forall>n \<in> set (bt_values m). check_node m n = Ok ()) \<longleftrightarrow>
        (\<forall>n \<in> set ns. node_checked (node_id ` set ns) n)"
      unfolding vals check_node_Ok_iff keys node_checked_def ..
    ultimately show ?thesis
      using ne dist True
      by (simp only: validate_nodes_Ok_iff indexed_edges [OF wf m] graph_ok_def) simp
  next
    case False
    then show ?thesis by (simp add: indexed_edges [OF wf m] graph_ok_def)
  qed
qed

lemma index_spec:
  assumes "distinct (map node_id ns)"
  obtains m where "index_nodes [] ns = Ok m" "bt_wf m" "set m = (\<lambda>n. (node_id n, n)) ` set ns"
proof -
  from index_nodes_total [OF bt_wf_Nil assms] obtain m where m: "index_nodes [] ns = Ok m" by auto
  from index_nodes_Ok [OF bt_wf_Nil _ m] have "bt_wf m" "set m = (\<lambda>n. (node_id n, n)) ` set ns"
    by simp_all
  with m that show thesis by blast
qed

lemma indexed_nodes_ok:
  assumes "bt_wf m" and "set m = (\<lambda>n. (node_id n, n)) ` set ns" and "validate_nodes m = Ok u"
  shows "nodes_ok m"
  using assms by (auto simp: nodes_ok_def validate_nodes_Ok_iff check_node_Ok_iff)

lemma dag_validate_cases:
  "dag_validate ns \<noteq> None \<and> (\<forall>dag. dag_validate ns = Some (Ok dag) \<longrightarrow>
     bt_wf (dag_nodes dag) \<and> set (dag_nodes dag) = (\<lambda>n. (node_id n, n)) ` set ns \<and> graph_ok ns
     \<and> distinct (dag_order dag) \<and> set (dag_order dag) = node_id ` set ns
     \<and> topological (dag_nodes dag) (dag_order dag))
   \<and> (graph_ok ns \<longrightarrow> (\<exists>dag. dag_validate ns = Some (Ok dag)))"
proof (cases "ns = [] \<or> \<not> distinct (map node_id ns)")
  case True
  have "ns = [] \<or> (\<exists>e. index_nodes [] ns = Err e)"
  proof (cases "index_nodes [] ns")
    case (Inr m)
    from index_nodes_Ok [OF bt_wf_Nil _ Inr] True show ?thesis by simp
  qed simp
  with True show ?thesis by (auto simp: dag_validate_def graph_ok_def)
next
  case False
  then obtain m where m: "index_nodes [] ns = Ok m" "bt_wf m"
      "set m = (\<lambda>n. (node_id n, n)) ` set ns"
    by (metis index_spec)
  from False have valid: "validate_nodes m = Ok () \<and> acyclic (edges m) \<longleftrightarrow> graph_ok ns"
    by (intro indexed_valid_iff m) auto
  show ?thesis
  proof (cases "validate_nodes m")
    case (Inl e)
    with valid False m show ?thesis by (auto simp: dag_validate_def)
  next
    case (Inr u)
    from dag_sort_spec [OF indexed_nodes_ok [OF m(2,3) Inr]] obtain order where
      order: "topological m order" "distinct order" "acyclic (edges m) \<Longrightarrow> set order = set (bt_keys m)"
        "dag_sort m = Some (if acyclic (edges m) then Ok order else Err CycleInGraph)"
      by blast
    have keys: "set (bt_keys m) = node_id ` set ns" using m(3) by force
    show ?thesis
    proof (cases "acyclic (edges m)")
      case True
      with order Inr False m have "dag_validate ns = Some (Ok \<lparr>dag_nodes = m, dag_order = order\<rparr>)"
        by (simp add: dag_validate_def)
      with True order Inr valid m keys show ?thesis by simp
    next
      case False
      with order Inr \<open>\<not> (ns = [] \<or> \<not> distinct (map node_id ns))\<close> m
      have "dag_validate ns = Some (Err CycleInGraph)" by (simp add: dag_validate_def)
      with False valid show ?thesis by simp
    qed
  qed
qed

lemmas dag_validated = dag_validate_cases [THEN conjunct2, THEN conjunct1, rule_format]

lemma dag_order_set: "dag_validate ns = Some (Ok dag) \<Longrightarrow> set (dag_order dag) = node_id ` set ns"
  and dag_graph_ok: "dag_validate ns = Some (Ok dag) \<Longrightarrow> graph_ok ns"
  and dag_topological: "dag_validate ns = Some (Ok dag) \<Longrightarrow>
    topological (dag_nodes dag) (dag_order dag)"
  by (drule dag_validated, elim conjE, assumption)+

lemma dag_values_set:
  assumes "dag_validate ns = Some (Ok dag)"
  shows "set (bt_values (dag_nodes dag)) = set ns"
proof -
  have "set (dag_nodes dag) = (\<lambda>n. (node_id n, n)) ` set ns"
    using dag_validated [OF assms] by (elim conjE)
  then show ?thesis by (simp add: image_image)
qed

text \<open>Reading a validated graph through the list it came from.\<close>

lemma dag_get:
  assumes "dag_validate ns = Some (Ok dag)"
  shows "bt_get (dag_nodes dag) t = Some n \<longleftrightarrow> n \<in> set ns \<and> node_id n = t"
  using dag_validated [OF assms] by (auto simp: bt_get_Some_iff)

lemma dag_dependencies_of:
  assumes "dag_validate ns = Some (Ok dag)" and "n \<in> set ns"
  shows "dependencies_of (dag_nodes dag) (node_id n) = node_dependencies n"
  using dag_get [OF assms(1), of "node_id n" n] assms(2) by (simp add: dependencies_of_def)

lemma fold_bs_insert: "bs_wf acc \<Longrightarrow> bs_wf (fold bs_insert xs acc)
    \<and> set (fold bs_insert xs acc) = set xs \<union> set acc"
  by (induction xs arbitrary: acc) (auto simp: bs_wf_insert set_insort_insert)

lemma ready_tasks_iff:
  assumes "dag_validate ns = Some (Ok dag)"
  shows "t \<in> set (ready_tasks dag completed) \<longleftrightarrow>
     (\<exists>n \<in> set ns. node_id n = t \<and> t \<notin> completed \<and> set (node_dependencies n) \<subseteq> completed)"
  using dag_values_set [OF assms]
  by (auto simp: ready_tasks_def fold_bs_insert list_all_iff)

section \<open>Properties\<close>

definition sample_graph :: "task_node list" where
  "sample_graph =
     [\<lparr>node_id = Id 3, node_owner = Executor, node_scopes = [''docs''], node_dependencies = [Id 1]\<rparr>,
      \<lparr>node_id = Id 1, node_owner = Executor, node_scopes = [''src/a''], node_dependencies = []\<rparr>,
      \<lparr>node_id = Id 2, node_owner = Executor, node_scopes = [''src/a/b'', ''tests''],
        node_dependencies = [Id 1]\<rparr>]"

definition sample_dag :: task_dag where
  "sample_dag = (case dag_validate sample_graph of Some (Inr dag) \<Rightarrow> dag
     | _ \<Rightarrow> \<lparr>dag_nodes = [], dag_order = []\<rparr>)"

lemma sample_dag_valid: "dag_validate sample_graph = Some (Ok sample_dag)"
  by code_simp


text \<open>
  C15. Validation never panics (every count the sort decrements is present and positive), and it
  accepts exactly the lists of tasks that are non-empty, have distinct ids, belong to the
  executor, write to safe pairwise disjoint scopes, depend on distinct listed tasks, form an
  acyclic graph, and overlap in scope only where one task depends on the other, directly or not.
\<close>

theorem dag_validate_accepts_iff:
  "dag_validate ns \<noteq> None \<and> ((\<exists>dag. dag_validate ns = Some (Ok dag)) \<longleftrightarrow> graph_ok ns)"
  using dag_validate_cases [of ns] by blast

text \<open>
  C31. The stored order of a validated graph lists every task once, and every dependency of a
  task before the task.
\<close>

theorem dag_order_topological:
  assumes "dag_validate ns = Some (Ok dag)"
  shows "distinct (dag_order dag) \<and> set (dag_order dag) = node_id ` set ns
     \<and> (\<forall>n xs ys. n \<in> set ns \<and> dag_order dag = xs @ node_id n # ys \<longrightarrow>
          set (node_dependencies n) \<subseteq> set xs)"
proof -
  have "set (node_dependencies n) \<subseteq> set xs"
    if "n \<in> set ns" "dag_order dag = xs @ node_id n # ys" for n xs ys
    using topological_split [of "dag_nodes dag" xs "node_id n" ys] that
      dag_validated [OF assms] dag_dependencies_of [OF assms that(1)] by simp
  with dag_validated [OF assms] show ?thesis by blast
qed

theorem dag_order_topological_witness:
  "dag_validate sample_graph = Some (Ok sample_dag) \<and> distinct (dag_order sample_dag)
   \<and> set (dag_order sample_dag) = node_id ` set sample_graph"
  using dag_order_topological [OF sample_dag_valid] sample_dag_valid by blast

text \<open>
  C16. Two different tasks that are ready at the same time never write to overlapping scopes, as
  long as the completed tasks had their own dependencies completed.
\<close>

theorem ready_tasks_write_apart:
  assumes "dag_validate ns = Some (Ok dag)"
    and "\<And>n. n \<in> set ns \<Longrightarrow> node_id n \<in> completed \<Longrightarrow> set (node_dependencies n) \<subseteq> completed"
    and "m \<in> set ns" "n \<in> set ns" "node_id m \<noteq> node_id n"
    and "node_id m \<in> set (ready_tasks dag completed)"
    and "node_id n \<in> set (ready_tasks dag completed)"
    and "s \<in> set (node_scopes m)" "s' \<in> set (node_scopes n)"
  shows "\<not> overlaps s s'"
proof
  assume "overlaps s s'"
  from dag_validated [OF assms(1)] have ok: "graph_ok ns" by simp
  have done_below: "u \<in> completed"
    if "(t, u) \<in> (graph_edges ns)\<^sup>+" "t \<in> set (ready_tasks dag completed)" for t u
    using that
  proof (induction rule: trancl_induct)
    case (base u)
    with ok show ?case
      by (auto simp: graph_edges_def ready_tasks_iff [OF assms(1)] graph_ok_def distinct_map
          dest!: inj_onD)
  next
    case (step u v)
    with assms(2) show ?case by (auto simp: graph_edges_def)
  qed
  have not_done: "t \<notin> completed" if "t \<in> set (ready_tasks dag completed)" for t
    using that by (auto simp: ready_tasks_iff [OF assms(1)])
  from ok assms(3-5) have "separated ns m n" by (auto simp: graph_ok_def)
  with \<open>overlaps s s'\<close> assms(8,9) have "ordered_in ns (node_id m) (node_id n)"
    by (auto simp: separated_def)
  with done_below not_done assms(6,7) show False by (auto simp: ordered_in_def)
qed

theorem ready_tasks_write_apart_witness:
  "ready_tasks sample_dag {Id 1} = [Id 2, Id 3] \<and> \<not> overlaps ''docs'' ''src/a/b''"
proof -
  have ready: "ready_tasks sample_dag {Id 1} = [Id 2, Id 3]" by code_simp
  have "\<not> overlaps ''docs'' ''src/a/b''"
    by (rule ready_tasks_write_apart [OF sample_dag_valid, where completed = "{Id 1}"
          and m = "sample_graph ! 0" and n = "sample_graph ! 2"])
      (use ready in \<open>auto simp: sample_graph_def\<close>)
  with ready show ?thesis by simp
qed

text \<open>
  C32. The scheduler never starves: while some task of a validated graph is not completed, the
  sorted list of ready tasks is not empty, and it holds exactly the tasks that may complete.
\<close>

theorem ready_tasks_progress:
  assumes "dag_validate ns = Some (Ok dag)"
  shows "bs_wf (ready_tasks dag completed)
     \<and> (\<forall>t. t \<in> set (ready_tasks dag completed) \<longleftrightarrow> can_complete dag t completed)
     \<and> (\<not> node_id ` set ns \<subseteq> completed \<longrightarrow> ready_tasks dag completed \<noteq> [])"
proof (intro conjI allI impI)
  show "bs_wf (ready_tasks dag completed)" by (simp add: ready_tasks_def fold_bs_insert)
next
  fix t
  show "t \<in> set (ready_tasks dag completed) \<longleftrightarrow> can_complete dag t completed"
  proof (cases "bt_get (dag_nodes dag) t")
    case None
    with dag_get [OF assms, of t] show ?thesis
      by (auto simp: ready_tasks_iff [OF assms] can_complete_def)
  next
    case (Some n)
    then have "k \<in> set ns \<and> node_id k = t \<longleftrightarrow> k = n" for k
      using dag_get [OF assms, of t k] by auto
    then have "t \<in> set (ready_tasks dag completed) \<longleftrightarrow>
        t \<notin> completed \<and> set (node_dependencies n) \<subseteq> completed"
      unfolding ready_tasks_iff [OF assms] by metis
    with Some show ?thesis by (auto simp: can_complete_def list_all_iff)
  qed
next
  assume "\<not> node_id ` set ns \<subseteq> completed"
  then have "\<exists>t \<in> set (dag_order dag). t \<notin> completed"
    unfolding dag_order_set [OF assms] by blast
  then obtain xs t ys where order: "dag_order dag = xs @ t # ys" "t \<notin> completed"
      "\<forall>u \<in> set xs. u \<in> completed"
    by (auto dest!: split_list_first_prop)
  then obtain n where n: "n \<in> set ns" "node_id n = t"
    using dag_order_set [OF assms] by (metis image_iff in_set_conv_decomp)
  have "set (node_dependencies n) \<subseteq> set xs"
    using topological_split [of "dag_nodes dag" xs t ys] order(1) dag_topological [OF assms]
      dag_dependencies_of [OF assms n(1)] n(2) by simp
  with order n have "t \<in> set (ready_tasks dag completed)"
    by (auto simp: ready_tasks_iff [OF assms])
  then show "ready_tasks dag completed \<noteq> []" by auto
qed

theorem ready_tasks_progress_witness:
  "ready_tasks sample_dag {Id 1, Id 2} \<noteq> [] \<and> can_complete sample_dag (Id 3) {Id 1, Id 2}"
proof -
  have "\<not> node_id ` set sample_graph \<subseteq> {Id 1, Id 2}" by (simp add: sample_graph_def)
  moreover have "Id 3 \<in> set (ready_tasks sample_dag {Id 1, Id 2})" by code_simp
  ultimately show ?thesis
    using ready_tasks_progress [OF sample_dag_valid, of "{Id 1, Id 2}",
        THEN conjunct2, THEN conjunct2]
      ready_tasks_progress [OF sample_dag_valid, of "{Id 1, Id 2}",
        THEN conjunct2, THEN conjunct1, THEN spec, of "Id 3"]
    by simp
qed

end
