(* ===== verification/Architecture.thy ===== *)
theory Architecture
  imports Dag
begin

text \<open>
  Architecture plans (\<open>crates/workflow-core/src/architecture.rs\<close>): the requirements and tasks an
  architect submits, and the checks that turn them into a plan.  The requirement index is the
  code's \<open>BTreeMap\<close> from requirement id to a covered flag.
\<close>

section \<open>Data\<close>

definition plan_max_items :: nat where "plan_max_items = 256"
definition plan_max_text_bytes :: nat where "plan_max_text_bytes = 4096"

record requirement =
  requirement_criteria :: "string list"
  requirement_id :: string
  statement :: string

record planned_task =
  planned_criteria :: "string list"
  planned_dependencies :: "task_id list"
  planned_id :: task_id
  planned_objective :: string
  planned_requirement_ids :: "string list"
  planned_title :: string
  verification_commands :: "string list"
  planned_scopes :: "string list"

record architecture_plan =
  assumptions :: "string list"
  integration_checks :: "string list"
  plan_request_digest :: content_digest
  requirements :: "requirement list"
  risks :: "string list"
  plan_tasks :: "planned_task list"

datatype architecture_error =
    ArchitectureDag dag_error
  | EmptyAcceptanceCriteria
  | EmptyIntegrationChecks
  | InvalidRequirement
  | InvalidTask
  | LimitExceeded
  | MissingRequirementCoverage string
  | UnknownRequirement string

section \<open>Text checks\<close>

definition valid_text :: "string \<Rightarrow> bool" where
  "valid_text value \<longleftrightarrow> \<not> blank value \<and> length value \<le> plan_max_text_bytes
     \<and> CHR 0x00 \<notin> set value"

definition valid_key :: "string \<Rightarrow> bool" where
  "valid_key value \<longleftrightarrow> value \<noteq> [] \<and> length value \<le> 64
     \<and> list_all (\<lambda>c. is_ascii_alphanumeric c \<or> c \<in> {CHR ''-'', CHR ''_'', CHR ''.''}) value"

definition validate_texts :: "string list \<Rightarrow> architecture_error + unit" where
  "validate_texts values =
     (if list_ex (\<lambda>v. \<not> valid_text v) values then Err InvalidTask else Ok ())"

section \<open>The loops over requirements and tasks\<close>

type_synonym requirement_index = "(string, bool) btree_map"

definition index_requirement ::
  "requirement_index \<Rightarrow> requirement \<Rightarrow> architecture_error + requirement_index" where
  "index_requirement index r =
     (if \<not> valid_key (requirement_id r) \<or> \<not> valid_text (statement r) then Err InvalidRequirement
      else if requirement_criteria r = [] then Err EmptyAcceptanceCriteria
      else and_then (validate_texts (requirement_criteria r)) (\<lambda>_.
        if bt_get index (requirement_id r) \<noteq> None then Err InvalidRequirement
        else Ok (bt_insert (requirement_id r) False index)))"

fun link_requirements ::
  "string set \<Rightarrow> requirement_index \<Rightarrow> string list \<Rightarrow> architecture_error + requirement_index" where
  "link_requirements linked index [] = Ok index"
| "link_requirements linked index (i # ids) =
     (if i \<in> linked then Err InvalidTask
      else if bt_get index i = None then Err (UnknownRequirement i)
      else link_requirements (insert i linked) (bt_set i True index) ids)"

definition check_task ::
  "requirement_index \<times> task_node list \<Rightarrow> planned_task \<Rightarrow>
     architecture_error + requirement_index \<times> task_node list" where
  "check_task = (\<lambda>(index, nodes) t.
     if \<not> valid_text (planned_title t) \<or> \<not> valid_text (planned_objective t)
        \<or> planned_requirement_ids t = [] \<or> verification_commands t = [] then Err InvalidTask
     else if planned_criteria t = [] then Err EmptyAcceptanceCriteria
     else and_then (validate_texts (planned_criteria t)) (\<lambda>_.
          and_then (validate_texts (verification_commands t)) (\<lambda>_.
          and_then (link_requirements {} index (planned_requirement_ids t)) (\<lambda>index'.
          Ok (index', nodes @ [\<lparr>node_id = planned_id t, node_owner = Executor,
            node_scopes = planned_scopes t, node_dependencies = planned_dependencies t\<rparr>])))))"

text \<open>\<open>None\<close> stands for a panic of the graph validation, as in \<open>dag_validate\<close>.\<close>

definition architecture_validate ::
  "content_digest \<Rightarrow> requirement list \<Rightarrow> planned_task list \<Rightarrow> string list \<Rightarrow> string list \<Rightarrow>
     string list \<Rightarrow> (architecture_error + architecture_plan) option" where
  "architecture_validate digest reqs tasks assume_texts risk_texts checks =
     (if reqs = [] \<or> plan_max_items < length reqs \<or> tasks = [] \<or> plan_max_items < length tasks
         \<or> plan_max_items < length assume_texts \<or> plan_max_items < length risk_texts
         \<or> plan_max_items < length checks then Some (Err LimitExceeded)
      else case and_then (validate_texts assume_texts) (\<lambda>_.
           and_then (validate_texts risk_texts) (\<lambda>_.
           and_then (ensure (checks \<noteq> []) EmptyIntegrationChecks) (\<lambda>_.
           and_then (validate_texts checks) (\<lambda>_.
           and_then (try_fold index_requirement [] reqs) (\<lambda>index.
           try_fold check_task (index, []) tasks))))) of
        Inl e \<Rightarrow> Some (Err e)
      | Inr (index, nodes) \<Rightarrow>
          (case dag_validate nodes of
             None \<Rightarrow> None
           | Some (Inl e) \<Rightarrow> Some (Err (ArchitectureDag e))
           | Some (Inr _) \<Rightarrow>
               Some (case find (\<lambda>(_, covered). \<not> covered) index of
                 Some (i, _) \<Rightarrow> Err (MissingRequirementCoverage i)
               | None \<Rightarrow> Ok \<lparr>assumptions = assume_texts, integration_checks = checks,
                   plan_request_digest = digest, requirements = reqs, risks = risk_texts,
                   plan_tasks = tasks\<rparr>)))"

text \<open>\<open>TryFrom<UncheckedPlan>\<close> and the digest over the JSON text, which \<open>serde_json\<close> makes.\<close>

definition architecture_try_from ::
  "architecture_plan \<Rightarrow> (architecture_error + architecture_plan) option" where
  "architecture_try_from p =
     architecture_validate (plan_request_digest p) (requirements p) (plan_tasks p)
       (assumptions p) (risks p) (integration_checks p)"

section \<open>What the loops compute\<close>

lemma validate_texts_Ok_iff [simp]:
  "validate_texts vs = Ok u \<longleftrightarrow> (\<forall>v \<in> set vs. valid_text v)"
  by (auto simp: validate_texts_def list_ex_iff)

definition requirement_ok :: "requirement \<Rightarrow> bool" where
  "requirement_ok r \<longleftrightarrow> valid_key (requirement_id r) \<and> valid_text (statement r)
     \<and> requirement_criteria r \<noteq> [] \<and> (\<forall>c \<in> set (requirement_criteria r). valid_text c)"

lemma index_requirement_Ok_iff:
  "index_requirement index r = Ok index' \<longleftrightarrow> requirement_ok r
     \<and> requirement_id r \<notin> set (bt_keys index)
     \<and> index' = bt_insert (requirement_id r) False index"
  using bt_get_None_iff [of index "requirement_id r"]
  by (auto simp: index_requirement_def requirement_ok_def simp del: set_map)

lemma index_requirements_Ok_iff:
  assumes "bt_wf index"
  shows "(\<exists>index'. try_fold index_requirement index rs = Ok index') \<longleftrightarrow>
      (\<forall>r \<in> set rs. requirement_ok r) \<and> distinct (map requirement_id rs)
      \<and> set (map requirement_id rs) \<inter> set (bt_keys index) = {}"
    and "try_fold index_requirement index rs = Ok index' \<Longrightarrow>
      bt_wf index' \<and> (\<forall>k. bt_get index' k =
        (if k \<in> set (map requirement_id rs) then Some False else bt_get index k))"
  using assms
proof (induction rs arbitrary: index)
  case Nil
  { case 1 show ?case by simp next case 2 then show ?case by simp }
next
  case (Cons r rs)
  {
    case 1
    then show ?case
      using Cons.IH(1) [OF bt_wf_insert [OF 1]]
        bt_keys_insert [of "requirement_id r" False index]
      by (auto simp: index_requirement_Ok_iff simp del: set_map)
  next
    case 2
    then have "try_fold index_requirement (bt_insert (requirement_id r) False index) rs = Ok index'"
      by (auto simp: index_requirement_Ok_iff)
    from Cons.IH(2) [OF this bt_wf_insert [OF 2(2)]] 2(2) show ?case
      by (simp add: bt_get_insert)
  }
qed

lemma link_requirements_Ok_iff:
  "(\<exists>index'. link_requirements linked index ids = Ok index') \<longleftrightarrow>
     distinct ids \<and> set ids \<inter> linked = {} \<and> set ids \<subseteq> set (bt_keys index)"
  using bt_get_None_iff [of index]
  by (induction linked index ids rule: link_requirements.induct)
    (auto simp: bt_get_None_iff simp del: set_map)

lemma link_requirements_get:
  "link_requirements linked index ids = Ok index' \<Longrightarrow>
     bt_keys index' = bt_keys index \<and> bt_wf index' = bt_wf index
     \<and> (\<forall>k. bt_get index' k = (if k \<in> set ids then Some True else bt_get index k))"
proof (induction linked index ids rule: link_requirements.induct)
  case (2 linked index i ids)
  then obtain b where "bt_get index i = Some b" by (auto split: if_splits)
  with 2 show ?case by (auto simp: bt_get_set split: if_splits)
qed simp

definition task_ok :: "string set \<Rightarrow> planned_task \<Rightarrow> bool" where
  "task_ok ids t \<longleftrightarrow> valid_text (planned_title t) \<and> valid_text (planned_objective t)
     \<and> planned_criteria t \<noteq> [] \<and> (\<forall>c \<in> set (planned_criteria t). valid_text c)
     \<and> verification_commands t \<noteq> [] \<and> (\<forall>c \<in> set (verification_commands t). valid_text c)
     \<and> planned_requirement_ids t \<noteq> [] \<and> distinct (planned_requirement_ids t)
     \<and> set (planned_requirement_ids t) \<subseteq> ids"

definition task_to_node :: "planned_task \<Rightarrow> task_node" where
  "task_to_node t = \<lparr>node_id = planned_id t, node_owner = Executor,
     node_scopes = planned_scopes t, node_dependencies = planned_dependencies t\<rparr>"

lemma check_task_Ok_iff:
  "check_task (index, nodes) t = Ok s \<longleftrightarrow> (\<exists>index'. s = (index', nodes @ [task_to_node t])
     \<and> link_requirements {} index (planned_requirement_ids t) = Ok index'
     \<and> task_ok (set (bt_keys index)) t)"
  using link_requirements_Ok_iff [of "{}" index "planned_requirement_ids t"]
  by (auto simp: check_task_def task_ok_def task_to_node_def simp del: set_map)

lemma check_tasks_Ok_iff:
  "(\<exists>s. try_fold check_task (index, nodes) ts = Ok s) \<longleftrightarrow>
     (\<forall>t \<in> set ts. task_ok (set (bt_keys index)) t)"
proof (induction ts arbitrary: index nodes)
  case (Cons t ts)
  show ?case
  proof (cases "task_ok (set (bt_keys index)) t")
    case True
    then obtain index' where link: "link_requirements {} index (planned_requirement_ids t) = Ok index'"
      using link_requirements_Ok_iff [of "{}" index "planned_requirement_ids t"]
      by (auto simp: task_ok_def)
    with True have "check_task (index, nodes) t = Ok (index', nodes @ [task_to_node t])"
      by (simp add: check_task_Ok_iff del: set_map)
    with True Cons [of index' "nodes @ [task_to_node t]"] link_requirements_get [OF link]
    show ?thesis by (simp del: set_map)
  next
    case False
    then show ?thesis by (auto simp: check_task_Ok_iff simp del: set_map)
  qed
qed simp

lemma check_tasks_result:
  "try_fold check_task (index, nodes) ts = Ok (index', nodes') \<Longrightarrow>
     nodes' = nodes @ map task_to_node ts \<and> bt_wf index' = bt_wf index
     \<and> (\<forall>k. bt_get index' k =
          (if \<exists>t \<in> set ts. k \<in> set (planned_requirement_ids t) then Some True else bt_get index k))"
proof (induction ts arbitrary: index nodes)
  case (Cons t ts)
  then obtain index1 where link: "link_requirements {} index (planned_requirement_ids t) = Ok index1"
    and rest: "try_fold check_task (index1, nodes @ [task_to_node t]) ts = Ok (index', nodes')"
    by (auto simp: check_task_Ok_iff simp del: set_map)
  from Cons.IH [OF rest] link_requirements_get [OF link] show ?case by auto
qed simp

lemma find_uncovered:
  assumes "bt_wf index"
  shows "find (\<lambda>(_, covered). \<not> covered) index = None \<longleftrightarrow> (\<forall>k. bt_get index k \<noteq> Some False)"
proof -
  have "find (\<lambda>(_, covered). \<not> covered) index = None \<longleftrightarrow> (\<forall>(k, c) \<in> set index. c)"
    by (auto simp: find_None_iff)
  also have "\<dots> \<longleftrightarrow> (\<forall>k. (k, False) \<notin> set index)" by auto (metis (full_types))
  finally show ?thesis using bt_get_Some_iff [OF assms] by simp
qed

section \<open>Properties\<close>

text \<open>The conditions on a plan, without indexes or loops.\<close>

definition plan_ok :: "architecture_plan \<Rightarrow> bool" where
  "plan_ok p \<longleftrightarrow>
     requirements p \<noteq> [] \<and> length (requirements p) \<le> plan_max_items
     \<and> plan_tasks p \<noteq> [] \<and> length (plan_tasks p) \<le> plan_max_items
     \<and> length (assumptions p) \<le> plan_max_items \<and> length (risks p) \<le> plan_max_items
     \<and> integration_checks p \<noteq> [] \<and> length (integration_checks p) \<le> plan_max_items
     \<and> (\<forall>v \<in> set (assumptions p @ risks p @ integration_checks p). valid_text v)
     \<and> (\<forall>r \<in> set (requirements p). requirement_ok r)
     \<and> distinct (map requirement_id (requirements p))
     \<and> (\<forall>t \<in> set (plan_tasks p). task_ok (requirement_id ` set (requirements p)) t)
     \<and> graph_ok (map task_to_node (plan_tasks p))
     \<and> (\<forall>r \<in> set (requirements p). \<exists>t \<in> set (plan_tasks p).
          requirement_id r \<in> set (planned_requirement_ids t))"

lemma loops_Ok:
  assumes "try_fold index_requirement [] reqs = Ok index"
    and "try_fold check_task (index, []) tasks = Ok (index', nodes)"
  shows "nodes = map task_to_node tasks
     \<and> (find (\<lambda>(_, covered). \<not> covered) index' = None \<longleftrightarrow>
        (\<forall>r \<in> set reqs. \<exists>t \<in> set tasks. requirement_id r \<in> set (planned_requirement_ids t)))"
proof -
  note index = index_requirements_Ok_iff(2) [OF bt_wf_Nil assms(1)]
  note tasks = check_tasks_result [OF assms(2)]
  show ?thesis using index tasks by (auto simp: find_uncovered)
qed

lemma loops_iff:
  "(\<exists>s. and_then (try_fold index_requirement [] reqs) (\<lambda>index.
      try_fold check_task (index, []) tasks) = Ok s) \<longleftrightarrow>
     (\<forall>r \<in> set reqs. requirement_ok r) \<and> distinct (map requirement_id reqs)
     \<and> (\<forall>t \<in> set tasks. task_ok (requirement_id ` set reqs) t)"
proof (cases "try_fold index_requirement [] reqs")
  case (Inl e)
  then show ?thesis using index_requirements_Ok_iff(1) [OF bt_wf_Nil, of reqs] by auto
next
  case (Inr index)
  from index_requirements_Ok_iff(2) [OF bt_wf_Nil Inr] have
    "bt_get index k \<noteq> None \<longleftrightarrow> k \<in> set (map requirement_id reqs)" for k by auto
  then have "set (bt_keys index) = requirement_id ` set reqs"
    using bt_get_None_iff [of index] by (auto simp del: set_map) (auto simp: set_map)
  moreover have "(\<forall>r \<in> set reqs. requirement_ok r) \<and> distinct (map requirement_id reqs)"
    using index_requirements_Ok_iff(1) [OF bt_wf_Nil, of reqs] Inr by auto
  ultimately show ?thesis
    using Inr check_tasks_Ok_iff [of index "[]" tasks] by (simp del: set_map split_paired_Ex)
qed

lemma plan_ok_loops:
  "plan_ok p \<longleftrightarrow>
     requirements p \<noteq> [] \<and> length (requirements p) \<le> plan_max_items
     \<and> plan_tasks p \<noteq> [] \<and> length (plan_tasks p) \<le> plan_max_items
     \<and> length (assumptions p) \<le> plan_max_items \<and> length (risks p) \<le> plan_max_items
     \<and> integration_checks p \<noteq> [] \<and> length (integration_checks p) \<le> plan_max_items
     \<and> (\<forall>v \<in> set (assumptions p @ risks p @ integration_checks p). valid_text v)
     \<and> (\<exists>s. and_then (try_fold index_requirement [] (requirements p)) (\<lambda>index.
          try_fold check_task (index, []) (plan_tasks p)) = Ok s)
     \<and> graph_ok (map task_to_node (plan_tasks p))
     \<and> (\<forall>r \<in> set (requirements p). \<exists>t \<in> set (plan_tasks p).
          requirement_id r \<in> set (planned_requirement_ids t))"
  unfolding plan_ok_def loops_iff by blast

lemma plan_eta:
  "\<lparr>assumptions = assumptions p, integration_checks = integration_checks p,
     plan_request_digest = plan_request_digest p, requirements = requirements p,
     risks = risks p, plan_tasks = plan_tasks p\<rparr> = p"
  by simp

text \<open>
  A submitted plan is accepted exactly when it meets every stated condition: the item and
  text limits, at least one integration check, well-formed requirements with distinct ids, tasks
  that name only listed requirements, a valid task graph, and every requirement covered by a
  task.  An accepted plan is the submitted one, and no submission makes the checks panic.
\<close>

theorem plan_accepted_iff:
  "architecture_try_from p \<noteq> None
   \<and> (\<forall>q. architecture_try_from p = Some (Ok q) \<longleftrightarrow> q = p \<and> plan_ok p)"
proof -
  let ?loops = "and_then (try_fold index_requirement [] (requirements p)) (\<lambda>index.
      try_fold check_task (index, []) (plan_tasks p))"
  let ?limits = "requirements p \<noteq> [] \<and> length (requirements p) \<le> plan_max_items
     \<and> plan_tasks p \<noteq> [] \<and> length (plan_tasks p) \<le> plan_max_items
     \<and> length (assumptions p) \<le> plan_max_items \<and> length (risks p) \<le> plan_max_items
     \<and> length (integration_checks p) \<le> plan_max_items"
  let ?texts = "(\<forall>v \<in> set (assumptions p @ risks p @ integration_checks p). valid_text v)
     \<and> integration_checks p \<noteq> []"
  define front where "front = and_then (validate_texts (assumptions p)) (\<lambda>_.
       and_then (validate_texts (risks p)) (\<lambda>_.
       and_then (ensure (integration_checks p \<noteq> []) EmptyIntegrationChecks) (\<lambda>_.
       and_then (validate_texts (integration_checks p)) (\<lambda>_. ?loops))))"
  have front: "front = Ok s \<longleftrightarrow> ?texts \<and> ?loops = Ok s" for s
    by (auto simp: front_def)
  show ?thesis
  proof (cases "?limits \<and> (\<exists>s. front = Ok s)")
    case False
    then have "\<exists>e. architecture_try_from p = Some (Err e)"
      unfolding architecture_try_from_def architecture_validate_def front_def [symmetric]
      by (cases front) (auto simp: not_less)
    moreover have "\<not> plan_ok p" using False unfolding plan_ok_loops front by blast
    ultimately show ?thesis by auto
  next
    case True
    then obtain index' nodes where ok: "front = Ok (index', nodes)" by auto
    then obtain index where "try_fold index_requirement [] (requirements p) = Ok index"
      "try_fold check_task (index, []) (plan_tasks p) = Ok (index', nodes)"
      by (auto simp: front)
    note loops = loops_Ok [OF this]
    have try_from: "architecture_try_from p = (case dag_validate nodes of
        None \<Rightarrow> None | Some (Inl e) \<Rightarrow> Some (Err (ArchitectureDag e))
      | Some (Inr _) \<Rightarrow> Some (case find (\<lambda>(_, covered). \<not> covered) index' of
            Some (i, _) \<Rightarrow> Err (MissingRequirementCoverage i) | None \<Rightarrow> Ok p))"
      using True ok
      unfolding architecture_try_from_def architecture_validate_def front_def [symmetric] plan_eta
      by (simp add: not_less)
    have plan: "plan_ok p \<longleftrightarrow> graph_ok nodes \<and> find (\<lambda>(_, covered). \<not> covered) index' = None"
      using True loops ok unfolding plan_ok_loops front by blast
    show ?thesis
      using dag_validate_cases [of nodes] unfolding try_from plan
      by (auto split: option.splits sum.splits)
  qed
qed

end
