(* ===== verification/Candidate.thy ===== *)
theory Candidate
  imports Cycle_Digest "HOL-Library.Multiset"
begin

text \<open>
  Candidate manifests (\<open>crates/workflow-core/src/candidate.rs\<close>): the files of a candidate, the
  canonical order of a manifest, and the bytes its digest is taken over.
\<close>

section \<open>Data\<close>

datatype candidate_file_kind = Added | Deleted | Generated | Modified

record candidate_file =
  executable :: bool
  file_path :: string
  file_digest :: "content_digest option"
  file_kind :: candidate_file_kind

record candidate_digests =
  configuration_of :: content_digest
  dependency_state_of :: content_digest
  diff_of :: content_digest
  environment_of :: content_digest

datatype candidate_error =
    InvalidPath string
  | DuplicatePath string
  | DuplicateEvidence evidence_id
  | InvalidDigestState string

record candidate_manifest =
  manifest_id :: candidate_id
  base_revision :: "string option"
  files :: "candidate_file list"
  diff_digest :: content_digest
  dependency_state_digest :: content_digest
  configuration_digest :: content_digest
  environment_digest :: content_digest
  delivery_payload_digest :: "content_digest option"
  manifest_evidence :: "evidence_id list"

section \<open>Construction\<close>

definition candidate_file_new ::
  "string \<Rightarrow> content_digest option \<Rightarrow> candidate_file_kind \<Rightarrow> candidate_error + candidate_file" where
  "candidate_file_new path digest kind =
     (if \<not> is_safe_relative path then Err (InvalidPath path)
      else if (kind = Deleted) \<noteq> (digest = None) then Err (InvalidDigestState path)
      else Ok \<lparr>executable = False, file_path = path, file_digest = digest, file_kind = kind\<rparr>)"

definition with_executable :: "candidate_file \<Rightarrow> bool \<Rightarrow> candidate_file" where
  "with_executable f b = f\<lparr>executable := b\<rparr>"

text \<open>
  The two duplicate checks.  The sort is unstable; files with one path are adjacent in any order,
  so the first adjacent pair names the same path whichever order they end up in.
\<close>

fun check_paths :: "candidate_file list \<Rightarrow> candidate_error + unit" where
  "check_paths (f # g # fs) =
     (if file_path f = file_path g then Err (DuplicatePath (file_path f))
      else check_paths (g # fs))"
| "check_paths _ = Ok ()"

fun check_evidence :: "evidence_id set \<Rightarrow> evidence_id list \<Rightarrow> candidate_error + unit" where
  "check_evidence seen [] = Ok ()"
| "check_evidence seen (e # es) =
     (if e \<in> seen then Err (DuplicateEvidence e) else check_evidence (insert e seen) es)"

definition manifest_new ::
  "candidate_id \<Rightarrow> string option \<Rightarrow> candidate_file list \<Rightarrow> candidate_digests \<Rightarrow> evidence_id list \<Rightarrow>
     candidate_error + candidate_manifest" where
  "manifest_new cid base fs digests evidence =
     (let fs = sort_key file_path fs; evidence = sort evidence in
      and_then (check_paths fs) (\<lambda>_.
      and_then (check_evidence {} evidence) (\<lambda>_.
      Ok \<lparr>manifest_id = cid, base_revision = base, files = fs, diff_digest = diff_of digests,
          dependency_state_digest = dependency_state_of digests,
          configuration_digest = configuration_of digests,
          environment_digest = environment_of digests, delivery_payload_digest = None,
          manifest_evidence = evidence\<rparr>)))"

definition with_delivery_payload_digest ::
  "candidate_manifest \<Rightarrow> content_digest option \<Rightarrow> candidate_manifest" where
  "with_delivery_payload_digest m d = m\<lparr>delivery_payload_digest := d\<rparr>"

text \<open>\<open>TryFrom<CandidateManifestUnchecked>\<close>: what a deserialized manifest goes through.\<close>

definition manifest_try_from :: "candidate_manifest \<Rightarrow> candidate_error + candidate_manifest" where
  "manifest_try_from v =
     and_then (manifest_new (manifest_id v) (base_revision v) (files v)
         \<lparr>configuration_of = configuration_digest v,
          dependency_state_of = dependency_state_digest v,
          diff_of = diff_digest v, environment_of = environment_digest v\<rparr>
         (manifest_evidence v)) (\<lambda>m.
     Ok (with_delivery_payload_digest m (delivery_payload_digest v)))"

section \<open>The digest\<close>

definition candidate_domain :: string where
  "candidate_domain = ''opencode-workflow/candidate/v1''"

definition kind_text :: "candidate_file_kind \<Rightarrow> string" where
  "kind_text k = (case k of Added \<Rightarrow> ''added'' | Deleted \<Rightarrow> ''deleted''
     | Generated \<Rightarrow> ''generated'' | Modified \<Rightarrow> ''modified'')"

definition write_file :: "hasher \<Rightarrow> candidate_file \<Rightarrow> hasher" where
  "write_file h f =
     (let h = write_bool (write_str h (file_path f)) (file_digest f \<noteq> None);
          h = (case file_digest f of Some d \<Rightarrow> write_digest h d | None \<Rightarrow> h)
      in write_str h (kind_text (file_kind f)))"

definition candidate_stream :: "candidate_manifest \<Rightarrow> hasher" where
  "candidate_stream m =
     (let h = write_optional_str (canonical_hasher candidate_domain) (base_revision m);
          h = write_u64 h (of_nat (length (files m)));
          h = write_all write_file h (files m);
          h = write_digest h (diff_digest m);
          h = write_digest h (dependency_state_digest m);
          h = write_digest h (configuration_digest m);
          h = write_digest h (environment_digest m);
          h = write_u64 h (of_nat (length (manifest_evidence m)));
          h = write_all (\<lambda>h e. write_bytes h (id_bytes e)) h (manifest_evidence m)
      in case delivery_payload_digest m of
           Some d \<Rightarrow> write_digest (write_bool h True) d
         | None \<Rightarrow> h)"

definition candidate_digest ::
  "(byte list \<Rightarrow> content_digest) \<Rightarrow> candidate_manifest \<Rightarrow> content_digest" where
  "candidate_digest sha m = sha (candidate_stream m)"

section \<open>What construction accepts\<close>

lemma check_paths_Ok_iff:
  "sorted (map file_path fs) \<Longrightarrow> check_paths fs = Ok u \<longleftrightarrow> distinct (map file_path fs)"
proof (induction fs rule: check_paths.induct)
  case (1 f g fs)
  then show ?case by (auto simp: order.antisym)
qed auto

lemma check_evidence_Ok_iff:
  "check_evidence seen es = Ok u \<longleftrightarrow> distinct es \<and> set es \<inter> seen = {}"
  by (induction es arbitrary: seen) auto

lemma check_paths_cong:
  "map file_path fs = map file_path gs \<Longrightarrow> check_paths fs = check_paths gs"
proof (induction fs arbitrary: gs rule: check_paths.induct)
  case (1 f g fs)
  then obtain f' g' gs' where "gs = f' # g' # gs'" "file_path f' = file_path f"
    "file_path g' = file_path g" "map file_path fs = map file_path gs'"
    by (auto simp: Cons_eq_map_conv)
  with 1 show ?case by auto
qed (auto simp: Cons_eq_map_conv)

lemma manifest_new_Ok_iff:
  "manifest_new cid base fs digests evidence = Ok m \<longleftrightarrow>
     distinct (map file_path fs) \<and> distinct evidence
     \<and> m = \<lparr>manifest_id = cid, base_revision = base, files = sort_key file_path fs,
          diff_digest = diff_of digests, dependency_state_digest = dependency_state_of digests,
          configuration_digest = configuration_of digests,
          environment_digest = environment_of digests, delivery_payload_digest = None,
          manifest_evidence = sort evidence\<rparr>"
proof -
  have "distinct (map file_path (sort_key file_path fs)) \<longleftrightarrow> distinct (map file_path fs)"
    by (metis distinct_map distinct_sort set_sort)
  then show ?thesis
    by (auto simp: manifest_new_def Let_def check_paths_Ok_iff check_evidence_Ok_iff)
qed

lemma map_sort_key: "map f (sort_key f xs) = sort (map f xs)"
  by (rule properties_for_sort [symmetric]) simp_all

lemma sort_key_unique:
  assumes "mset fs = mset gs" and "distinct (map f fs)"
  shows "sort_key f fs = sort_key f gs"
proof (rule map_inj_on [where f = f])
  show "map f (sort_key f fs) = map f (sort_key f gs)"
    using assms(1) by (simp add: map_sort_key) (metis mset_map sorted_list_of_multiset_mset)
  from assms show "inj_on f (set (sort_key f fs) \<union> set (sort_key f gs))"
    by (metis distinct_map set_mset_mset set_sort sup.idem)
qed

section \<open>What the digest covers\<close>

text \<open>The part of a file that is hashed.\<close>

type_synonym file_view = "string \<times> content_digest option \<times> candidate_file_kind"

definition file_view :: "candidate_file \<Rightarrow> file_view" where
  "file_view f = (file_path f, file_digest f, file_kind f)"

definition view_bytes :: "file_view \<Rightarrow> byte list" where
  "view_bytes v = (case v of (path, digest, kind) \<Rightarrow>
     write_file [] \<lparr>executable = False, file_path = path, file_digest = digest, file_kind = kind\<rparr>)"

lemma write_file_item: "write_file h f = h @ view_bytes (file_view f)"
  by (simp add: write_file_def view_bytes_def file_view_def write_str_item write_digest_item
      write_bool_def Let_def split: option.splits)

lemma kind_text_inject [simp]: "kind_text k = kind_text k' \<longleftrightarrow> k = k'"
  by (cases k; cases k') (simp_all add: kind_text_def)

lemma fits_kind_text [simp]: "fits (kind_text k)"
  by (cases k) (simp_all add: kind_text_def fits_def)

lemma view_bytes_inject:
  assumes "fits p" "fits q" and "view_bytes (p, d, k) @ r = view_bytes (q, e, l) @ r'"
  shows "(p, d, k) = (q, e, l) \<and> r = r'"
  using assms
  by (cases d; cases e)
    (auto simp: view_bytes_def write_file_def write_str_item write_bool_def write_digest_item
      str_item_inject digest_item_inject)

lemma files_stream_inject:
  assumes "list_all (\<lambda>f. fits (file_path f)) fs" and "list_all (\<lambda>f. fits (file_path f)) gs"
    and "length fs = length gs"
    and "concat (map (view_bytes \<circ> file_view) fs) @ r = concat (map (view_bytes \<circ> file_view) gs) @ r'"
  shows "map file_view fs = map file_view gs \<and> r = r'"
proof (rule concat_inject)
  show "concat (map view_bytes (map file_view fs)) @ r =
      concat (map view_bytes (map file_view gs)) @ r'"
    using assms(4) by simp
  show "length (map file_view fs) = length (map file_view gs)" using assms(3) by simp
  fix v w :: file_view and r r'
  assume "v \<in> set (map file_view fs)" "w \<in> set (map file_view gs)"
    and eq: "view_bytes v @ r = view_bytes w @ r'"
  then have "fits (fst v)" "fits (fst w)"
    using assms(1,2) by (auto simp: file_view_def list_all_iff)
  with eq view_bytes_inject [of "fst v" "fst w" "fst (snd v)" "snd (snd v)" r
      "fst (snd w)" "snd (snd w)" r']
  show "v = w \<and> r = r'" by simp
qed

definition manifest_fits :: "candidate_manifest \<Rightarrow> bool" where
  "manifest_fits m \<longleftrightarrow> fits (files m) \<and> fits (manifest_evidence m)
     \<and> (\<forall>b. base_revision m = Some b \<longrightarrow> fits b) \<and> list_all (\<lambda>f. fits (file_path f)) (files m)"

definition optional_bytes :: "string option \<Rightarrow> byte list" where
  "optional_bytes x = write_optional_str [] x"

lemma write_optional_str_item: "write_optional_str h x = h @ optional_bytes x"
  by (simp add: optional_bytes_def write_optional_str_def write_str_item write_bool_def
      split: option.splits)

lemma optional_bytes_inject:
  assumes "\<And>s. x = Some s \<Longrightarrow> fits s" and "\<And>s. y = Some s \<Longrightarrow> fits s"
    and "optional_bytes x @ r = optional_bytes y @ r'"
  shows "x = y \<and> r = r'"
  using assms
  by (cases x; cases y)
    (auto simp: optional_bytes_def write_optional_str_def write_str_item write_bool_def
      str_item_inject)

lemma candidate_stream_items:
  "candidate_stream m = canonical_hasher candidate_domain @ optional_bytes (base_revision m)
     @ be_u64 (of_nat (length (files m))) @ concat (map (view_bytes \<circ> file_view) (files m))
     @ digest_item (diff_digest m) @ digest_item (dependency_state_digest m)
     @ digest_item (configuration_digest m) @ digest_item (environment_digest m)
     @ be_u64 (of_nat (length (manifest_evidence m))) @ concat (map id_item (manifest_evidence m))
     @ (case delivery_payload_digest m of Some d \<Rightarrow> 1 # digest_item d | None \<Rightarrow> [])"
  by (simp add: candidate_stream_def Let_def write_optional_str_item write_u64_def
      foldl_append_items [OF write_file_item] write_digest_item
      foldl_append_items [OF write_id_item] write_bool_def comp_def split: option.split)

lemma candidate_stream_inject:
  assumes fit: "manifest_fits m" "manifest_fits n"
    and eq: "candidate_stream m = candidate_stream n"
  shows "base_revision m = base_revision n \<and> map file_view (files m) = map file_view (files n)
     \<and> diff_digest m = diff_digest n \<and> dependency_state_digest m = dependency_state_digest n
     \<and> configuration_digest m = configuration_digest n
     \<and> environment_digest m = environment_digest n \<and> manifest_evidence m = manifest_evidence n
     \<and> delivery_payload_digest m = delivery_payload_digest n"
proof -
  let ?T = "\<lambda>m. case delivery_payload_digest m of Some d \<Rightarrow> (1 :: byte) # digest_item d | None \<Rightarrow> []"
  let ?E = "\<lambda>m. concat (map id_item (manifest_evidence m)) @ ?T m"
  let ?D = "\<lambda>m. digest_item (diff_digest m) @ digest_item (dependency_state_digest m)
     @ digest_item (configuration_digest m) @ digest_item (environment_digest m)
     @ be_u64 (of_nat (length (manifest_evidence m))) @ ?E m"
  let ?F = "\<lambda>m. concat (map (view_bytes \<circ> file_view) (files m)) @ ?D m"
  have "optional_bytes (base_revision m) @ be_u64 (of_nat (length (files m))) @ ?F m =
      optional_bytes (base_revision n) @ be_u64 (of_nat (length (files n))) @ ?F n"
    using eq unfolding candidate_stream_items by simp
  from optional_bytes_inject [OF _ _ this] fit have base: "base_revision m = base_revision n"
    and len: "length (files m) = length (files n)" and F: "?F m = ?F n"
    by (auto simp: manifest_fits_def item_u64_inject fits_def of_nat_u64_inject)
  from files_stream_inject [OF _ _ len F] fit
  have fs: "map file_view (files m) = map file_view (files n)" and D: "?D m = ?D n"
    by (auto simp: manifest_fits_def)
  from D fit have ds: "diff_digest m = diff_digest n"
      "dependency_state_digest m = dependency_state_digest n"
      "configuration_digest m = configuration_digest n"
      "environment_digest m = environment_digest n"
    and el: "length (manifest_evidence m) = length (manifest_evidence n)" and E: "?E m = ?E n"
    by (simp_all add: digest_item_inject item_u64_inject manifest_fits_def fits_def of_nat_u64_inject)
  have "manifest_evidence m = manifest_evidence n \<and> ?T m = ?T n"
    by (rule concat_inject [OF _ el E]) (simp add: id_item_inject)
  moreover from this have "delivery_payload_digest m = delivery_payload_digest n"
    using digest_item_inject [of _ "[]" _ "[]"] by (auto split: option.splits)
  ultimately show ?thesis using base fs ds by simp
qed

section \<open>Properties\<close>

text \<open>
  A manifest does not depend on the order its files and evidence were collected in: the same
  files and the same evidence in any order give the same result, success or error, and a manifest
  that was built lists its files by strictly increasing path and its evidence by strictly
  increasing identifier.
\<close>

theorem manifest_canonical:
  assumes "mset fs = mset gs" and "mset es = mset es'"
  shows "manifest_new cid base fs digests es = manifest_new cid base gs digests es'
     \<and> (\<forall>m. manifest_new cid base fs digests es = Ok m \<longrightarrow>
          sorted_wrt (<) (map file_path (files m)) \<and> mset (files m) = mset fs
          \<and> sorted_wrt (<) (manifest_evidence m) \<and> mset (manifest_evidence m) = mset es)"
proof -
  have ev: "sort es = sort es'" using assms(2) by (metis sorted_list_of_multiset_mset)
  have "map file_path (sort_key file_path fs) = map file_path (sort_key file_path gs)"
    using assms(1) by (simp add: map_sort_key) (metis mset_map sorted_list_of_multiset_mset)
  from check_paths_cong [OF this] have paths:
    "check_paths (sort_key file_path fs) = check_paths (sort_key file_path gs)" .
  have "manifest_new cid base fs digests es = manifest_new cid base gs digests es'"
  proof (cases "distinct (map file_path fs)")
    case True
    from sort_key_unique [OF assms(1) True] ev show ?thesis by (simp add: manifest_new_def)
  next
    case False
    have "distinct (map file_path (sort_key file_path fs)) \<longleftrightarrow> distinct (map file_path fs)"
      by (metis distinct_map distinct_sort set_sort)
    with False have "\<exists>e. check_paths (sort_key file_path fs) = Err e"
      by (metis check_paths_Ok_iff obj_sumE sorted_sort_key)
    then obtain e where e: "check_paths (sort_key file_path fs) = Err e" ..
    with paths have "check_paths (sort_key file_path gs) = Err e" by simp
    with e show ?thesis by (simp add: manifest_new_def)
  qed
  moreover have "sorted_wrt (<) (map file_path (files m)) \<and> mset (files m) = mset fs
      \<and> sorted_wrt (<) (manifest_evidence m) \<and> mset (manifest_evidence m) = mset es"
    if "manifest_new cid base fs digests es = Ok m" for m
    using that by (auto simp: manifest_new_Ok_iff strict_sorted_iff map_sort_key)
  ultimately show ?thesis by blast
qed

definition sample_files :: "candidate_file list" where
  "sample_files =
     [\<lparr>executable = False, file_path = ''b'', file_digest = Some 7, file_kind = Modified\<rparr>,
      \<lparr>executable = True, file_path = ''a'', file_digest = Some 9, file_kind = Added\<rparr>]"

definition sample_digests :: candidate_digests where
  "sample_digests = \<lparr>configuration_of = 1, dependency_state_of = 2, diff_of = 3, environment_of = 4\<rparr>"

definition sample_manifest :: candidate_manifest where
  "sample_manifest = \<lparr>manifest_id = Id 1, base_revision = Some ''main'',
     files = rev sample_files, diff_digest = 3, dependency_state_digest = 2,
     configuration_digest = 1, environment_digest = 4, delivery_payload_digest = None,
     manifest_evidence = [Id 5, Id 6]\<rparr>"

lemma sample_manifest_new:
  "manifest_new (Id 1) (Some ''main'') sample_files sample_digests [Id 6, Id 5] = Ok sample_manifest"
  by (simp add: manifest_new_Ok_iff sample_manifest_def sample_files_def sample_digests_def
      sort_key_def less_eq_list_code less_list_code)

theorem manifest_canonical_witness:
  "manifest_new (Id 1) (Some ''main'') (rev sample_files) sample_digests [Id 5, Id 6] =
     Ok sample_manifest"
proof -
  have "mset (rev sample_files) = mset sample_files" by simp
  moreover have "mset [Id 5, Id 6 :: evidence_id] = mset [Id 6, Id 5]" by simp
  ultimately show ?thesis
    using manifest_canonical sample_manifest_new by metis
qed

text \<open>
  C20. The candidate digest binds the base revision, every file's path, content digest and kind,
  the four state digests, the evidence and the delivery payload digest: two manifests with the
  same digest agree on all of them, or exhibit two different inputs of SHA-256 with one output.
\<close>

theorem candidate_digest_binds:
  assumes "manifest_fits m" and "manifest_fits n"
    and "candidate_digest sha m = candidate_digest sha n"
  shows "(base_revision m = base_revision n \<and> map file_view (files m) = map file_view (files n)
        \<and> diff_digest m = diff_digest n \<and> dependency_state_digest m = dependency_state_digest n
        \<and> configuration_digest m = configuration_digest n
        \<and> environment_digest m = environment_digest n \<and> manifest_evidence m = manifest_evidence n
        \<and> delivery_payload_digest m = delivery_payload_digest n)
     \<or> (candidate_stream m \<noteq> candidate_stream n
        \<and> sha (candidate_stream m) = sha (candidate_stream n))"
  using candidate_stream_inject [OF assms(1,2)] assms(3) by (auto simp: candidate_digest_def)

theorem candidate_digest_binds_witness:
  "map file_view (files sample_manifest) =
     map file_view (map (\<lambda>f. with_executable f True) (files sample_manifest))
   \<and> files sample_manifest \<noteq> map (\<lambda>f. with_executable f True) (files sample_manifest)"
proof -
  let ?n = "sample_manifest\<lparr>files := map (\<lambda>f. with_executable f True) (files sample_manifest)\<rparr>"
  have "manifest_fits sample_manifest" "manifest_fits ?n"
    by (simp_all add: manifest_fits_def sample_manifest_def sample_files_def fits_def with_executable_def)
  moreover have "file_view \<circ> (\<lambda>f. with_executable f True) = file_view"
    by (rule ext) (simp add: file_view_def with_executable_def)
  then have "candidate_stream ?n = candidate_stream sample_manifest"
    by (simp add: candidate_stream_items comp_assoc)
  moreover from this have "candidate_digest (\<lambda>_. 0) sample_manifest = candidate_digest (\<lambda>_. 0) ?n"
    by (simp add: candidate_digest_def)
  ultimately have "map file_view (files sample_manifest) = map file_view (files ?n)"
    using candidate_digest_binds [of sample_manifest ?n "\<lambda>_. 0"] by auto
  then show ?thesis by (simp add: sample_manifest_def sample_files_def with_executable_def)
qed

text \<open>
  The executable flag of a file is not part of the digest: setting it on any file of any
  manifest leaves the digest as it was.  (The frozen candidates of the daemon carry it inside the
  delivery payload digest.)
\<close>

theorem candidate_digest_ignores_executable:
  "candidate_digest sha (m\<lparr>files := map (\<lambda>f. with_executable f (flag f)) (files m)\<rparr>) =
     candidate_digest sha m"
proof -
  have "file_view \<circ> (\<lambda>f. with_executable f (flag f)) = file_view"
    by (rule ext) (simp add: file_view_def with_executable_def)
  then show ?thesis
    by (simp add: candidate_digest_def candidate_stream_items comp_assoc)
qed

text \<open>
  Loading a stored manifest repeats the duplicate checks only.  A file that the constructor
  refuses, outside the project and without the digest its kind requires, is accepted when it
  arrives inside a manifest.
\<close>

theorem loaded_manifest_skips_file_checks:
  "candidate_file_new ''../secret'' None Added = Err (InvalidPath ''../secret'')
   \<and> manifest_try_from (sample_manifest\<lparr>files := [\<lparr>executable = False, file_path = ''../secret'',
        file_digest = None, file_kind = Added\<rparr>]\<rparr>) =
     Ok (sample_manifest\<lparr>files := [\<lparr>executable = False, file_path = ''../secret'',
        file_digest = None, file_kind = Added\<rparr>]\<rparr>)"
proof
  have "\<not> is_safe_relative ''../secret''" by code_simp
  then show "candidate_file_new ''../secret'' None Added = Err (InvalidPath ''../secret'')"
    by (simp add: candidate_file_new_def)
  show "manifest_try_from (sample_manifest\<lparr>files := [\<lparr>executable = False, file_path = ''../secret'',
        file_digest = None, file_kind = Added\<rparr>]\<rparr>) =
     Ok (sample_manifest\<lparr>files := [\<lparr>executable = False, file_path = ''../secret'',
        file_digest = None, file_kind = Added\<rparr>]\<rparr>)"
    by (simp add: manifest_try_from_def manifest_new_Ok_iff sample_manifest_def
        with_delivery_payload_digest_def sort_key_def)
qed

end
