(* ===== verification/Verdicts.thy ===== *)
theory Verdicts
  imports Workflow Ordered_Map
begin

text \<open>
  Evidence records and the verdicts over them: \<open>evidence.rs\<close>, \<open>review.rs\<close> and \<open>verdict.rs\<close> of
  \<open>crates/workflow-core\<close>.  Sets of the sources are sorted lists, iterated in order; the maps from
  requirement to decision are \<open>BTreeMap\<close>s.
\<close>

section \<open>Evidence (evidence.rs)\<close>

datatype evidence_kind =
    CommandRun
  | Test
  | Build
  | Lint
  | Database
  | Browser
  | Security
  | Inspection
  | Package

datatype evidence_status = Passed | Failed | Skipped

record evidence_record =
  evidence_record_id :: evidence_id
  evidence_candidate :: content_digest
  evidence_kind :: evidence_kind
  invocation :: string
  tool :: string
  tool_version :: string
  started_at :: workflow_timestamp
  finished_at :: workflow_timestamp
  exit_code :: "int option"
  output_digest :: content_digest
  evidence_status :: evidence_status
  skip_reason :: "string option"

datatype evidence_validation_error =
    InvalidTimeRange
  | MissingInvocation
  | InvalidExitCode
  | MissingSkipReason
  | UnexpectedSkipReason

definition evidence_validate :: "evidence_record \<Rightarrow> evidence_validation_error + unit" where
  "evidence_validate r =
     (if finished_at r < started_at r then Err InvalidTimeRange
      else if blank (invocation r) \<or> blank (tool r) then Err MissingInvocation
      else if evidence_status r = Passed \<and> evidence_kind r \<noteq> Inspection \<and> exit_code r \<noteq> Some 0
        then Err InvalidExitCode
      else if evidence_status r = Failed
          \<and> (case exit_code r of None \<Rightarrow> True | Some code \<Rightarrow> code = 0)
        then Err InvalidExitCode
      else if evidence_status r = Skipped
          \<and> (case skip_reason r of None \<Rightarrow> True | Some reason \<Rightarrow> blank reason)
        then Err MissingSkipReason
      else if (evidence_status r = Passed \<or> evidence_status r = Failed) \<and> skip_reason r \<noteq> None
        then Err UnexpectedSkipReason
      else Ok ())"

section \<open>Decisions and findings (verdict.rs)\<close>

datatype arbiter_decision = ArbiterApproved | ArbiterRejected

datatype requirement_status = Satisfied | Unsatisfied

record requirement_decision =
  decided_requirement :: string
  decided_status :: requirement_status
  decided_evidence :: "evidence_id list"

datatype finding_severity = Critical | High | Medium | Low | Info

fun is_severe :: "finding_severity \<Rightarrow> bool" where
  "is_severe s \<longleftrightarrow> s = Critical \<or> s = High"

record finding =
  severity :: finding_severity
  finding_summary :: string
  finding_evidence :: "evidence_id list"

record arbiter_verdict =
  arbiter_decision :: arbiter_decision
  arbiter_candidate :: content_digest
  arbiter_requirements :: "requirement_decision list"
  arbiter_findings :: "finding list"
  arbiter_repair :: "repair_target option"

datatype verdict_validation_error =
    VerdictDuplicateRequirement string
  | VerdictMissingRequirement string
  | VerdictUnexpectedRequirement string
  | VerdictMissingEvidence string
  | VerdictUnknownEvidence evidence_id
  | VerdictUnmetRequirement string
  | VerdictSevereFinding
  | VerdictApprovalHasRepairTarget
  | VerdictMissingRepairTarget
  | VerdictRejectionWithoutBasis

text \<open>Both files have their own copy of the evidence check; it differs in the error only.\<close>

definition validate_evidence ::
  "(evidence_id \<Rightarrow> 'e) \<Rightarrow> evidence_id list \<Rightarrow> evidence_id list \<Rightarrow> 'e + unit" where
  "validate_evidence unknown referenced available =
     (case find (\<lambda>i. i \<notin> set available) referenced of
        Some i \<Rightarrow> Err (unknown i)
      | None \<Rightarrow> Ok ())"

definition index_decision ::
  "string list \<Rightarrow> (string, requirement_decision) btree_map \<Rightarrow> requirement_decision \<Rightarrow>
     verdict_validation_error + (string, requirement_decision) btree_map" where
  "index_decision required decisions d =
     (if bt_get decisions (decided_requirement d) \<noteq> None
        then Err (VerdictDuplicateRequirement (decided_requirement d))
      else if decided_requirement d \<notin> set required
        then Err (VerdictUnexpectedRequirement (decided_requirement d))
      else Ok (bt_insert (decided_requirement d) d decisions))"

definition check_required ::
  "arbiter_verdict \<Rightarrow> evidence_id list \<Rightarrow> (string, requirement_decision) btree_map \<Rightarrow> string \<Rightarrow>
     verdict_validation_error + unit" where
  "check_required v available decisions r =
     and_then (ok_or (bt_get decisions r) (VerdictMissingRequirement r)) (\<lambda>d.
     if decided_evidence d = [] then Err (VerdictMissingEvidence r)
     else and_then (validate_evidence VerdictUnknownEvidence (decided_evidence d) available) (\<lambda>_.
       if arbiter_decision v = ArbiterApproved \<and> decided_status d \<noteq> Satisfied
       then Err (VerdictUnmetRequirement r) else Ok ()))"

definition arbiter_conclusion :: "arbiter_verdict \<Rightarrow> verdict_validation_error + unit" where
  "arbiter_conclusion v =
     (case arbiter_decision v of
        ArbiterApproved \<Rightarrow>
          if arbiter_repair v \<noteq> None then Err VerdictApprovalHasRepairTarget
          else if list_ex (\<lambda>f. is_severe (severity f)) (arbiter_findings v)
            then Err VerdictSevereFinding
          else Ok ()
      | ArbiterRejected \<Rightarrow>
          if arbiter_repair v = None then Err VerdictMissingRepairTarget
          else if \<not> (list_ex (\<lambda>d. decided_status d = Unsatisfied) (arbiter_requirements v)
              \<or> arbiter_findings v \<noteq> []) then Err VerdictRejectionWithoutBasis
          else Ok ())"

definition arbiter_validate ::
  "arbiter_verdict \<Rightarrow> string list \<Rightarrow> evidence_id list \<Rightarrow> verdict_validation_error + unit" where
  "arbiter_validate v required available =
     and_then (try_fold (index_decision required) [] (arbiter_requirements v)) (\<lambda>decisions.
     and_then (try_each (check_required v available decisions) required) (\<lambda>_.
     and_then (try_each (\<lambda>f. validate_evidence VerdictUnknownEvidence (finding_evidence f) available)
       (arbiter_findings v)) (\<lambda>_.
     arbiter_conclusion v)))"

section \<open>Reviews (review.rs)\<close>

datatype review_decision = ReviewApproved | ReviewRejected

record review_verdict =
  review_candidate :: content_digest
  review_decision :: review_decision
  review_findings :: "finding list"
  review_repair :: "repair_target option"
  review_requirements :: "requirement_decision list"
  review_role :: workflow_role

datatype review_validation_error =
    ReviewApprovalHasRepairTarget
  | ReviewDuplicateRequirement string
  | ReviewInvalidRole
  | ReviewMissingEvidence string
  | ReviewMissingRepairTarget
  | ReviewMissingRequirement string
  | ReviewRejectionWithoutBasis
  | ReviewSevereFinding
  | ReviewUnexpectedRequirement string
  | ReviewUnknownEvidence evidence_id
  | ReviewUnmetRequirement string

definition review_decide ::
  "string list \<Rightarrow> evidence_id list \<Rightarrow> (string, requirement_decision) btree_map \<Rightarrow>
     requirement_decision \<Rightarrow> review_validation_error + (string, requirement_decision) btree_map" where
  "review_decide required available decisions d =
     (if decided_requirement d \<notin> set required
        then Err (ReviewUnexpectedRequirement (decided_requirement d))
      else if bt_get decisions (decided_requirement d) \<noteq> None
        then Err (ReviewDuplicateRequirement (decided_requirement d))
      else if decided_evidence d = [] then Err (ReviewMissingEvidence (decided_requirement d))
      else and_then (validate_evidence ReviewUnknownEvidence (decided_evidence d) available) (\<lambda>_.
        Ok (bt_insert (decided_requirement d) d decisions)))"

definition review_conclusion :: "review_verdict \<Rightarrow> review_validation_error + unit" where
  "review_conclusion v =
     (case review_decision v of
        ReviewApproved \<Rightarrow>
          if review_repair v \<noteq> None then Err ReviewApprovalHasRepairTarget
          else (case find (\<lambda>d. decided_status d = Unsatisfied) (review_requirements v) of
              Some d \<Rightarrow> Err (ReviewUnmetRequirement (decided_requirement d))
            | None \<Rightarrow>
                if list_ex (\<lambda>f. severity f = Critical \<or> severity f = High) (review_findings v)
                then Err ReviewSevereFinding else Ok ())
      | ReviewRejected \<Rightarrow>
          if review_repair v = None then Err ReviewMissingRepairTarget
          else if review_findings v = []
              \<and> list_all (\<lambda>d. decided_status d = Satisfied) (review_requirements v)
            then Err ReviewRejectionWithoutBasis
          else Ok ())"

definition review_validate ::
  "review_verdict \<Rightarrow> string list \<Rightarrow> evidence_id list \<Rightarrow> review_validation_error + unit" where
  "review_validate v required available =
     (if review_role v \<noteq> FunctionalReviewer \<and> review_role v \<noteq> SecurityArchitectureReviewer
        then Err ReviewInvalidRole
      else and_then (try_fold (review_decide required available) [] (review_requirements v))
        (\<lambda>decisions.
      and_then (try_each (\<lambda>r. ensure (bt_get decisions r \<noteq> None) (ReviewMissingRequirement r))
        required) (\<lambda>_.
      and_then (try_each (\<lambda>f.
          if finding_evidence f = [] then Err (ReviewMissingEvidence ''finding'')
          else validate_evidence ReviewUnknownEvidence (finding_evidence f) available)
        (review_findings v)) (\<lambda>_.
      review_conclusion v))))"

section \<open>What the loops check\<close>

lemma validate_evidence_Ok_iff [simp]:
  "validate_evidence unknown referenced available = Ok u \<longleftrightarrow> set referenced \<subseteq> set available"
proof -
  have "find (\<lambda>i. i \<notin> set available) referenced = None \<longleftrightarrow> set referenced \<subseteq> set available"
    by (auto simp: find_None_iff)
  then show ?thesis
    by (cases "find (\<lambda>i. i \<notin> set available) referenced") (simp_all add: validate_evidence_def)
qed

lemma index_decisions_Ok_iff:
  "try_fold (index_decision required) [] ds = Ok m \<longleftrightarrow>
     (\<forall>d \<in> set ds. decided_requirement d \<in> set required) \<and> distinct (map decided_requirement ds)
     \<and> m = index_by decided_requirement ds []"
  by (subst index_loop_Ok_iff [where key = decided_requirement
        and P = "\<lambda>d. decided_requirement d \<in> set required"])
    (auto simp: index_decision_def bt_get_None_iff [symmetric] simp del: set_map)

lemma review_decisions_Ok_iff:
  "try_fold (review_decide required available) [] ds = Ok m \<longleftrightarrow>
     (\<forall>d \<in> set ds. decided_requirement d \<in> set required \<and> decided_evidence d \<noteq> []
        \<and> set (decided_evidence d) \<subseteq> set available) \<and> distinct (map decided_requirement ds)
     \<and> m = index_by decided_requirement ds []"
  by (subst index_loop_Ok_iff [where key = decided_requirement
        and P = "\<lambda>d. decided_requirement d \<in> set required \<and> decided_evidence d \<noteq> []
          \<and> set (decided_evidence d) \<subseteq> set available"])
    (auto simp: review_decide_def bt_get_None_iff [symmetric] simp del: set_map)

lemma check_required_Ok_iff:
  assumes "distinct (map decided_requirement ds)"
  shows "check_required v available (index_by decided_requirement ds []) r = Ok u \<longleftrightarrow>
     (\<exists>d \<in> set ds. decided_requirement d = r \<and> decided_evidence d \<noteq> []
        \<and> set (decided_evidence d) \<subseteq> set available
        \<and> (arbiter_decision v = ArbiterApproved \<longrightarrow> decided_status d = Satisfied))"
  by (auto simp: check_required_def index_by_get [OF assms] split: if_splits)

section \<open>Properties\<close>

text \<open>What each decision must be based on.\<close>

definition decisions_ok :: "requirement_decision list \<Rightarrow> string list \<Rightarrow> evidence_id list \<Rightarrow> bool" where
  "decisions_ok ds required available \<longleftrightarrow> distinct (map decided_requirement ds)
     \<and> decided_requirement ` set ds = set required
     \<and> (\<forall>d \<in> set ds. decided_evidence d \<noteq> [] \<and> set (decided_evidence d) \<subseteq> set available)"

definition arbiter_ok :: "arbiter_verdict \<Rightarrow> string list \<Rightarrow> evidence_id list \<Rightarrow> bool" where
  "arbiter_ok v required available \<longleftrightarrow> decisions_ok (arbiter_requirements v) required available
     \<and> (\<forall>f \<in> set (arbiter_findings v). set (finding_evidence f) \<subseteq> set available)
     \<and> (case arbiter_decision v of
          ArbiterApproved \<Rightarrow> arbiter_repair v = None
            \<and> (\<forall>d \<in> set (arbiter_requirements v). decided_status d = Satisfied)
            \<and> (\<forall>f \<in> set (arbiter_findings v). severity f \<notin> {Critical, High})
        | ArbiterRejected \<Rightarrow> arbiter_repair v \<noteq> None
            \<and> (arbiter_findings v \<noteq> []
               \<or> (\<exists>d \<in> set (arbiter_requirements v). decided_status d = Unsatisfied)))"

lemma arbiter_conclusion_Ok_iff:
  "arbiter_conclusion v = Ok u \<longleftrightarrow>
     (case arbiter_decision v of
        ArbiterApproved \<Rightarrow> arbiter_repair v = None
          \<and> (\<forall>f \<in> set (arbiter_findings v). severity f \<notin> {Critical, High})
      | ArbiterRejected \<Rightarrow> arbiter_repair v \<noteq> None
          \<and> (arbiter_findings v \<noteq> []
             \<or> (\<exists>d \<in> set (arbiter_requirements v). decided_status d = Unsatisfied)))"
  by (auto simp: arbiter_conclusion_def list_ex_iff split: arbiter_decision.splits)

lemma arbiter_loops_Ok_iff:
  "(\<exists>m. try_fold (index_decision required) [] (arbiter_requirements v) = Ok m
      \<and> (\<forall>r \<in> set required. check_required v available m r = Ok ())) \<longleftrightarrow>
     decisions_ok (arbiter_requirements v) required available
     \<and> (arbiter_decision v = ArbiterApproved \<longrightarrow>
         (\<forall>d \<in> set (arbiter_requirements v). decided_status d = Satisfied))"
proof (cases "distinct (map decided_requirement (arbiter_requirements v))")
  case True
  then have inj: "inj_on decided_requirement (set (arbiter_requirements v))"
    by (simp add: distinct_map)
  let ?Q = "\<lambda>d. decided_evidence d \<noteq> [] \<and> set (decided_evidence d) \<subseteq> set available
     \<and> (arbiter_decision v = ArbiterApproved \<longrightarrow> decided_status d = Satisfied)"
  have "(\<exists>m. try_fold (index_decision required) [] (arbiter_requirements v) = Ok m
      \<and> (\<forall>r \<in> set required. check_required v available m r = Ok ())) \<longleftrightarrow>
      (\<forall>d \<in> set (arbiter_requirements v). decided_requirement d \<in> set required)
      \<and> (\<forall>r \<in> set required. \<exists>d \<in> set (arbiter_requirements v). decided_requirement d = r \<and> ?Q d)"
    using True by (simp add: index_decisions_Ok_iff check_required_Ok_iff [OF True])
  also have "\<dots> \<longleftrightarrow> decided_requirement ` set (arbiter_requirements v) = set required
      \<and> (\<forall>d \<in> set (arbiter_requirements v). ?Q d)"
    by (rule keys_cover_iff [OF inj])
  also have "\<dots> \<longleftrightarrow> decisions_ok (arbiter_requirements v) required available
     \<and> (arbiter_decision v = ArbiterApproved \<longrightarrow>
         (\<forall>d \<in> set (arbiter_requirements v). decided_status d = Satisfied))"
    using True unfolding decisions_ok_def by blast
  finally show ?thesis .
qed (auto simp: index_decisions_Ok_iff decisions_ok_def)

lemma arbiter_validate_parts:
  "arbiter_validate v required available = Ok () \<longleftrightarrow>
      (decisions_ok (arbiter_requirements v) required available
       \<and> (arbiter_decision v = ArbiterApproved \<longrightarrow>
           (\<forall>d \<in> set (arbiter_requirements v). decided_status d = Satisfied)))
      \<and> (\<forall>f \<in> set (arbiter_findings v). set (finding_evidence f) \<subseteq> set available)
      \<and> arbiter_conclusion v = Ok ()"
  unfolding arbiter_loops_Ok_iff [symmetric] by (auto simp: arbiter_validate_def)

text \<open>
  C21. An arbiter verdict validates exactly when it decides every required requirement once and no
  other, bases each decision on some evidence, names only available evidence, and concludes
  consistently: an approval has every requirement satisfied, no severe finding and no repair
  target; a rejection has a repair target and an unmet requirement or a finding.
\<close>

theorem arbiter_validate_iff:
  "arbiter_validate v required available = Ok () \<longleftrightarrow> arbiter_ok v required available"
  unfolding arbiter_validate_parts arbiter_conclusion_Ok_iff arbiter_ok_def
  by (auto split: arbiter_decision.splits)

text \<open>A review read as the verdict an arbiter would give.\<close>

definition as_arbiter :: "review_verdict \<Rightarrow> arbiter_verdict" where
  "as_arbiter v = \<lparr>arbiter_decision =
       (case review_decision v of ReviewApproved \<Rightarrow> ArbiterApproved | ReviewRejected \<Rightarrow> ArbiterRejected),
     arbiter_candidate = review_candidate v, arbiter_requirements = review_requirements v,
     arbiter_findings = review_findings v, arbiter_repair = review_repair v\<rparr>"

lemma review_conclusion_Ok_iff:
  "review_conclusion v = Ok u \<longleftrightarrow>
     (case review_decision v of
        ReviewApproved \<Rightarrow> review_repair v = None
          \<and> (\<forall>d \<in> set (review_requirements v). decided_status d = Satisfied)
          \<and> (\<forall>f \<in> set (review_findings v). severity f \<notin> {Critical, High})
      | ReviewRejected \<Rightarrow> review_repair v \<noteq> None
          \<and> (review_findings v \<noteq> []
             \<or> (\<exists>d \<in> set (review_requirements v). decided_status d = Unsatisfied)))"
proof -
  have status: "s \<noteq> Satisfied \<longleftrightarrow> s = Unsatisfied" for s by (cases s) simp_all
  have none: "find (\<lambda>d. decided_status d = Unsatisfied) (review_requirements v) = None \<longleftrightarrow>
      (\<forall>d \<in> set (review_requirements v). decided_status d = Satisfied)"
    using status by (auto simp: find_None_iff)
  show ?thesis
  proof (cases "review_decision v")
    case ReviewApproved
    with none show ?thesis
      by (cases "find (\<lambda>d. decided_status d = Unsatisfied) (review_requirements v)")
        (auto simp: review_conclusion_def list_ex_iff)
  next
    case ReviewRejected
    with status show ?thesis
      by (auto simp: review_conclusion_def list_all_iff)
  qed
qed

text \<open>
  C38. Reviews are held to the arbiter's rules and two more: a review validates exactly when it
  comes from one of the two reviewing roles, every finding names some evidence, and the same
  content validates as an arbiter verdict.
\<close>

theorem review_validate_iff_arbiter:
  "review_validate v required available = Ok () \<longleftrightarrow>
     review_role v \<in> {FunctionalReviewer, SecurityArchitectureReviewer}
     \<and> [] \<notin> finding_evidence ` set (review_findings v)
     \<and> arbiter_validate (as_arbiter v) required available = Ok ()"
proof -
  let ?ds = "review_requirements v"
  have missing: "(\<forall>r \<in> set required. bt_get (index_by decided_requirement ?ds []) r \<noteq> None) \<longleftrightarrow>
      set required \<subseteq> decided_requirement ` set ?ds" if "distinct (map decided_requirement ?ds)"
    using index_by_get_None [OF that] by blast
  have loops: "(\<exists>m. try_fold (review_decide required available) [] ?ds = Ok m
      \<and> (\<forall>r \<in> set required. bt_get m r \<noteq> None)) \<longleftrightarrow> decisions_ok ?ds required available"
  proof (cases "distinct (map decided_requirement ?ds)")
    case True
    have "(\<exists>m. try_fold (review_decide required available) [] ?ds = Ok m
        \<and> (\<forall>r \<in> set required. bt_get m r \<noteq> None)) \<longleftrightarrow>
        (\<forall>d \<in> set ?ds. decided_requirement d \<in> set required \<and> decided_evidence d \<noteq> []
          \<and> set (decided_evidence d) \<subseteq> set available)
        \<and> set required \<subseteq> decided_requirement ` set ?ds"
      unfolding review_decisions_Ok_iff missing [OF True, symmetric] using True by simp
    then show ?thesis using True unfolding decisions_ok_def by auto
  qed (simp add: review_decisions_Ok_iff decisions_ok_def)
  have "review_validate v required available = Ok () \<longleftrightarrow>
      review_role v \<in> {FunctionalReviewer, SecurityArchitectureReviewer}
      \<and> (\<exists>m. try_fold (review_decide required available) [] ?ds = Ok m
          \<and> (\<forall>r \<in> set required. bt_get m r \<noteq> None))
      \<and> (\<forall>f \<in> set (review_findings v). finding_evidence f \<noteq> []
          \<and> set (finding_evidence f) \<subseteq> set available)
      \<and> review_conclusion v = Ok ()"
    by (auto simp: review_validate_def split: if_splits)
  moreover have "arbiter_validate (as_arbiter v) required available = Ok () \<longleftrightarrow>
      decisions_ok ?ds required available
      \<and> (\<forall>f \<in> set (review_findings v). set (finding_evidence f) \<subseteq> set available)
      \<and> review_conclusion v = Ok ()"
    unfolding review_conclusion_Ok_iff arbiter_validate_parts arbiter_conclusion_Ok_iff
    by (auto simp: as_arbiter_def split: review_decision.splits)
  moreover have "[] \<notin> finding_evidence ` set (review_findings v) \<longleftrightarrow>
      (\<forall>f \<in> set (review_findings v). finding_evidence f \<noteq> [])"
    by (metis image_iff)
  ultimately show ?thesis unfolding loops by blast
qed

end
