(* ===== verification/Ledger_Event.thy ===== *)
theory Ledger_Event
  imports Ordered_Map Cycle_Digest
begin

text \<open>
  Ledger events and their redaction: \<open>redaction.rs\<close> and \<open>event.rs\<close> of \<open>crates/workflow-ledger\<close>.
  Event identifiers are random and come in as an argument.  \<open>Path::components\<close> is modelled with
  its behaviour on Unix.
\<close>

section \<open>Searching texts\<close>

fun contains_str :: "string \<Rightarrow> string \<Rightarrow> bool" where
  "contains_str needle [] \<longleftrightarrow> needle = []"
| "contains_str needle (c # s) \<longleftrightarrow> prefix needle (c # s) \<or> contains_str needle s"

text \<open>\<open>match_indices\<close>: the text from each match on, matches not overlapping.\<close>

function match_tails :: "string \<Rightarrow> string \<Rightarrow> string list" where
  "match_tails needle s =
     (if s = [] \<or> needle = [] then []
      else if prefix needle s then s # match_tails needle (drop (length needle) s)
      else match_tails needle (tl s))"
  by pat_completeness auto
termination
  by (relation "measure (\<lambda>(_, s). length s)") auto

declare match_tails.simps [simp del]

text \<open>The text up to the first white space, quote, comma or semicolon.\<close>

fun token_piece :: "string \<Rightarrow> string" where
  "token_piece [] = []"
| "token_piece (c # s) =
     (if list_ex (\<lambda>w. prefix w (c # s)) white_space
        \<or> c \<in> {CHR 0x27, CHR 0x22, CHR '','', CHR '';''}
      then [] else c # token_piece s)"

section \<open>Sensitive values (redaction.rs)\<close>

definition contains_token_prefix :: "string \<Rightarrow> string \<Rightarrow> nat \<Rightarrow> bool" where
  "contains_token_prefix value pre minimum =
     list_ex (\<lambda>t. minimum \<le> length (token_piece t)) (match_tails pre (to_ascii_lowercase value))"

fun after_scheme :: "string \<Rightarrow> string option" where
  "after_scheme [] = None"
| "after_scheme (c # s) =
     (if prefix ''://'' (c # s) then Some (drop 3 (c # s)) else after_scheme s)"

definition has_url_credentials :: "string \<Rightarrow> bool" where
  "has_url_credentials value =
     (case after_scheme value of
        None \<Rightarrow> False
      | Some rest \<Rightarrow>
          let authority = takeWhile (\<lambda>c. c \<notin> {CHR ''/'', CHR ''?'', CHR 0x23}) rest
          in CHR '':'' \<in> set authority \<and> CHR 0x40 \<in> set authority)"

definition sensitive_value :: "string \<Rightarrow> bool" where
  "sensitive_value value =
     (let trimmed = trim value; lower = to_ascii_lowercase trimmed in
      contains_str ''bearer '' lower
      \<or> contains_str ''-----begin private key-----'' lower
      \<or> contains_str ''-----begin rsa private key-----'' lower
      \<or> contains_token_prefix trimmed ''sk-'' 12
      \<or> contains_token_prefix trimmed ''ghp_'' 12
      \<or> contains_token_prefix trimmed ''github_pat_'' 12
      \<or> contains_token_prefix trimmed ''akia'' 16
      \<or> has_url_credentials trimmed)"

section \<open>The redactor\<close>

record redactor =
  sensitive_keys :: "string list"

definition default_keys :: "string list" where
  "default_keys = [''api_key'', ''authorization'', ''cookie'', ''password'', ''secret'', ''token'']"

definition redactor_new :: "string list \<Rightarrow> redactor" where
  "redactor_new keys =
     \<lparr>sensitive_keys = fold bs_insert (map to_ascii_lowercase keys) default_keys\<rparr>"

definition redacted_text :: string where "redacted_text = ''[REDACTED]''"

definition redact_value :: "string \<Rightarrow> string" where
  "redact_value value = (if sensitive_value value then redacted_text else value)"

definition is_sensitive_key :: "redactor \<Rightarrow> string \<Rightarrow> bool" where
  "is_sensitive_key r key =
     list_ex (\<lambda>k. contains_str k (to_ascii_lowercase key)) (sensitive_keys r)"

definition redact_metadata ::
  "redactor \<Rightarrow> (string, string) btree_map \<Rightarrow> (string, string) btree_map" where
  "redact_metadata r metadata =
     map (\<lambda>(key, value). (key, if is_sensitive_key r key \<or> sensitive_value value
        then redacted_text else value)) metadata"

section \<open>Events (event.rs)\<close>

record model_identity =
  model_name :: string
  model_provider :: string

record actor =
  actor_id :: string
  actor_model :: "model_identity option"
  actor_role :: "workflow_role option"
  actor_session :: "string option"

datatype event_data =
    WorkflowData string
  | ToolData string string
  | PermissionData string string
  | GitData bool string
  | VerificationData string string

record ledger_event =
  event_actor :: actor
  event_candidate :: "candidate_id option"
  event_data :: event_data
  event_id :: event_id
  event_evidence :: "evidence_id list"
  event_files :: "string list"
  event_metadata :: "(string, string) btree_map"
  event_project :: project_id
  event_task :: "task_id option"
  event_timestamp :: workflow_timestamp
  event_workflow :: "workflow_id option"

datatype event_error = EmptyActor | EmptyData | UnsafePath

definition redact_actor :: "actor \<Rightarrow> actor" where
  "redact_actor a =
     a\<lparr>actor_id := redact_value (actor_id a),
       actor_model := map_option (\<lambda>m. m\<lparr>model_name := redact_value (model_name m),
         model_provider := redact_value (model_provider m)\<rparr>) (actor_model a)\<rparr>"

fun redact_data :: "event_data \<Rightarrow> event_data" where
  "redact_data (WorkflowData action) = WorkflowData (redact_value action)"
| "redact_data (ToolData digest tool) = ToolData digest (redact_value tool)"
| "redact_data (PermissionData decision permission) =
     PermissionData (redact_value decision) (redact_value permission)"
| "redact_data (GitData external revision) = GitData external (redact_value revision)"
| "redact_data (VerificationData gate status) =
     VerificationData (redact_value gate) (redact_value status)"

fun data_fields :: "event_data \<Rightarrow> string list" where
  "data_fields (WorkflowData action) = [action]"
| "data_fields (ToolData digest tool) = [digest, tool]"
| "data_fields (PermissionData decision permission) = [decision, permission]"
| "data_fields (GitData external revision) = [revision]"
| "data_fields (VerificationData gate status) = [gate, status]"

definition validate_data :: "event_data \<Rightarrow> event_error + unit" where
  "validate_data data = (if list_ex blank (data_fields data) then Err EmptyData else Ok ())"

datatype path_component = RootDir | CurDir | ParentDir | NormalComponent string

definition path_components :: "string \<Rightarrow> path_component list" where
  "path_components value =
     (let segments = split_on (CHR ''/'') value in
      (if prefix ''/'' value then [RootDir] else if hd segments = ''.'' then [CurDir] else [])
      @ map (\<lambda>s. if s = ''..'' then ParentDir else NormalComponent s)
          (filter (\<lambda>s. s \<noteq> [] \<and> s \<noteq> ''.'') segments))"

fun is_normal :: "path_component \<Rightarrow> bool" where
  "is_normal (NormalComponent _) = True"
| "is_normal _ = False"

definition safe_relative_path :: "string \<Rightarrow> bool" where
  "safe_relative_path value \<longleftrightarrow>
     value \<noteq> [] \<and> \<not> prefix ''/'' value \<and> list_all is_normal (path_components value)"

definition ledger_event_new ::
  "event_id \<Rightarrow> actor \<Rightarrow> candidate_id option \<Rightarrow> event_data \<Rightarrow> evidence_id list \<Rightarrow> string list \<Rightarrow>
     (string, string) btree_map \<Rightarrow> project_id \<Rightarrow> task_id option \<Rightarrow> workflow_timestamp \<Rightarrow>
     workflow_id option \<Rightarrow> redactor \<Rightarrow> event_error + ledger_event" where
  "ledger_event_new eid actor candidate data evidence paths metadata project task timestamp
     workflow redactor =
     (if blank (actor_id actor) then Err EmptyActor
      else and_then (validate_data data) (\<lambda>_.
        let fs = fold bs_insert (map redact_value paths) [] in
        if list_ex (\<lambda>path. \<not> safe_relative_path path) fs then Err UnsafePath
        else Ok \<lparr>event_actor = redact_actor actor, event_candidate = candidate,
          event_data = redact_data data, event_id = eid,
          event_evidence = fold bs_insert evidence [], event_files = fs,
          event_metadata = redact_metadata redactor metadata, event_project = project,
          event_task = task, event_timestamp = timestamp, event_workflow = workflow\<rparr>))"

section \<open>Redaction leaves nothing sensitive\<close>

lemma redacted_text_clean: "\<not> sensitive_value redacted_text"
  unfolding redacted_text_def by code_simp

lemma redact_value_clean: "\<not> sensitive_value (redact_value v)"
  by (simp add: redact_value_def redacted_text_clean)

lemma redact_value_id: "\<not> sensitive_value v \<Longrightarrow> redact_value v = v"
  by (simp add: redact_value_def)

lemma redact_metadata_clean:
  "(k, v) \<in> set (redact_metadata r m) \<Longrightarrow>
     \<not> sensitive_value v \<and> (is_sensitive_key r k \<longrightarrow> v = redacted_text)"
  by (auto simp: redact_metadata_def redacted_text_clean split: if_splits)

lemma redact_metadata_idem: "redact_metadata r (redact_metadata r m) = redact_metadata r m"
  by (auto simp: redact_metadata_def)

lemma redact_value_idem: "redact_value (redact_value v) = redact_value v"
  by (rule redact_value_id) (rule redact_value_clean)

lemma redact_actor_idem: "redact_actor (redact_actor a) = redact_actor a"
  by (simp add: redact_actor_def redact_value_idem option.map_comp comp_def)

lemma redact_data_idem: "redact_data (redact_data d) = redact_data d"
  by (cases d) (simp_all add: redact_value_idem)

lemma data_fields_clean:
  "v \<in> set (data_fields (redact_data d)) \<Longrightarrow> (\<forall>tool. d \<noteq> ToolData v tool) \<Longrightarrow> \<not> sensitive_value v"
  by (cases d) (auto simp: redact_value_clean)

text \<open>A path made of normal components stays inside the directory it starts from.\<close>

lemma resolve_normal:
  "list_all (\<lambda>s. s \<noteq> ''..'') segs \<Longrightarrow> resolve stack segs \<noteq> None"
  by (induction stack segs rule: resolve.induct) auto

lemma safe_relative_path_resolves:
  assumes "safe_relative_path p"
  shows "resolve [] (split_on (CHR ''/'') p) \<noteq> None"
proof (rule resolve_normal, unfold list_all_iff, intro ballI notI)
  fix s
  assume s: "s \<in> set (split_on (CHR ''/'') p)" and "s = ''..''"
  then have "ParentDir \<in> set (path_components p)" by (auto simp: path_components_def Let_def)
  with assms show False by (auto simp: safe_relative_path_def list_all_iff)
qed

lemma event_files_set:
  "bs_wf acc \<Longrightarrow> set (fold bs_insert xs acc) = set xs \<union> set acc \<and> bs_wf (fold bs_insert xs acc)"
  by (induction xs arbitrary: acc) (auto simp: set_insort_insert bs_wf_insert)

section \<open>Properties\<close>

text \<open>
  C35. What passes the redactor on its way into an event is clean: nothing it calls sensitive is left in
  the actor's name, in its model, in the texts of the payload other than the digest of a tool call, in
  the metadata values or in the files, and a metadata value under a sensitive key is the placeholder.
  Redacting these parts again changes nothing, and every file the event names resolves inside the
  project.  Two texts do not pass the redactor and are recorded as they come: the actor's session and
  the digest of a tool call.
\<close>

theorem recorded_event_is_redacted:
  assumes "ledger_event_new eid actor candidate data evidence paths metadata project task timestamp
     workflow redactor = Ok e"
  shows "\<not> sensitive_value (actor_id (event_actor e))
     \<and> (\<forall>m. actor_model (event_actor e) = Some m \<longrightarrow>
          \<not> sensitive_value (model_name m) \<and> \<not> sensitive_value (model_provider m))
     \<and> (\<forall>v \<in> set (data_fields (event_data e)). (\<forall>tool. data \<noteq> ToolData v tool) \<longrightarrow> \<not> sensitive_value v)
     \<and> actor_session (event_actor e) = actor_session actor
     \<and> (\<forall>digest tool. data = ToolData digest tool \<longrightarrow> event_data e = ToolData digest (redact_value tool))
     \<and> (\<forall>(k, v) \<in> set (event_metadata e).
          \<not> sensitive_value v \<and> (is_sensitive_key redactor k \<longrightarrow> v = redacted_text))
     \<and> (\<forall>f \<in> set (event_files e). \<not> sensitive_value f \<and> resolve [] (split_on (CHR ''/'') f) \<noteq> None)
     \<and> redact_actor (event_actor e) = event_actor e \<and> redact_data (event_data e) = event_data e
     \<and> redact_metadata redactor (event_metadata e) = event_metadata e"
proof -
  let ?fs = "fold bs_insert (map redact_value paths) []"
  from assms have e: "event_actor e = redact_actor actor" "event_data e = redact_data data"
    "event_metadata e = redact_metadata redactor metadata" "event_files e = ?fs"
    and safe: "list_all safe_relative_path ?fs"
    by (auto simp: ledger_event_new_def Let_def list_ex_iff list_all_iff split: if_splits)
  have "set ?fs = redact_value ` set paths" by (simp add: event_files_set)
  then have "\<forall>f \<in> set ?fs. \<not> sensitive_value f" by (auto simp: redact_value_clean)
  moreover have "\<forall>f \<in> set ?fs. resolve [] (split_on (CHR ''/'') f) \<noteq> None"
    using safe by (simp add: list_all_iff safe_relative_path_resolves)
  moreover have "\<forall>(k, v) \<in> set (redact_metadata redactor metadata).
      \<not> sensitive_value v \<and> (is_sensitive_key redactor k \<longrightarrow> v = redacted_text)"
    using redact_metadata_clean by blast
  moreover have "\<forall>v \<in> set (data_fields (redact_data data)). (\<forall>tool. data \<noteq> ToolData v tool) \<longrightarrow> \<not> sensitive_value v"
    using data_fields_clean by blast
  moreover have "actor_session (redact_actor actor) = actor_session actor"
    by (simp add: redact_actor_def)
  moreover have "\<not> sensitive_value (actor_id (redact_actor actor))"
    "\<forall>m. actor_model (redact_actor actor) = Some m \<longrightarrow>
        \<not> sensitive_value (model_name m) \<and> \<not> sensitive_value (model_provider m)"
    by (auto simp: redact_actor_def redact_value_clean)
  ultimately show ?thesis
    unfolding e by (simp add: redact_actor_idem redact_data_idem redact_metadata_idem)
qed

definition sample_actor :: actor where
  "sample_actor = \<lparr>actor_id = ''agent'', actor_model = None, actor_role = Some Executor,
     actor_session = None\<rparr>"

definition sample_event :: "event_error + ledger_event" where
  "sample_event = ledger_event_new (Id 1) sample_actor None
     (WorkflowData ''use sk-0123456789abcdef now'') [] [''src/lib.rs''] [(''api_token'', ''abc'')]
     (Id 2) None 0 None (redactor_new [])"

theorem recorded_event_is_redacted_witness:
  "\<exists>e. sample_event = Ok e \<and> event_data e = WorkflowData redacted_text
     \<and> event_metadata e = [(''api_token'', redacted_text)]
     \<and> (\<forall>v \<in> set (data_fields (event_data e)). \<not> sensitive_value v)"
proof -
  define e where "e = \<lparr>event_actor = sample_actor, event_candidate = None,
     event_data = WorkflowData redacted_text, event_id = Id 1, event_evidence = [],
     event_files = [''src/lib.rs''], event_metadata = [(''api_token'', redacted_text)],
     event_project = Id 2, event_task = None, event_timestamp = 0, event_workflow = None\<rparr>"
  have "sample_event = Ok e" unfolding e_def by code_simp
  with recorded_event_is_redacted [of "Id 1" sample_actor None
      "WorkflowData ''use sk-0123456789abcdef now''" "[]" "[''src/lib.rs'']"
      "[(''api_token'', ''abc'')]" "Id 2" None 0 None "redactor_new []" e]
  show ?thesis by (auto simp: sample_event_def e_def)
qed

text \<open>So a token that came in as the name of the session is recorded in the clear.\<close>

theorem session_is_not_redacted:
  "sensitive_value ''sk-0123456789abcdef''
   \<and> map_err (\<lambda>_. ()) (and_then (ledger_event_new (Id 1) (sample_actor\<lparr>actor_session := Some ''sk-0123456789abcdef''\<rparr>)
       None (WorkflowData ''x'') [] [] [] (Id 2) None 0 None (redactor_new [])) (\<lambda>e. Ok (actor_session (event_actor e))))
     = Ok (Some ''sk-0123456789abcdef'')"
  by code_simp

end
