(* ===== verification/Ledger_Chain.thy ===== *)
theory Ledger_Chain
  imports Ledger_Event
begin

text \<open>
  The hash chain, its signed checkpoints and the history query: \<open>chain.rs\<close>, \<open>checkpoint.rs\<close> and
  \<open>query.rs\<close> of \<open>crates/workflow-ledger\<close>.  SHA-256 (\<open>sha\<close>), the JSON encoder of an event (\<open>json\<close>),
  the RFC 3339 text of an instant (\<open>rfc3339\<close>) and Ed25519 are arguments.
\<close>

section \<open>Entries\<close>

record ledger_entry =
  entry_event :: ledger_event
  entry_hash :: content_digest
  previous_hash :: "content_digest option"
  entry_sequence :: u64

datatype 'e ledger_error = Capacity | LockPoisoned | Serialization 'e

definition entry_domain :: string where
  "entry_domain = ''opencode-workflow-ledger-entry-v1''"

text \<open>The bytes that are hashed for an entry.\<close>

definition entry_input :: "u64 \<Rightarrow> content_digest option \<Rightarrow> byte list \<Rightarrow> byte list" where
  "entry_input sequence previous event =
     as_bytes entry_domain @ be_u64 sequence
     @ (case previous of Some hash \<Rightarrow> 1 # digest_bytes hash | None \<Rightarrow> [0])
     @ be_u64 (of_nat (length event)) @ event"

definition calculate_hash ::
  "(byte list \<Rightarrow> content_digest) \<Rightarrow> (ledger_event \<Rightarrow> 'e + byte list) \<Rightarrow> u64 \<Rightarrow>
     content_digest option \<Rightarrow> ledger_event \<Rightarrow> 'e ledger_error + content_digest" where
  "calculate_hash sha json sequence previous event =
     and_then (map_err Serialization (json event)) (\<lambda>bytes.
     if \<not> fits bytes then Err Capacity else Ok (sha (entry_input sequence previous bytes)))"

definition entry_new ::
  "(byte list \<Rightarrow> content_digest) \<Rightarrow> (ledger_event \<Rightarrow> 'e + byte list) \<Rightarrow> u64 \<Rightarrow>
     content_digest option \<Rightarrow> ledger_event \<Rightarrow> 'e ledger_error + ledger_entry" where
  "entry_new sha json sequence previous event =
     and_then (calculate_hash sha json sequence previous event) (\<lambda>hash.
     Ok \<lparr>entry_event = event, entry_hash = hash, previous_hash = previous,
         entry_sequence = sequence\<rparr>)"

section \<open>The chain\<close>

record ledger_chain =
  entries :: "ledger_entry list"

definition chain_head :: "ledger_chain \<Rightarrow> content_digest option" where
  "chain_head c = (if entries c = [] then None else Some (entry_hash (last (entries c))))"

definition chain_append ::
  "(byte list \<Rightarrow> content_digest) \<Rightarrow> (ledger_event \<Rightarrow> 'e + byte list) \<Rightarrow> ledger_chain \<Rightarrow>
     ledger_event \<Rightarrow> ledger_chain \<times> ('e ledger_error + ledger_entry)" where
  "chain_append sha json c event =
     (if \<not> fits (entries c) then (c, Err Capacity)
      else case entry_new sha json (of_nat (length (entries c))) (chain_head c) event of
             Inl e \<Rightarrow> (c, Err e)
           | Inr entry \<Rightarrow> (c\<lparr>entries := entries c @ [entry]\<rparr>, Ok entry))"

datatype chain_failure = EntryHash | PreviousHash | Sequence

datatype chain_verification =
    Valid nat "content_digest option"
  | Broken chain_failure u64
  | HeadMismatch "content_digest option" "content_digest option"

text \<open>The loop of \<open>verify\<close>: the failure it stops at, or the hash of the last entry.\<close>

fun verify_entries ::
  "(byte list \<Rightarrow> content_digest) \<Rightarrow> (ledger_event \<Rightarrow> 'e + byte list) \<Rightarrow> nat \<Rightarrow>
     content_digest option \<Rightarrow> ledger_entry list \<Rightarrow>
     (chain_failure \<times> u64) + content_digest option" where
  "verify_entries sha json index previous [] = Ok previous"
| "verify_entries sha json index previous (entry # rest) =
     (if index \<ge> 2 ^ 64 then Err (Sequence, - 1)
      else if entry_sequence entry \<noteq> of_nat index then Err (Sequence, of_nat index)
      else if previous_hash entry \<noteq> previous then Err (PreviousHash, of_nat index)
      else case calculate_hash sha json (of_nat index) previous (entry_event entry) of
             Inl _ \<Rightarrow> Err (EntryHash, of_nat index)
           | Inr hash \<Rightarrow>
               if hash = entry_hash entry
               then verify_entries sha json (Suc index) (Some hash) rest
               else Err (EntryHash, of_nat index))"

definition chain_verify ::
  "(byte list \<Rightarrow> content_digest) \<Rightarrow> (ledger_event \<Rightarrow> 'e + byte list) \<Rightarrow> ledger_chain \<Rightarrow>
     content_digest option \<Rightarrow> chain_verification" where
  "chain_verify sha json c expected =
     (case verify_entries sha json 0 None (entries c) of
        Inl (reason, sequence) \<Rightarrow> Broken reason sequence
      | Inr head \<Rightarrow>
          if expected \<noteq> None \<and> expected \<noteq> head then HeadMismatch head expected
          else Valid (length (entries c)) head)"

text \<open>\<open>LedgerWriter\<close>: the chain behind a lock that a panicking holder poisons.\<close>

record ledger_writer =
  writer_chain :: ledger_chain
  poisoned :: bool

definition writer_append ::
  "(byte list \<Rightarrow> content_digest) \<Rightarrow> (ledger_event \<Rightarrow> 'e + byte list) \<Rightarrow> ledger_writer \<Rightarrow>
     ledger_event \<Rightarrow> ledger_writer \<times> ('e ledger_error + ledger_entry)" where
  "writer_append sha json w event =
     (if poisoned w then (w, Err LockPoisoned)
      else case chain_append sha json (writer_chain w) event of
             (c, result) \<Rightarrow> (w\<lparr>writer_chain := c\<rparr>, result))"

definition writer_snapshot :: "ledger_writer \<Rightarrow> 'e ledger_error + ledger_chain" where
  "writer_snapshot w = (if poisoned w then Err LockPoisoned else Ok (writer_chain w))"

section \<open>Checkpoints\<close>

record checkpoint =
  checkpoint_head :: content_digest
  checkpoint_public_key :: "byte list"
  checkpoint_sequence :: u64
  checkpoint_signature :: "byte list"
  signed_at :: workflow_timestamp

datatype checkpoint_verification =
    CheckpointHeadMismatch
  | InvalidPublicKey
  | InvalidSignature
  | MissingKey
  | CheckpointValid
  | WrongKey

definition checkpoint_domain :: string where
  "checkpoint_domain = ''opencode-workflow-ledger-checkpoint-v1''"

definition signature_message ::
  "(workflow_timestamp \<Rightarrow> string) \<Rightarrow> u64 \<Rightarrow> content_digest \<Rightarrow> workflow_timestamp \<Rightarrow> byte list \<Rightarrow>
     byte list" where
  "signature_message rfc3339 sequence head at public =
     as_bytes checkpoint_domain @ be_u64 sequence @ digest_bytes head @ public
     @ as_bytes (rfc3339 at)"

text \<open>A key is its public bytes and its signing function.\<close>

record checkpoint_key =
  public_bytes :: "byte list"
  sign_with :: "byte list \<Rightarrow> byte list"

definition checkpoint_sign ::
  "(workflow_timestamp \<Rightarrow> string) \<Rightarrow> u64 \<Rightarrow> content_digest \<Rightarrow> workflow_timestamp \<Rightarrow> checkpoint_key \<Rightarrow>
     checkpoint" where
  "checkpoint_sign rfc3339 sequence head at key =
     \<lparr>checkpoint_head = head, checkpoint_public_key = public_bytes key,
      checkpoint_sequence = sequence,
      checkpoint_signature = sign_with key (signature_message rfc3339 sequence head at (public_bytes key)),
      signed_at = at\<rparr>"

text \<open>
  \<open>strict public message signature\<close> is \<open>VerifyingKey::verify_strict\<close>; a signature has 64 bytes.
\<close>

definition checkpoint_verify ::
  "(workflow_timestamp \<Rightarrow> string) \<Rightarrow> (byte list \<Rightarrow> byte list \<Rightarrow> byte list \<Rightarrow> bool) \<Rightarrow> checkpoint \<Rightarrow>
     byte list option \<Rightarrow> (u64 \<times> content_digest) option \<Rightarrow> checkpoint_verification" where
  "checkpoint_verify rfc3339 strict c key head =
     (if head \<noteq> Some (checkpoint_sequence c, checkpoint_head c) then CheckpointHeadMismatch
      else case key of
        None \<Rightarrow> MissingKey
      | Some key \<Rightarrow>
          if key \<noteq> checkpoint_public_key c then WrongKey
          else if length (checkpoint_signature c) \<noteq> 64 then InvalidSignature
          else if strict key (signature_message rfc3339 (checkpoint_sequence c) (checkpoint_head c)
              (signed_at c) (checkpoint_public_key c)) (checkpoint_signature c)
            then CheckpointValid else InvalidSignature)"

text \<open>\<open>is_key\<close> is \<open>VerifyingKey::from_bytes\<close>: whether 32 bytes are a point of the curve.\<close>

definition checkpoint_verify_embedded ::
  "(workflow_timestamp \<Rightarrow> string) \<Rightarrow> (byte list \<Rightarrow> byte list \<Rightarrow> byte list \<Rightarrow> bool) \<Rightarrow>
     (byte list \<Rightarrow> bool) \<Rightarrow> checkpoint \<Rightarrow> (u64 \<times> content_digest) option \<Rightarrow>
     checkpoint_verification" where
  "checkpoint_verify_embedded rfc3339 strict is_key c head =
     (if is_key (checkpoint_public_key c)
      then checkpoint_verify rfc3339 strict c (Some (checkpoint_public_key c)) head
      else InvalidPublicKey)"

section \<open>The history query\<close>

definition max_page_size :: nat where "max_page_size = 1000"

record history_filter =
  filter_actor :: "string option"
  filter_candidate :: "candidate_id option"
  filter_file :: "string option"
  filter_from :: "workflow_timestamp option"
  filter_project :: "project_id option"
  filter_role :: "workflow_role option"
  filter_task :: "task_id option"
  filter_to :: "workflow_timestamp option"
  filter_workflow :: "workflow_id option"

text \<open>\<open>Option::is_none_or\<close>.\<close>

definition none_or :: "'a option \<Rightarrow> ('a \<Rightarrow> bool) \<Rightarrow> bool" where
  "none_or x p = (case x of None \<Rightarrow> True | Some a \<Rightarrow> p a)"

definition history_matches :: "history_filter \<Rightarrow> ledger_entry \<Rightarrow> bool" where
  "history_matches f entry \<longleftrightarrow>
     (let event = entry_event entry in
      none_or (filter_actor f) (\<lambda>a. actor_id (event_actor event) = a)
      \<and> none_or (filter_candidate f) (\<lambda>c. event_candidate event = Some c)
      \<and> none_or (filter_file f) (\<lambda>p. p \<in> set (event_files event))
      \<and> none_or (filter_from f) (\<lambda>t. event_timestamp event \<ge> t)
      \<and> none_or (filter_project f) (\<lambda>p. event_project event = p)
      \<and> none_or (filter_role f) (\<lambda>r. actor_role (event_actor event) = Some r)
      \<and> none_or (filter_task f) (\<lambda>t. event_task event = Some t)
      \<and> none_or (filter_to f) (\<lambda>t. event_timestamp event \<le> t)
      \<and> none_or (filter_workflow f) (\<lambda>w. event_workflow event = Some w))"

record history_page =
  page_entries :: "ledger_entry list"
  next_sequence :: "u64 option"

definition history_query ::
  "ledger_chain \<Rightarrow> history_filter \<Rightarrow> u64 option \<Rightarrow> nat \<Rightarrow> history_page" where
  "history_query c f after limit =
     (let limit = min (max limit 1) max_page_size;
          matching = filter (history_matches f)
            (filter (\<lambda>e. none_or after (\<lambda>a. entry_sequence e > a)) (entries c));
          page = take limit matching
      in \<lparr>page_entries = page,
          next_sequence = (case drop limit matching of
              [] \<Rightarrow> None
            | _ # _ \<Rightarrow> if page = [] then None else Some (entry_sequence (last page)))\<rparr>)"

record history_export =
  export_checkpoints :: "checkpoint list"
  export_entries :: "ledger_entry list"
  format_version :: u32

definition history_export_new :: "ledger_chain \<Rightarrow> checkpoint list \<Rightarrow> history_export" where
  "history_export_new c checkpoints =
     \<lparr>export_checkpoints = checkpoints, export_entries = entries c, format_version = 1\<rparr>"

section \<open>Appending keeps a chain verifiable\<close>

lemma verify_entries_append:
  "verify_entries sha json k p (xs @ ys) =
     and_then (verify_entries sha json k p xs) (\<lambda>h. verify_entries sha json (k + length xs) h ys)"
  by (induction sha json k p xs rule: verify_entries.induct) (auto split: sum.splits)

lemma verify_entries_single:
  "verify_entries sha json k p [e] = Ok h \<longleftrightarrow> k < 2 ^ 64 \<and> entry_sequence e = of_nat k
     \<and> previous_hash e = p \<and> calculate_hash sha json (of_nat k) p (entry_event e) = Ok (entry_hash e)
     \<and> h = Some (entry_hash e)"
  by (auto split: sum.splits)

definition chain_inv ::
  "(byte list \<Rightarrow> content_digest) \<Rightarrow> (ledger_event \<Rightarrow> 'e + byte list) \<Rightarrow> ledger_chain \<Rightarrow> bool" where
  "chain_inv sha json c \<longleftrightarrow> verify_entries sha json 0 None (entries c) = Ok (chain_head c)"

definition empty_chain :: ledger_chain where
  "empty_chain = \<lparr>entries = []\<rparr>"

lemma chain_inv_empty: "chain_inv sha json empty_chain"
  by (simp add: chain_inv_def empty_chain_def chain_head_def)

lemma chain_append_cases:
  "(\<exists>e. chain_append sha json c ev = (c, Err e))
   \<or> (\<exists>h. length (entries c) < 2 ^ 64
        \<and> calculate_hash sha json (of_nat (length (entries c))) (chain_head c) ev = Ok h
        \<and> chain_append sha json c ev =
          (let e = \<lparr>entry_event = ev, entry_hash = h, previous_hash = chain_head c,
               entry_sequence = of_nat (length (entries c))\<rparr>
           in (c\<lparr>entries := entries c @ [e]\<rparr>, Ok e)))"
proof (cases "fits (entries c)")
  case True
  then show ?thesis
    by (cases "calculate_hash sha json (of_nat (length (entries c))) (chain_head c) ev")
      (simp_all add: chain_append_def entry_new_def fits_def Let_def)
qed (simp add: chain_append_def)

lemma chain_append_inv: "chain_inv sha json c \<Longrightarrow> chain_inv sha json (fst (chain_append sha json c ev))"
  using chain_append_cases [of sha json c ev]
  by (auto simp: chain_inv_def verify_entries_append verify_entries_single chain_head_def Let_def
      simp del: verify_entries.simps)

fun run_appends ::
  "(byte list \<Rightarrow> content_digest) \<Rightarrow> (ledger_event \<Rightarrow> 'e + byte list) \<Rightarrow> ledger_chain \<Rightarrow>
     ledger_event list \<Rightarrow> ledger_chain" where
  "run_appends sha json c [] = c"
| "run_appends sha json c (ev # evs) = run_appends sha json (fst (chain_append sha json c ev)) evs"

lemma run_appends_inv: "chain_inv sha json c \<Longrightarrow> chain_inv sha json (run_appends sha json c evs)"
  by (induction evs arbitrary: c) (simp_all add: chain_append_inv)

text \<open>Events whose canonical bytes exist and have a 64-bit length.\<close>

definition recordable :: "(ledger_event \<Rightarrow> 'e + byte list) \<Rightarrow> ledger_event \<Rightarrow> bool" where
  "recordable json ev \<longleftrightarrow> (case json ev of Inl _ \<Rightarrow> False | Inr bytes \<Rightarrow> fits bytes)"

lemma chain_append_events:
  assumes "length (entries c) < 2 ^ 64"
  shows "map entry_event (entries (fst (chain_append sha json c ev))) =
     map entry_event (entries c) @ (if recordable json ev then [ev] else [])"
proof (cases "json ev")
  case (Inr bytes)
  with assms show ?thesis
    by (simp add: chain_append_def entry_new_def calculate_hash_def recordable_def fits_def)
qed (use assms in \<open>simp add: chain_append_def entry_new_def calculate_hash_def recordable_def fits_def\<close>)

lemma run_appends_events:
  "length (entries c) + length evs \<le> 2 ^ 64 \<Longrightarrow>
   map entry_event (entries (run_appends sha json c evs)) =
     map entry_event (entries c) @ filter (recordable json) evs"
proof (induction evs arbitrary: c)
  case (Cons ev evs)
  then have "length (entries c) < 2 ^ 64" by simp
  note ap = chain_append_events [OF this, of sha json ev]
  from arg_cong [OF ap, of length] Cons.prems
  have "length (entries (fst (chain_append sha json c ev))) + length evs \<le> 2 ^ 64"
    by (auto split: if_splits)
  from Cons.IH [OF this] ap show ?case by simp
qed simp

section \<open>A head pins the whole history\<close>

lemma verify_entries_None:
  "verify_entries sha json k p xs = Ok None \<Longrightarrow> xs = [] \<and> p = None"
  by (induction sha json k p xs rule: verify_entries.induct) (auto split: if_splits sum.splits)

lemma entry_input_inject:
  assumes "fits b" "fits b'"
  shows "entry_input s p b = entry_input s' p' b' \<longleftrightarrow> s = s' \<and> p = p' \<and> b = b'"
  using assms
  by (cases p; cases p')
    (auto simp: entry_input_def append_eq_split fits_def of_nat_u64_inject item_bytes_inject
      digest_bytes_inject)

text \<open>The inputs of the hash that the entries of a chain stand for.\<close>

definition json_bytes :: "(ledger_event \<Rightarrow> 'e + byte list) \<Rightarrow> ledger_event \<Rightarrow> byte list" where
  "json_bytes json ev = (case json ev of Inl _ \<Rightarrow> [] | Inr bytes \<Rightarrow> bytes)"

definition hash_inputs ::
  "(ledger_event \<Rightarrow> 'e + byte list) \<Rightarrow> ledger_entry list \<Rightarrow> byte list set" where
  "hash_inputs json es =
     (\<lambda>e. entry_input (entry_sequence e) (previous_hash e) (json_bytes json (entry_event e))) ` set es"

lemma calculate_hash_Ok:
  "calculate_hash sha json s p ev = Ok h \<longleftrightarrow> recordable json ev
     \<and> h = sha (entry_input s p (json_bytes json ev))"
  by (cases "json ev") (auto simp: calculate_hash_def recordable_def json_bytes_def)

lemma history_pinned:
  assumes "verify_entries sha json 0 None xs = Ok (Some h)"
    and "verify_entries sha json 0 None ys = Ok (Some h)"
  shows "map (\<lambda>e. json (entry_event e)) xs = map (\<lambda>e. json (entry_event e)) ys
     \<or> (\<exists>a \<in> hash_inputs json xs. \<exists>b \<in> hash_inputs json ys. a \<noteq> b \<and> sha a = sha b)"
  using assms
proof (induction xs arbitrary: ys h rule: rev_induct)
  case (snoc x xs)
  obtain p where xs: "verify_entries sha json 0 None xs = Ok p"
    and x: "verify_entries sha json (length xs) p [x] = Ok (Some h)"
    using snoc.prems(1) by (auto simp: verify_entries_append simp del: verify_entries.simps)
  from snoc.prems(2) obtain y zs where ys: "ys = zs @ [y]"
    by (cases ys rule: rev_cases) auto
  obtain q where zs: "verify_entries sha json 0 None zs = Ok q"
    and y: "verify_entries sha json (length zs) q [y] = Ok (Some h)"
    using snoc.prems(2) ys by (auto simp: verify_entries_append simp del: verify_entries.simps)
  note x = x [unfolded verify_entries_single calculate_hash_Ok]
  note y = y [unfolded verify_entries_single calculate_hash_Ok]
  let ?a = "entry_input (entry_sequence x) (previous_hash x) (json_bytes json (entry_event x))"
  let ?b = "entry_input (entry_sequence y) (previous_hash y) (json_bytes json (entry_event y))"
  have px: "previous_hash x = p" "recordable json (entry_event x)"
    and py: "previous_hash y = q" "recordable json (entry_event y)"
    using x y by blast+
  have hash: "sha ?a = sha ?b" using x y by simp
  have mem: "?a \<in> hash_inputs json (xs @ [x])" "?b \<in> hash_inputs json ys"
    using ys by (auto simp: hash_inputs_def)
  have sub: "hash_inputs json xs \<subseteq> hash_inputs json (xs @ [x])"
    "hash_inputs json zs \<subseteq> hash_inputs json ys"
    using ys by (auto simp: hash_inputs_def)
  show ?case
  proof (cases "?a = ?b")
    case False
    with hash mem show ?thesis by blast
  next
    case True
    have "fits (json_bytes json (entry_event x))" "fits (json_bytes json (entry_event y))"
      using px(2) py(2) by (auto simp: recordable_def json_bytes_def split: sum.splits)
    from True [unfolded entry_input_inject [OF this]]
    have pq: "p = q" and bytes: "json_bytes json (entry_event x) = json_bytes json (entry_event y)"
      unfolding px(1) py(1) by blast+
    then have ev: "json (entry_event x) = json (entry_event y)"
      using px(2) py(2) by (auto simp: recordable_def json_bytes_def split: sum.splits)
    show ?thesis
    proof (cases p)
      case None
      with xs zs pq have "xs = []" "zs = []" using verify_entries_None by blast+
      with ev ys show ?thesis by simp
    next
      case (Some h')
      from snoc.IH [OF xs [unfolded Some] zs [folded pq, unfolded Some]] show ?thesis
        using ev ys sub by auto
    qed
  qed
qed simp

section \<open>Paging\<close>

lemma filter_after_page:
  assumes "sorted_wrt (\<lambda>a b. key a < (key b :: 'k::linorder)) M" and "take k M \<noteq> []"
  shows "filter (\<lambda>e. key e > key (last (take k M))) M = drop k M"
proof -
  let ?s = "key (last (take k M))"
  have "sorted_wrt (\<lambda>a b. key a < key b) (take k M @ drop k M)"
    unfolding append_take_drop_id by (rule assms(1))
  then have M: "sorted_wrt (\<lambda>a b. key a < key b) (take k M)"
    "\<And>a b. a \<in> set (take k M) \<Longrightarrow> b \<in> set (drop k M) \<Longrightarrow> key a < key b"
    unfolding sorted_wrt_append by blast+
  have "\<not> key e > ?s" if "e \<in> set (take k M)" for e
  proof -
    have "sorted_wrt (\<lambda>a b. key a < key b) (butlast (take k M) @ [last (take k M)])"
      unfolding append_butlast_last_id [OF assms(2)] by (rule M(1))
    moreover from that assms(2) have "e = last (take k M) \<or> e \<in> set (butlast (take k M))"
      by (metis append_butlast_last_id in_set_conv_decomp last.simps rotate1.simps(2) set_ConsD set_rotate1)
    ultimately show ?thesis by (auto simp: sorted_wrt_append dest: less_imp_not_less)
  qed
  then have "filter (\<lambda>e. key e > ?s) (take k M) = []" by (simp add: filter_empty_conv)
  moreover have "filter (\<lambda>e. key e > ?s) (drop k M) = drop k M"
    using M(2) [OF last_in_set [OF assms(2)]] by (simp add: filter_id_conv)
  ultimately show ?thesis by (metis append_Nil append_take_drop_id filter_append)
qed

text \<open>Reading page after page, each from the sequence number the page before returned.\<close>

fun read_pages :: "nat \<Rightarrow> ledger_chain \<Rightarrow> history_filter \<Rightarrow> nat \<Rightarrow> u64 option \<Rightarrow> ledger_entry list" where
  "read_pages 0 c f limit after = []"
| "read_pages (Suc n) c f limit after =
     (let page = history_query c f after limit in
      page_entries page @ (case next_sequence page of
        None \<Rightarrow> []
      | Some s \<Rightarrow> read_pages n c f limit (Some s)))"

definition matching_after ::
  "ledger_chain \<Rightarrow> history_filter \<Rightarrow> u64 option \<Rightarrow> ledger_entry list" where
  "matching_after c f after =
     filter (history_matches f) (filter (\<lambda>e. none_or after (\<lambda>a. entry_sequence e > a)) (entries c))"

lemma verify_entries_sequences:
  "verify_entries sha json k p xs = Ok h \<Longrightarrow>
     map entry_sequence xs = map of_nat [k..<k + length xs] \<and> (xs \<noteq> [] \<longrightarrow> k + length xs \<le> 2 ^ 64)"
proof (induction sha json k p xs arbitrary: h rule: verify_entries.induct)
  case (2 sha json k p e xs)
  from 2(2) have k: "k < 2 ^ 64" "entry_sequence e = of_nat k"
    by (auto split: if_splits)
  from 2(2) obtain h' where "verify_entries sha json (Suc k) (Some h') xs = Ok h"
    "calculate_hash sha json (of_nat k) p (entry_event e) = Ok h'" "h' = entry_hash e"
    "previous_hash e = p"
    by (auto split: if_splits sum.splits)
  with 2(1) [of h'] k have "map entry_sequence xs = map of_nat [Suc k..<Suc k + length xs]
      \<and> (xs \<noteq> [] \<longrightarrow> Suc k + length xs \<le> 2 ^ 64)"
    by auto
  with k show ?case by (auto simp: upt_conv_Cons simp del: upt_Suc)
qed simp

lemma verified_sequences_increase:
  assumes "verify_entries sha json 0 None xs = Ok h"
  shows "sorted_wrt (\<lambda>a b. entry_sequence a < entry_sequence b) xs"
proof -
  from verify_entries_sequences [OF assms] have seqs: "map entry_sequence xs = map of_nat [0..<length xs]"
    and len: "length xs \<le> 2 ^ 64"
    by auto
  have "sorted_wrt (<) (map (of_nat :: nat \<Rightarrow> u64) [0..<length xs])"
    unfolding sorted_wrt_map
  proof (rule sorted_wrt_mono_rel [of _ "(<)"])
    fix i j
    assume "i \<in> set [0..<length xs]" "j \<in> set [0..<length xs]" "i < j"
    with len show "(of_nat i :: u64) < of_nat j"
      by (simp add: word_less_nat_alt unat_of_nat_small)
  qed simp
  with seqs show ?thesis by (simp add: sorted_wrt_map [symmetric, of "(<)" entry_sequence xs])
qed

lemma matching_after_next:
  assumes "sorted_wrt (\<lambda>a b. entry_sequence a < entry_sequence b) (entries c)"
    and "take k (matching_after c f after) \<noteq> []"
  shows "matching_after c f (Some (entry_sequence (last (take k (matching_after c f after))))) =
     drop k (matching_after c f after)"
proof -
  let ?M = "matching_after c f after"
  let ?s = "entry_sequence (last (take k ?M))"
  have sorted: "sorted_wrt (\<lambda>a b. entry_sequence a < entry_sequence b) ?M"
    unfolding matching_after_def using assms(1) by (intro sorted_wrt_filter)
  have "last (take k ?M) \<in> set ?M" using assms(2) by (metis in_set_takeD last_in_set)
  then have "none_or after (\<lambda>a. ?s > a)" by (simp add: matching_after_def)
  then have "none_or after (\<lambda>a. e > a)" if "e > ?s" for e
    using that by (auto simp: none_or_def split: option.splits)
  then have "filter (\<lambda>e. entry_sequence e > ?s \<and> history_matches f e) (entries c) =
      filter (\<lambda>e. (none_or after (\<lambda>a. entry_sequence e > a) \<and> history_matches f e)
        \<and> entry_sequence e > ?s) (entries c)"
    by (intro filter_cong refl) blast
  moreover have "matching_after c f (Some t) =
      filter (\<lambda>e. entry_sequence e > t \<and> history_matches f e) (entries c)" for t
    by (simp add: matching_after_def none_or_def)
  moreover have "filter (\<lambda>e. entry_sequence e > t) ?M =
      filter (\<lambda>e. (none_or after (\<lambda>a. entry_sequence e > a) \<and> history_matches f e)
        \<and> entry_sequence e > t) (entries c)" for t
    by (simp add: matching_after_def)
  ultimately have "matching_after c f (Some ?s) = filter (\<lambda>e. entry_sequence e > ?s) ?M"
    by (simp only:)
  then show ?thesis by (simp add: filter_after_page [OF sorted assms(2)])
qed

lemma read_pages_all:
  assumes "sorted_wrt (\<lambda>a b. entry_sequence a < entry_sequence b) (entries c)"
  shows "length (matching_after c f after) < n \<Longrightarrow>
     read_pages n c f limit after = matching_after c f after"
proof (induction n arbitrary: after)
  case (Suc n)
  let ?M = "matching_after c f after"
  define k where kdef: "k = min (max limit 1) max_page_size"
  have k: "0 < k" by (simp add: kdef max_page_size_def)
  have page: "page_entries (history_query c f after limit) = take k ?M"
    "next_sequence (history_query c f after limit) =
      (case drop k ?M of [] \<Rightarrow> None | _ # _ \<Rightarrow> if take k ?M = [] then None
        else Some (entry_sequence (last (take k ?M))))"
    by (simp_all only: kdef history_query_def matching_after_def Let_def history_page.simps)
  show ?case
  proof (cases "drop k ?M")
    case Nil
    then have "take k ?M = ?M" by (metis append_take_drop_id append_Nil2)
    with Nil show ?thesis by (simp add: page)
  next
    case (Cons x rest)
    with k have ne: "take k ?M \<noteq> []" by (auto simp: take_eq_Nil)
    note rest = matching_after_next [OF assms ne]
    have "k < length ?M" using Cons by (metis drop_all list.distinct(1) not_le_imp_less)
    with Suc.prems k have "length ?M - k < n" by linarith
    then have "length (drop k ?M) < n" by (simp only: length_drop)
    with rest have "read_pages n c f limit (Some (entry_sequence (last (take k ?M)))) = drop k ?M"
      by (metis Suc.IH)
    with Cons ne show ?thesis
      by (simp add: page) (metis append_take_drop_id)
  qed
qed simp

section \<open>Properties\<close>

text \<open>
  Whatever events are appended to an empty ledger, the chain verifies against its own head
  with all its entries, and the recorded events are the appended ones in order, except those that
  could not be encoded.
\<close>

theorem appended_chain_verifies:
  assumes "length evs \<le> 2 ^ 64"
  shows "chain_verify sha json (run_appends sha json empty_chain evs)
        (chain_head (run_appends sha json empty_chain evs)) =
      Valid (length (filter (recordable json) evs))
        (chain_head (run_appends sha json empty_chain evs))
     \<and> map entry_event (entries (run_appends sha json empty_chain evs)) =
        filter (recordable json) evs"
proof -
  let ?c = "run_appends sha json empty_chain evs"
  have "map entry_event (entries ?c) = filter (recordable json) evs"
    using run_appends_events [of empty_chain evs sha json] assms by (simp add: empty_chain_def)
  moreover from arg_cong [OF this, of length]
  have "length (entries ?c) = length (filter (recordable json) evs)" by simp
  moreover have "verify_entries sha json 0 None (entries ?c) = Ok (chain_head ?c)"
    using run_appends_inv [OF chain_inv_empty] by (simp add: chain_inv_def)
  ultimately show ?thesis by (simp add: chain_verify_def)
qed

definition plain_event :: "string \<Rightarrow> ledger_event" where
  "plain_event action = \<lparr>event_actor = sample_actor, event_candidate = None,
     event_data = WorkflowData action, event_id = Id 1, event_evidence = [],
     event_files = [], event_metadata = [], event_project = Id 2, event_task = None,
     event_timestamp = 0, event_workflow = None\<rparr>"

definition toy_json :: "ledger_event \<Rightarrow> unit + byte list" where
  "toy_json ev = (case event_data ev of WorkflowData a \<Rightarrow> Ok (as_bytes a) | _ \<Rightarrow> Err ())"

definition toy_sha :: "byte list \<Rightarrow> content_digest" where
  "toy_sha bytes = of_nat (be_nat bytes)"

theorem appended_chain_verifies_witness:
  "chain_verify toy_sha toy_json
      (run_appends toy_sha toy_json empty_chain [plain_event ''start'', plain_event ''finish''])
      (chain_head (run_appends toy_sha toy_json empty_chain
        [plain_event ''start'', plain_event ''finish''])) =
     Valid 2 (chain_head (run_appends toy_sha toy_json empty_chain
        [plain_event ''start'', plain_event ''finish'']))"
proof -
  have "filter (recordable toy_json) [plain_event ''start'', plain_event ''finish''] =
      [plain_event ''start'', plain_event ''finish'']"
    by (simp add: recordable_def toy_json_def plain_event_def fits_def)
  moreover have "length [plain_event ''start'', plain_event ''finish''] \<le> 2 ^ 64" by simp
  ultimately show ?thesis
    using appended_chain_verifies [of "[plain_event ''start'', plain_event ''finish'']"
        toy_sha toy_json]
    by simp
qed

text \<open>
  C17. The head of a ledger pins its history: two chains that verify against the same head hold
  the same number of events with the same encodings, in the same order, or among the bytes hashed
  for their entries are two different inputs of SHA-256 with one output.
\<close>

theorem ledger_head_pins_history:
  assumes "chain_verify sha json c (Some h) = Valid n head"
    and "chain_verify sha json d (Some h) = Valid m head'"
  shows "map (\<lambda>e. json (entry_event e)) (entries c) = map (\<lambda>e. json (entry_event e)) (entries d)
     \<or> (\<exists>a \<in> hash_inputs json (entries c). \<exists>b \<in> hash_inputs json (entries d).
          a \<noteq> b \<and> sha a = sha b)"
proof (rule history_pinned [where h = h])
  show "verify_entries sha json 0 None (entries c) = Ok (Some h)"
    "verify_entries sha json 0 None (entries d) = Ok (Some h)"
    using assms by (auto simp: chain_verify_def split: sum.splits if_splits)
qed

definition sample_chain :: ledger_chain where
  "sample_chain = run_appends toy_sha toy_json empty_chain
     [plain_event ''start'', plain_event ''finish'']"

definition sample_head :: content_digest where
  "sample_head = toy_sha (entry_input 1
     (Some (toy_sha (entry_input 0 None (as_bytes ''start'')))) (as_bytes ''finish''))"

lemma sample_chain_entries:
  "map entry_event (entries sample_chain) = [plain_event ''start'', plain_event ''finish'']"
  by (simp add: sample_chain_def chain_append_def entry_new_def calculate_hash_def empty_chain_def
      fits_def chain_head_def toy_json_def plain_event_def)

lemma sample_chain_valid:
  "chain_verify toy_sha toy_json sample_chain (Some sample_head) = Valid 2 (Some sample_head)"
  by (simp add: sample_chain_def sample_head_def chain_append_def entry_new_def calculate_hash_def
      empty_chain_def fits_def chain_head_def toy_json_def plain_event_def chain_verify_def)

theorem ledger_head_pins_history_witness:
  "chain_verify toy_sha toy_json sample_chain (Some sample_head) = Valid 2 (Some sample_head)
   \<and> (map (toy_json \<circ> entry_event) (entries sample_chain) =
        [Ok (as_bytes ''start''), Ok (as_bytes ''finish'')]
      \<or> (\<exists>a \<in> hash_inputs toy_json (entries sample_chain).
          \<exists>b \<in> hash_inputs toy_json (entries sample_chain). a \<noteq> b \<and> toy_sha a = toy_sha b))"
proof -
  have "map (toy_json \<circ> entry_event) (entries sample_chain) =
      map toy_json (map entry_event (entries sample_chain))" by simp
  also have "\<dots> = [Ok (as_bytes ''start''), Ok (as_bytes ''finish'')]"
    unfolding sample_chain_entries by (simp add: toy_json_def plain_event_def)
  finally show ?thesis
    using ledger_head_pins_history [OF sample_chain_valid sample_chain_valid] sample_chain_valid
    by (simp add: comp_def)
qed

text \<open>
  Paging through a verified ledger loses and repeats nothing: reading page after page with any
  limit returns exactly the entries that match the filter, in order.
\<close>

theorem history_pages_cover:
  assumes "chain_verify sha json c expected = Valid n head"
  shows "read_pages (Suc (length (entries c))) c f limit None =
     filter (history_matches f) (entries c)"
proof -
  from assms obtain h where "verify_entries sha json 0 None (entries c) = Ok h"
    by (auto simp: chain_verify_def split: sum.splits)
  note sorted = verified_sequences_increase [OF this]
  have all: "matching_after c f None = filter (history_matches f) (entries c)"
    by (simp add: matching_after_def none_or_def)
  have "length (filter (history_matches f) (entries c)) < Suc (length (entries c))"
    by (simp add: le_imp_less_Suc)
  with read_pages_all [OF sorted, of f None "Suc (length (entries c))" limit] all
  show ?thesis by simp
qed

definition no_filter :: history_filter where
  "no_filter = \<lparr>filter_actor = None, filter_candidate = None, filter_file = None,
     filter_from = None, filter_project = None, filter_role = None, filter_task = None,
     filter_to = None, filter_workflow = None\<rparr>"

theorem history_pages_cover_witness:
  "read_pages (Suc (length (entries sample_chain))) sample_chain no_filter 1 None =
     entries sample_chain"
  unfolding history_pages_cover [OF sample_chain_valid]
  by (simp add: history_matches_def none_or_def no_filter_def Let_def)

text \<open>
  A checkpoint signed with a key verifies, by its embedded key, exactly against the sequence
  number and head it was signed for, provided that the signature scheme accepts its own 64-byte
  signatures.
\<close>

theorem checkpoint_verifies_its_head:
  assumes "is_key (public_bytes key)"
    and "\<And>m. length (sign_with key m) = 64 \<and> strict (public_bytes key) m (sign_with key m)"
  shows "checkpoint_verify_embedded rfc3339 strict is_key (checkpoint_sign rfc3339 s h at key) target =
     (if target = Some (s, h) then CheckpointValid else CheckpointHeadMismatch)"
  using assms
  by (simp add: checkpoint_verify_embedded_def checkpoint_verify_def checkpoint_sign_def)

theorem checkpoint_verifies_its_head_witness:
  "checkpoint_verify_embedded (\<lambda>_. ''now'') (\<lambda>k m s. s = replicate 64 0) (\<lambda>k. length k = 32)
     (checkpoint_sign (\<lambda>_. ''now'') 4 9 0
       \<lparr>public_bytes = replicate 32 1, sign_with = (\<lambda>_. replicate 64 0)\<rparr>) (Some (4, 9)) =
     CheckpointValid"
  using checkpoint_verifies_its_head [of "\<lambda>k. length k = 32"
      "\<lparr>public_bytes = replicate 32 1, sign_with = (\<lambda>_. replicate 64 0)\<rparr>"
      "\<lambda>k m s. s = replicate 64 0" "\<lambda>_. ''now''" 4 9 0 "Some (4, 9)"]
  by simp

end
