(* ===== verification/Ipc_Frame.thy ===== *)
theory Ipc_Frame
  imports Cycle_Prelude
begin

text \<open>
  Length-prefixed frames (\<open>crates/workflow-ipc/src/frame.rs\<close>).  The decoder copies as much of its
  input as its state wants and goes round again; the theory compares it with a decoder that takes
  one byte at a time, and derives that the way the stream is cut into reads does not matter.
  The JSON encoder and parser are arguments.
\<close>

section \<open>Frames\<close>

definition max_frame_bytes :: nat where "max_frame_bytes = 8 * 1024 * 1024"

datatype 'j frame_error =
    EmptyFrame
  | JsonError 'j
  | Oversized nat nat
  | DecoderPoisoned

definition encode_frame :: "('a \<Rightarrow> 'j + byte list) \<Rightarrow> 'a \<Rightarrow> 'j frame_error + byte list" where
  "encode_frame to_json value =
     and_then (map_err JsonError (to_json value)) (\<lambda>payload.
     if payload = [] then Err EmptyFrame
     else if length payload > max_frame_bytes then Err (Oversized (length payload) max_frame_bytes)
     else Ok (be_bytes 4 (length payload) @ payload))"

text \<open>\<open>Header { bytes, filled }\<close> is the list of the \<open>filled\<close> bytes.\<close>

datatype decode_state =
    Header "byte list"
  | Payload "byte list" nat
  | PoisonedState

definition decoder_new :: decode_state where "decoder_new = Header []"

text \<open>
  The loop of \<open>feed\<close>.  A pass that copies nothing and leaves the state alone would repeat for
  ever; it returns \<open>None\<close> here, and no reachable state has one.
\<close>

definition stalled :: "decode_state \<Rightarrow> bool" where
  "stalled s = (case s of
      Header bytes \<Rightarrow> length bytes > 4
    | Payload bytes n \<Rightarrow> length bytes > n
    | PoisonedState \<Rightarrow> False)"

definition full :: "decode_state \<Rightarrow> nat" where
  "full s = (case s of
      Header bytes \<Rightarrow> of_bool (length bytes = 4)
    | Payload bytes n \<Rightarrow> of_bool (length bytes = n)
    | PoisonedState \<Rightarrow> 0)"

function feed_loop ::
  "decode_state \<Rightarrow> byte list \<Rightarrow> byte list list \<Rightarrow>
     (decode_state \<times> ('j frame_error + byte list list)) option" where
  "feed_loop s input complete =
     (if input = [] then Some (s, Ok complete)
      else if stalled s then None
      else case s of
        Header bytes \<Rightarrow>
          let copied = min (4 - length bytes) (length input);
              bytes = bytes @ take copied input;
              input = drop copied input
          in if length bytes = 4 then
               let n = be_nat bytes in
               if n = 0 then Some (PoisonedState, Err EmptyFrame)
               else if n > max_frame_bytes
                 then Some (PoisonedState, Err (Oversized n max_frame_bytes))
               else feed_loop (Payload [] n) input complete
             else feed_loop (Header bytes) input complete
      | Payload bytes n \<Rightarrow>
          let copied = min (n - length bytes) (length input);
              bytes = bytes @ take copied input;
              input = drop copied input
          in if length bytes = n then feed_loop (Header []) input (complete @ [bytes])
             else feed_loop (Payload bytes n) input complete
      | PoisonedState \<Rightarrow> Some (PoisonedState, Err DecoderPoisoned))"
  by pat_completeness auto
termination
  by (relation "measures [\<lambda>(_, input, _). length input, \<lambda>(s, _, _). full s]")
    (auto simp: stalled_def full_def split: if_splits)

declare feed_loop.simps [simp del]

definition feed ::
  "decode_state \<Rightarrow> byte list \<Rightarrow> (decode_state \<times> ('j frame_error + byte list list)) option" where
  "feed s input = feed_loop s input []"

text \<open>\<open>feed_json\<close>: the first frame that does not parse poisons the decoder.\<close>

fun parse_frames :: "(byte list \<Rightarrow> 'j + 'a) \<Rightarrow> byte list list \<Rightarrow> 'j + 'a list" where
  "parse_frames parse [] = Ok []"
| "parse_frames parse (f # fs) =
     and_then (parse f) (\<lambda>v. and_then (parse_frames parse fs) (\<lambda>vs. Ok (v # vs)))"

definition feed_json ::
  "(byte list \<Rightarrow> 'j + 'a) \<Rightarrow> decode_state \<Rightarrow> byte list \<Rightarrow>
     (decode_state \<times> ('j frame_error + 'a list)) option" where
  "feed_json parse s input =
     (case feed s input of
        None \<Rightarrow> None
      | Some (s', Inl e) \<Rightarrow> Some (s', Err e)
      | Some (s', Inr frames) \<Rightarrow>
          (case parse_frames parse frames of
             Inl e \<Rightarrow> Some (PoisonedState, Err (JsonError e))
           | Inr vs \<Rightarrow> Some (s', Ok vs)))"

definition buffered_bytes :: "decode_state \<Rightarrow> nat" where
  "buffered_bytes s = (case s of
      Header bytes \<Rightarrow> length bytes
    | Payload bytes n \<Rightarrow> length bytes
    | PoisonedState \<Rightarrow> 0)"

section \<open>One byte at a time\<close>

definition header_done :: "byte list \<Rightarrow> decode_state \<times> ('j frame_error + byte list list)" where
  "header_done bytes =
     (let n = be_nat bytes in
      if n = 0 then (PoisonedState, Err EmptyFrame)
      else if n > max_frame_bytes then (PoisonedState, Err (Oversized n max_frame_bytes))
      else (Payload [] n, Ok []))"

fun byte_step :: "decode_state \<Rightarrow> byte \<Rightarrow> decode_state \<times> ('j frame_error + byte list list)" where
  "byte_step (Header bytes) b =
     (if length bytes = 3 then header_done (bytes @ [b]) else (Header (bytes @ [b]), Ok []))"
| "byte_step (Payload bytes n) b =
     (if Suc (length bytes) = n then (Header [], Ok [bytes @ [b]])
      else (Payload (bytes @ [b]) n, Ok []))"
| "byte_step PoisonedState b = (PoisonedState, Err DecoderPoisoned)"

fun byte_feed ::
  "decode_state \<Rightarrow> byte list \<Rightarrow> byte list list \<Rightarrow>
     decode_state \<times> ('j frame_error + byte list list)" where
  "byte_feed s [] complete = (s, Ok complete)"
| "byte_feed s (b # bs) complete =
     (case byte_step s b of
        (s', Inl e) \<Rightarrow> (s', Err e)
      | (s', Inr frames) \<Rightarrow> byte_feed s' bs (complete @ frames))"

definition decoder_ok :: "decode_state \<Rightarrow> bool" where
  "decoder_ok s = (case s of
      Header bytes \<Rightarrow> length bytes < 4
    | Payload bytes n \<Rightarrow> length bytes < n \<and> n \<le> max_frame_bytes
    | PoisonedState \<Rightarrow> True)"

lemma decoder_ok_new: "decoder_ok decoder_new"
  by (simp add: decoder_ok_def decoder_new_def)

lemma byte_step_ok: "decoder_ok s \<Longrightarrow> decoder_ok (fst (byte_step s b))"
  by (cases s) (auto simp: decoder_ok_def header_done_def Let_def)

lemma byte_feed_header:
  "length bytes + length xs < 4 \<Longrightarrow>
   byte_feed (Header bytes) (xs @ ys) complete = byte_feed (Header (bytes @ xs)) ys complete"
  by (induction xs arbitrary: bytes) auto

lemma byte_feed_header_done:
  assumes "length bytes + length xs = 4" and "length bytes < 4"
  shows "byte_feed (Header bytes) (xs @ ys) complete =
    (case header_done (bytes @ xs) of
       (s, Inl e) \<Rightarrow> (s, Err e) | (s, Inr frames) \<Rightarrow> byte_feed s ys (complete @ frames))"
proof -
  from assms obtain as b where xs: "xs = as @ [b]" by (cases xs rule: rev_cases) auto
  with assms show ?thesis using byte_feed_header [of bytes as "b # ys" complete] by simp
qed

lemma byte_feed_payload:
  "length bytes + length xs < n \<Longrightarrow>
   byte_feed (Payload bytes n) (xs @ ys) complete = byte_feed (Payload (bytes @ xs) n) ys complete"
  by (induction xs arbitrary: bytes) auto

lemma byte_feed_payload_done:
  assumes "length bytes + length xs = n" and "length bytes < n"
  shows "byte_feed (Payload bytes n) (xs @ ys) complete =
    byte_feed (Header []) ys (complete @ [bytes @ xs])"
proof -
  from assms obtain as b where xs: "xs = as @ [b]" by (cases xs rule: rev_cases) auto
  with assms show ?thesis using byte_feed_payload [of bytes as n "b # ys" complete] by simp
qed

text \<open>The pass over the input and the byte decoder agree on every reachable state.\<close>

lemma feed_loop_bytes:
  "decoder_ok s \<Longrightarrow> feed_loop s input complete =
     Some (byte_feed s input complete :: decode_state \<times> ('a frame_error + byte list list))"
proof (induction s input complete rule: feed_loop.induct)
  case (1 s input complete)
  show ?case
  proof (cases "input = []")
    case True
    then show ?thesis by (simp add: feed_loop.simps [of s])
  next
    case ne: False
    have alive: "\<not> stalled s" using 1(5) by (simp add: stalled_def decoder_ok_def split: decode_state.splits)
    show ?thesis
    proof (cases s)
      case (Header bytes)
      define copied where "copied = min (4 - length bytes) (length input)"
      have len: "length bytes < 4" using 1(5) Header by (simp add: decoder_ok_def)
      have copied: "length (take copied input) = copied" by (simp add: copied_def)
      show ?thesis
      proof (cases "length (bytes @ take copied input) = 4")
        case True
        have finished: "(byte_feed (Header bytes) input complete
              :: decode_state \<times> ('a frame_error + byte list list)) =
            (case header_done (bytes @ take copied input) of
               (s, Inl e) \<Rightarrow> (s, Err e)
             | (s, Inr frames) \<Rightarrow> byte_feed s (drop copied input) (complete @ frames))"
          using byte_feed_header_done [of bytes "take copied input" "drop copied input" complete]
            True len by simp
        show ?thesis
        proof (cases "be_nat (bytes @ take copied input) = 0
            \<or> be_nat (bytes @ take copied input) > max_frame_bytes")
          case err: True
          with finished True len ne alive Header show ?thesis
            by (auto simp: feed_loop.simps [of "Header bytes"] Let_def copied_def [symmetric] header_done_def)
        next
          case False
          let ?n = "be_nat (bytes @ take copied input)"
          have "decoder_ok (Payload [] ?n)" using False by (simp add: decoder_ok_def)
          from 1(1) [OF ne alive Header copied_def refl refl True refl _ _ this] False
            finished True len ne alive Header show ?thesis
            by (auto simp: feed_loop.simps [of "Header bytes"] Let_def copied_def [symmetric] header_done_def)
        qed
      next
        case False
        then have short: "length bytes + length (take copied input) < 4"
          using len by (simp add: copied_def)
        then have "decoder_ok (Header (bytes @ take copied input))" by (simp add: decoder_ok_def)
        from 1(2) [OF ne alive Header copied_def refl refl False this]
          byte_feed_header [where ?'a = 'a, OF short, of "drop copied input" complete] False ne alive Header
        show ?thesis
          by (simp add: feed_loop.simps [of "Header bytes"] Let_def copied_def [symmetric])
      qed
    next
      case (Payload bytes n)
      define copied where "copied = min (n - length bytes) (length input)"
      have len: "length bytes < n" "n \<le> max_frame_bytes"
        using 1(5) Payload by (auto simp: decoder_ok_def)
      have le: "copied \<le> length input" by (simp add: copied_def)
      show ?thesis
      proof (cases "length (bytes @ take copied input) = n")
        case True
        then have sum: "length bytes + length (take copied input) = n" by simp
        have "decoder_ok (Header [])" by (simp add: decoder_ok_def)
        from 1(3) [OF ne alive Payload copied_def refl refl] True this
          byte_feed_payload_done [where ?'a = 'a, OF sum len(1), of "drop copied input" complete] ne alive Payload le
        show ?thesis
          by (simp add: feed_loop.simps [of "Payload bytes n"] Let_def copied_def [symmetric])
      next
        case False
        then have short: "length bytes + length (take copied input) < n"
          using len(1) by (simp add: copied_def)
        then have "decoder_ok (Payload (bytes @ take copied input) n)"
          using len(2) by (simp add: decoder_ok_def)
        from 1(4) [OF ne alive Payload copied_def refl refl False this]
          byte_feed_payload [where ?'a = 'a, OF short, of "drop copied input" complete] False ne alive Payload le
        show ?thesis
          by (simp add: feed_loop.simps [of "Payload bytes n"] Let_def copied_def [symmetric])
      qed
    next
      case PoisonedState
      with ne show ?thesis
        by (cases input) (simp_all add: feed_loop.simps [of PoisonedState] stalled_def)
    qed
  qed
qed

section \<open>Reads of any size\<close>

lemma byte_feed_append:
  "byte_feed s (xs @ ys) complete =
     (case byte_feed s xs complete of
        (s', Inl e) \<Rightarrow> (s', Err e)
      | (s', Inr complete') \<Rightarrow> byte_feed s' ys complete')"
  by (induction xs arbitrary: s complete) (auto split: prod.splits sum.splits)

lemma byte_feed_complete:
  "byte_feed s bs (done_before @ complete) =
     (case byte_feed s bs complete of
        (s', Inl e) \<Rightarrow> (s', Err e)
      | (s', Inr complete') \<Rightarrow> (s', Ok (done_before @ complete')))"
  by (induction bs arbitrary: s complete) (auto split: prod.splits sum.splits)

lemma byte_feed_ok:
  "decoder_ok s \<Longrightarrow> byte_feed s bs complete = (s', r) \<Longrightarrow> decoder_ok s'"
proof (induction bs arbitrary: s complete)
  case (Cons b bs)
  obtain t q where "byte_step s b = (t, q :: 'a frame_error + byte list list)" by fastforce
  with byte_step_ok [where ?'a = 'a, OF Cons.prems(1), of b] Cons show ?case
    by (auto split: sum.splits)
qed simp

lemma feed_bytes: "decoder_ok s \<Longrightarrow> feed s input = Some (byte_feed s input [])"
  by (simp add: feed_def feed_loop_bytes)

text \<open>
  A stream arriving in several reads, as \<open>JsonChannel::receive\<close> makes them: the frames of each read are
  queued, and the first error ends the connection.  What was queued before stays.
\<close>

fun feed_chunks ::
  "decode_state \<Rightarrow> byte list list \<Rightarrow> (decode_state \<times> byte list list \<times> 'j frame_error option) option" where
  "feed_chunks s [] = Some (s, [], None)"
| "feed_chunks s (chunk # chunks) =
     (case feed s chunk of
        None \<Rightarrow> None
      | Some (s', Inl e) \<Rightarrow> Some (s', [], Some e)
      | Some (s', Inr frames) \<Rightarrow>
          map_option (\<lambda>(s'', queued, e). (s'', frames @ queued, e)) (feed_chunks s' chunks))"

text \<open>The result of one feed that has the same frames and the same error.\<close>

definition at_once :: "byte list list \<Rightarrow> 'j frame_error option \<Rightarrow> 'j frame_error + byte list list" where
  "at_once frames e = (case e of None \<Rightarrow> Ok frames | Some e \<Rightarrow> Err e)"

lemma feed_chunks_bytes:
  assumes "decoder_ok s"
  shows "\<exists>s' frames e. feed_chunks s chunks = Some (s', frames, e)
     \<and> byte_feed s (concat chunks) [] = (s', at_once frames e :: 'a frame_error + byte list list)
     \<and> (e \<noteq> None \<longrightarrow> (\<exists>before chunk after s1. chunks = before @ chunk # after
          \<and> byte_feed s (concat before) [] = (s1, Ok frames :: 'a frame_error + byte list list)
          \<and> byte_feed s1 chunk [] = (s', Err (the e) :: 'a frame_error + byte list list)))"
  using assms
proof (induction chunks arbitrary: s)
  case Nil
  then show ?case by (simp add: at_once_def)
next
  case (Cons chunk chunks)
  obtain s1 and r :: "'a frame_error + byte list list" where r: "byte_feed s chunk [] = (s1, r)"
    by fastforce
  note more = byte_feed_complete [where ?'a = 'a and complete = "[]", simplified]
  show ?case
  proof (cases r)
    case (Inl e)
    then have "byte_feed s (concat []) [] = (s, Ok [] :: 'a frame_error + byte list list)"
      "byte_feed s chunk [] = (s1, Err e)" using r by simp_all
    then have "\<exists>before c after t. chunk # chunks = before @ c # after
        \<and> byte_feed s (concat before) [] = (t, Ok [] :: 'a frame_error + byte list list)
        \<and> byte_feed t c [] = (s1, Err e :: 'a frame_error + byte list list)"
      by (intro exI [of _ "[]"] exI [of _ chunk] exI [of _ chunks] exI [of _ s]) simp
    with Inl r show ?thesis
      by (simp add: feed_bytes [OF Cons.prems] byte_feed_append at_once_def)
  next
    case (Inr frames)
    from Cons.IH [OF byte_feed_ok [OF Cons.prems r]] obtain s' queued e where
      rest: "feed_chunks s1 chunks = Some (s', queued, e)"
      "byte_feed s1 (concat chunks) [] = (s', at_once queued e :: 'a frame_error + byte list list)"
      and failed: "e \<noteq> None \<longrightarrow> (\<exists>before chunk after t. chunks = before @ chunk # after
          \<and> byte_feed s1 (concat before) [] = (t, Ok queued :: 'a frame_error + byte list list)
          \<and> byte_feed t chunk [] = (s', Err (the e) :: 'a frame_error + byte list list))"
      by blast
    have "feed_chunks s (chunk # chunks) = Some (s', frames @ queued, e)"
      using rest(1) r Inr by (simp add: feed_bytes [OF Cons.prems])
    moreover have "byte_feed s (concat (chunk # chunks)) [] =
        (s', at_once (frames @ queued) e :: 'a frame_error + byte list list)"
      using rest(2) r Inr more [of s1 "concat chunks" frames]
      by (simp add: byte_feed_append at_once_def split: option.splits)
    moreover have "\<exists>before c after t. chunk # chunks = before @ c # after
        \<and> byte_feed s (concat before) [] = (t, Ok (frames @ queued) :: 'a frame_error + byte list list)
        \<and> byte_feed t c [] = (s', Err (the e) :: 'a frame_error + byte list list)" if failing: "e \<noteq> None"
    proof -
      from failed failing obtain before c after t where
        parts: "chunks = before @ c # after"
          "byte_feed s1 (concat before) [] = (t, Ok queued :: 'a frame_error + byte list list)"
          "byte_feed t c [] = (s', Err (the e) :: 'a frame_error + byte list list)" by blast
      from parts(2) r Inr more [of s1 "concat before" frames]
      have "byte_feed s (concat (chunk # before)) [] = (t, Ok (frames @ queued) :: 'a frame_error + byte list list)"
        by (simp add: byte_feed_append)
      with parts(1,3) show ?thesis
        by (intro exI [of _ "chunk # before"] exI [of _ c] exI [of _ after] exI [of _ t]) simp
    qed
    ultimately show ?thesis by blast
  qed
qed

lemma feed_chunks_Ok:
  assumes "byte_feed decoder_new (concat chunks) [] = (s, Ok frames :: 'a frame_error + byte list list)"
  shows "feed_chunks decoder_new chunks = Some (s, frames, None :: 'a frame_error option)"
  using feed_chunks_bytes [where ?'a = 'a, OF decoder_ok_new, of chunks] assms
  by (auto simp: at_once_def split: option.splits)

lemma be_nat_be_bytes_frame: "length p \<le> max_frame_bytes \<Longrightarrow> be_nat (be_bytes 4 (length p)) = length p"
  by (rule be_nat_be_bytes) (simp add: max_frame_bytes_def)

lemma byte_feed_frame:
  assumes "p \<noteq> []" and "length p \<le> max_frame_bytes"
  shows "byte_feed (Header []) (be_bytes 4 (length p) @ p @ rest) complete =
     byte_feed (Header []) rest (complete @ [p])"
proof -
  have "byte_feed (Header []) (be_bytes 4 (length p) @ p @ rest) complete =
      byte_feed (Payload [] (length p)) (p @ rest) complete"
    using assms
    by (subst byte_feed_header_done)
      (simp_all add: header_done_def be_nat_be_bytes_frame del: be_bytes.simps)
  then show ?thesis using assms by (simp add: byte_feed_payload_done)
qed

lemma encode_frame_Ok_iff:
  "encode_frame to_json v = Ok f \<longleftrightarrow> (\<exists>p. to_json v = Ok p \<and> p \<noteq> [] \<and> length p \<le> max_frame_bytes
     \<and> f = be_bytes 4 (length p) @ p)"
proof (cases "to_json v")
  case (Inr p)
  then show ?thesis by (auto simp: encode_frame_def simp del: be_bytes.simps)
qed (simp add: encode_frame_def)

lemma byte_feed_frames:
  "list_all2 (\<lambda>v f. encode_frame to_json v = Ok f) vals frames \<Longrightarrow>
   \<exists>payloads. map to_json vals = map Ok payloads
     \<and> byte_feed (Header []) (concat frames) complete =
       (Header [], Ok (complete @ payloads) :: 'c frame_error + byte list list)"
proof (induction vals frames arbitrary: complete rule: list_all2_induct)
  case (Cons v vs f fs)
  then obtain p where p: "to_json v = Ok p" "p \<noteq> []" "length p \<le> max_frame_bytes"
    "f = be_bytes 4 (length p) @ p"
    by (auto simp: encode_frame_Ok_iff)
  from Cons.IH [of "complete @ [p]"] obtain payloads where
    "map to_json vs = map Ok payloads"
    "byte_feed (Header []) (concat fs) (complete @ [p]) =
      (Header [], Ok ((complete @ [p]) @ payloads) :: 'c frame_error + byte list list)"
    by blast
  moreover have "byte_feed (Header []) (concat (f # fs)) complete =
      (byte_feed (Header []) (concat fs) (complete @ [p])
        :: decode_state \<times> ('c frame_error + byte list list))"
    using byte_feed_frame [where ?'a = 'c, OF p(2,3), of "concat fs" complete] p(4)
    by (simp only: concat.simps append_assoc)
  ultimately have "map to_json (v # vs) = map Ok (p # payloads)
      \<and> byte_feed (Header []) (concat (f # fs)) complete =
        (Header [], Ok (complete @ p # payloads) :: 'c frame_error + byte list list)"
    using p(1) by (simp only: list.map append_assoc append_Cons append_Nil)
  then show ?case by blast
qed simp

lemma byte_step_poisons: "byte_step s b = (s', Inl e) \<Longrightarrow> s' = PoisonedState"
  by (cases s) (auto simp: header_done_def Let_def split: if_splits)

lemma byte_feed_closed: "byte_feed s bs complete = (s', Inl e) \<Longrightarrow> s' = PoisonedState"
  by (induction bs arbitrary: s complete)
    (auto split: prod.splits sum.splits dest: byte_step_poisons)

section \<open>Properties\<close>

text \<open>
  C19. How a stream is cut into reads matters for nothing but the frames in front of an error.  Reading it
  piece by piece ends in the same decoder and with the same error, if any, as feeding it at once, and
  without an error it queues the same frames.  With an error the frames queued are those of the reads
  before the one that fails, while that read gives none, not even the ones it completes.  The loop
  always returns.
\<close>

theorem chunking_is_irrelevant:
  "\<exists>s frames e. feed_chunks decoder_new chunks = Some (s, frames, e)
     \<and> feed decoder_new (concat chunks) = Some (s, at_once frames e)
     \<and> (e \<noteq> None \<longrightarrow> (\<exists>before chunk after s1. chunks = before @ chunk # after
          \<and> feed decoder_new (concat before) = Some (s1, Ok frames :: 'j frame_error + byte list list)
          \<and> feed s1 chunk = Some (s, Err (the e) :: 'j frame_error + byte list list)))"
proof -
  obtain s frames e where run: "feed_chunks decoder_new chunks = Some (s, frames, e)"
    "byte_feed decoder_new (concat chunks) [] = (s, at_once frames e :: 'j frame_error + byte list list)"
    and failed: "e \<noteq> None \<longrightarrow> (\<exists>before chunk after s1. chunks = before @ chunk # after
        \<and> byte_feed decoder_new (concat before) [] = (s1, Ok frames :: 'j frame_error + byte list list)
        \<and> byte_feed s1 chunk [] = (s, Err (the e) :: 'j frame_error + byte list list))"
    using feed_chunks_bytes [where ?'a = 'j, OF decoder_ok_new, of chunks] by blast
  have "\<exists>before chunk after s1. chunks = before @ chunk # after
        \<and> feed decoder_new (concat before) = Some (s1, Ok frames :: 'j frame_error + byte list list)
        \<and> feed s1 chunk = Some (s, Err (the e) :: 'j frame_error + byte list list)" if failing: "e \<noteq> None"
  proof -
    from failed failing obtain before chunk after s1 where
      parts: "chunks = before @ chunk # after"
        "byte_feed decoder_new (concat before) [] = (s1, Ok frames :: 'j frame_error + byte list list)"
        "byte_feed s1 chunk [] = (s, Err (the e) :: 'j frame_error + byte list list)" by blast
    from byte_feed_ok [OF decoder_ok_new parts(2)] parts show ?thesis
      by (metis feed_bytes decoder_ok_new)
  qed
  with run show ?thesis by (auto simp: feed_bytes decoder_ok_new)
qed

theorem chunking_is_irrelevant_witness:
  "feed_chunks decoder_new [[0, 0, 0, 1, 9], [0, 0], [0, 0 :: byte]] =
     Some (PoisonedState, [[9]], Some EmptyFrame :: unit frame_error option)
   \<and> feed decoder_new [0, 0, 0, 1, 9, 0, 0, 0, 0 :: byte] =
     Some (PoisonedState, Err EmptyFrame :: unit frame_error + byte list list)"
proof -
  let ?chunks = "[[0, 0, 0, 1, 9], [0, 0], [0, 0 :: byte]]"
  have heads: "be_nat [0, 0, 0, 1] = 1" "be_nat [0, 0, 0, 0] = 0" by code_simp+
  have ok: "decoder_ok (Header [])" "decoder_ok (Header [0, 0])" by (simp_all add: decoder_ok_def)
  have "feed_chunks decoder_new ?chunks = Some (PoisonedState, [[9]], Some EmptyFrame :: unit frame_error option)"
    by (simp add: decoder_new_def feed_bytes ok header_done_def max_frame_bytes_def heads)
  with chunking_is_irrelevant [of ?chunks, where ?'j = unit] show ?thesis by (auto simp: at_once_def)
qed

text \<open>
  C36. Encoded frames decode to the payloads they carry: whatever values are encoded, in whatever
  pieces the concatenated frames arrive, the decoder returns the JSON texts of the values in order
  and is left ready for the next header.
\<close>

theorem frames_round_trip:
  assumes "list_all2 (\<lambda>v f. encode_frame to_json v = Ok f) vals frames"
    and "concat chunks = concat frames"
  shows "\<exists>payloads. map to_json vals = map Ok payloads
     \<and> feed_chunks decoder_new chunks = Some (decoder_new, payloads, None :: 'c frame_error option)"
proof -
  from byte_feed_frames [where ?'c = 'c, OF assms(1), of "[]"] obtain payloads where
    "map to_json vals = map Ok payloads"
    "byte_feed decoder_new (concat chunks) [] = (decoder_new, Ok payloads :: 'c frame_error + byte list list)"
    unfolding decoder_new_def assms(2) by auto
  with feed_chunks_Ok show ?thesis by blast
qed

theorem frames_round_trip_witness:
  "\<exists>payloads. map (\<lambda>v. Ok v :: unit + byte list) [[7, 8], [9]] = map Ok payloads
     \<and> feed_chunks decoder_new [[0, 0], [0, 2, 7, 8, 0, 0, 0], [1, 9 :: byte]] =
        Some (decoder_new, payloads, None :: unit frame_error option)"
proof (rule frames_round_trip)
  show "list_all2 (\<lambda>v f. encode_frame (\<lambda>v. Ok v :: unit + byte list) v = Ok f)
      [[7, 8], [9]] [[0, 0, 0, 2, 7, 8], [0, 0, 0, 1, 9]]"
  proof -
    have "be_bytes 4 (Suc 0) = [0, 0, 0, 1]" "be_bytes 4 (Suc (Suc 0)) = [0, 0, 0, 2]"
      by code_simp+
    then show ?thesis by (simp add: encode_frame_def max_frame_bytes_def del: be_bytes.simps)
  qed
  show "concat [[0, 0], [0, 2, 7, 8, 0, 0, 0], [1, 9 :: byte]] =
      concat [[0, 0, 0, 2, 7, 8], [0, 0, 0, 1, 9]]"
    by simp
qed

text \<open>
  C37. The decoder never holds more than one frame of the maximal size, and an error closes it for
  good: after any reads it is poisoned or there was no error, and a poisoned decoder refuses every
  further byte.
\<close>

theorem decoder_bounded_and_closed:
  "\<exists>s frames e. feed_chunks decoder_new chunks = Some (s, frames, e :: 'j frame_error option)
     \<and> buffered_bytes s \<le> max_frame_bytes
     \<and> (s = PoisonedState \<or> e = None)
     \<and> feed PoisonedState (b # bs) = Some (PoisonedState, Err DecoderPoisoned :: 'j frame_error + byte list list)"
proof -
  have bound: "buffered_bytes s \<le> max_frame_bytes" if "decoder_ok s" for s
    using that by (cases s) (auto simp: decoder_ok_def buffered_bytes_def max_frame_bytes_def)
  obtain s frames e where run: "feed_chunks decoder_new chunks = Some (s, frames, e)"
    and bytes: "byte_feed decoder_new (concat chunks) [] = (s, at_once frames e :: 'j frame_error + byte list list)"
    using feed_chunks_bytes [where ?'a = 'j, OF decoder_ok_new, of chunks] by blast
  have "s = PoisonedState \<or> e = None"
    using bytes byte_feed_closed [of decoder_new "concat chunks" "[]" s] by (cases e) (auto simp: at_once_def)
  moreover have "decoder_ok s" using byte_feed_ok [OF decoder_ok_new bytes] .
  moreover have "decoder_ok PoisonedState" by (simp add: decoder_ok_def)
  ultimately show ?thesis using run bound [of s] by (simp add: feed_bytes)
qed

end
