(* ===== verification/Ipc_Auth.thy ===== *)
theory Ipc_Auth
  imports Ordered_Map
begin

text \<open>
  Challenge-response authentication (\<open>crates/workflow-ipc/src/auth.rs\<close>).  HMAC-SHA-256 is the
  argument \<open>hmac\<close>; nonces, secrets and tags are byte lists; instants are \<open>i64\<close> milliseconds.
\<close>

section \<open>Data\<close>

definition auth_domain :: "byte list" where
  "auth_domain = map of_char ''opencode-cycle-ipc-auth-v1''"

definition max_used_challenges :: nat where "max_used_challenges = 4096"

record challenge =
  expires_at :: i64
  challenge_nonce :: "byte list"

record challenge_response =
  response_mac :: "byte list"
  response_nonce :: "byte list"

datatype auth_error = AuthExpired | AuthInvalid | AuthReplayed | AuthSaturated

record authenticator =
  auth_secret :: "byte list"
  used :: "(byte list, i64) btree_map"

definition authenticator_new :: "byte list \<Rightarrow> authenticator" where
  "authenticator_new secret = \<lparr>auth_secret = secret, used = []\<rparr>"

text \<open>\<open>i64::to_be_bytes\<close>: two's complement.\<close>

definition i64_bytes :: "i64 \<Rightarrow> byte list" where
  "i64_bytes t = be_u64 (of_int t)"

definition mac_message :: "challenge \<Rightarrow> byte list" where
  "mac_message c = auth_domain @ challenge_nonce c @ i64_bytes (expires_at c)"

definition calculate_mac ::
  "(byte list \<Rightarrow> byte list \<Rightarrow> byte list) \<Rightarrow> byte list \<Rightarrow> challenge \<Rightarrow> byte list" where
  "calculate_mac hmac secret c = hmac secret (mac_message c)"

definition respond ::
  "(byte list \<Rightarrow> byte list \<Rightarrow> byte list) \<Rightarrow> byte list \<Rightarrow> challenge \<Rightarrow> challenge_response" where
  "respond hmac secret c =
     \<lparr>response_mac = calculate_mac hmac secret c, response_nonce = challenge_nonce c\<rparr>"

definition retain :: "i64 \<Rightarrow> (byte list, i64) btree_map \<Rightarrow> (byte list, i64) btree_map" where
  "retain now m = filter (\<lambda>(_, expiry). expiry \<ge> now) m"

definition auth_verify ::
  "(byte list \<Rightarrow> byte list \<Rightarrow> byte list) \<Rightarrow> authenticator \<Rightarrow> challenge \<Rightarrow> challenge_response \<Rightarrow> i64 \<Rightarrow>
     authenticator \<times> (auth_error + unit)" where
  "auth_verify hmac a c r now =
     (if now > expires_at c then (a, Err AuthExpired)
      else let a = a\<lparr>used := retain now (used a)\<rparr> in
        if bt_get (used a) (challenge_nonce c) \<noteq> None then (a, Err AuthReplayed)
        else if length (used a) \<ge> max_used_challenges then (a, Err AuthSaturated)
        else if response_nonce r \<noteq> challenge_nonce c then (a, Err AuthInvalid)
        else if response_mac r \<noteq> calculate_mac hmac (auth_secret a) c then (a, Err AuthInvalid)
        else (a\<lparr>used := bt_insert (challenge_nonce c) (expires_at c) (used a)\<rparr>, Ok ()))"

section \<open>The table of used challenges\<close>

lemma retain_wf: "bt_wf m \<Longrightarrow> bt_wf (retain now m)"
  unfolding bt_wf_def retain_def sorted_wrt_map by (rule sorted_wrt_filter)

lemma retain_get:
  "bt_wf m \<Longrightarrow> bt_get (retain now m) n = Some e \<longleftrightarrow> bt_get m n = Some e \<and> e \<ge> now"
  using retain_wf [of m now] by (auto simp: bt_get_Some_iff) (auto simp: retain_def)

lemma retain_length: "length (retain now m) \<le> length m"
  by (simp add: retain_def)

definition auth_ok :: "authenticator \<Rightarrow> bool" where
  "auth_ok a \<longleftrightarrow> bt_wf (used a) \<and> length (used a) \<le> max_used_challenges"

lemma auth_verify_ok: "auth_ok a \<Longrightarrow> auth_ok (fst (auth_verify hmac a c r now))"
  using retain_length [of now "used a"] bt_insert_length [of "challenge_nonce c" "expires_at c"
      "retain now (used a)"]
  by (auto simp: auth_verify_def auth_ok_def Let_def retain_wf bt_wf_insert)

lemma auth_verify_secret: "auth_secret (fst (auth_verify hmac a c r now)) = auth_secret a"
  by (simp add: auth_verify_def Let_def)

text \<open>
  An accepted nonce stays in the table until its challenge has expired, whatever else is
  presented in between.
\<close>

lemma used_survives:
  assumes "auth_ok a" and "bt_get (used a) n = Some e" and "now \<le> e"
  shows "bt_get (used (fst (auth_verify hmac a c r now))) n = Some e"
  using assms retain_get [of "used a" now n e] retain_wf [of "used a" now]
  by (auto simp: auth_verify_def Let_def auth_ok_def bt_get_insert)

text \<open>A session: attempts at increasing times.\<close>

type_synonym attempt = "challenge \<times> challenge_response \<times> i64"

fun attempts ::
  "(byte list \<Rightarrow> byte list \<Rightarrow> byte list) \<Rightarrow> authenticator \<Rightarrow> attempt list \<Rightarrow>
     authenticator \<times> (auth_error + unit) list" where
  "attempts hmac a [] = (a, [])"
| "attempts hmac a ((c, r, now) # rest) =
     (case auth_verify hmac a c r now of
        (a', result) \<Rightarrow> (case attempts hmac a' rest of (a'', results) \<Rightarrow> (a'', result # results)))"

abbreviation attempt_time :: "attempt \<Rightarrow> i64" where
  "attempt_time x \<equiv> snd (snd x)"

lemma attempts_ok: "auth_ok a \<Longrightarrow> auth_ok (fst (attempts hmac a xs))"
proof (induction xs arbitrary: a)
  case (Cons x xs)
  obtain c r now where x: "x = (c, r, now)" by (cases x)
  obtain a' result where "auth_verify hmac a c r now = (a', result)" by fastforce
  with auth_verify_ok [OF Cons.prems, of hmac c r now] Cons.IH [of a'] x show ?case
    by (auto split: prod.splits)
qed simp

lemma attempts_survive:
  "auth_ok a \<Longrightarrow> bt_get (used a) n = Some e \<Longrightarrow> \<forall>x \<in> set xs. attempt_time x \<le> e \<Longrightarrow>
   bt_get (used (fst (attempts hmac a xs))) n = Some e"
proof (induction xs arbitrary: a)
  case (Cons x xs)
  obtain c r now where x: "x = (c, r, now)" by (cases x)
  obtain a' result where v: "auth_verify hmac a c r now = (a', result)" by fastforce
  with auth_verify_ok [OF Cons.prems(1), of hmac c r now]
    used_survives [OF Cons.prems(1,2), of now hmac c r] Cons.prems(3) x
  have "auth_ok a'" "bt_get (used a') n = Some e" by auto
  from Cons.IH [OF this] Cons.prems(3) x v show ?case by (auto split: prod.splits)
qed simp

section \<open>Properties\<close>

text \<open>
  C18. A challenge is accepted at most once.  After an accepted attempt, and any further attempts
  at times that do not pass the next one, every later attempt with the same challenge is refused: as
  expired if it comes too late, as replayed otherwise.  Until the accepted challenge expires, its nonce
  is refused under any expiry, unless that has passed already.  The table of used challenges never
  grows past its limit.  (Once the accepted challenge has expired its nonce is forgotten, so that a
  challenge with the same nonce and a later expiry counts as a new one.)
\<close>

theorem challenge_is_used_once:
  assumes "auth_ok a" and "auth_verify hmac a c r now = (a', Ok ())"
    and "\<forall>x \<in> set xs. attempt_time x \<le> later" and "challenge_nonce c' = challenge_nonce c"
  shows "snd (auth_verify hmac (fst (attempts hmac a' xs)) c r' later) =
      (if later > expires_at c then Err AuthExpired else Err AuthReplayed)
     \<and> (later \<le> expires_at c \<longrightarrow> snd (auth_verify hmac (fst (attempts hmac a' xs)) c' r' later) =
          (if later > expires_at c' then Err AuthExpired else Err AuthReplayed))
     \<and> length (used (fst (attempts hmac a' xs))) \<le> max_used_challenges"
proof (intro conjI impI)
  let ?b = "fst (attempts hmac a' xs)"
  have a': "auth_ok a'" using auth_verify_ok [OF assms(1), of hmac c r now] assms(2) by simp
  then have b: "auth_ok ?b" by (rule attempts_ok)
  then show "length (used ?b) \<le> max_used_challenges" by (simp add: auth_ok_def)
  have get: "bt_get (used a') (challenge_nonce c) = Some (expires_at c)"
    using assms(1,2) retain_wf [of "used a" now]
    by (auto simp: auth_verify_def Let_def auth_ok_def bt_get_insert split: if_splits)
  have replayed: "snd (auth_verify hmac ?b c' r' later) =
      (if later > expires_at c' then Err AuthExpired else Err AuthReplayed)"
    if "later \<le> expires_at c" and "challenge_nonce c' = challenge_nonce c" for c'
  proof (cases "later > expires_at c'")
    case False
    from that assms(3) have "\<forall>x \<in> set xs. attempt_time x \<le> expires_at c" by force
    from attempts_survive [OF a' get this] have
      "bt_get (used ?b) (challenge_nonce c) = Some (expires_at c)" .
    with that(1) b have "bt_get (retain later (used ?b)) (challenge_nonce c) = Some (expires_at c)"
      by (simp add: retain_get auth_ok_def)
    with False that(2) show ?thesis by (simp add: auth_verify_def Let_def)
  qed (simp add: auth_verify_def)
  show "snd (auth_verify hmac ?b c r' later) =
      (if later > expires_at c then Err AuthExpired else Err AuthReplayed)"
    using replayed [of c] by (cases "later > expires_at c") (simp_all add: auth_verify_def)
  show "snd (auth_verify hmac ?b c' r' later) =
      (if later > expires_at c' then Err AuthExpired else Err AuthReplayed)" if "later \<le> expires_at c"
    using replayed [OF that assms(4)] .
qed

definition sample_challenge :: challenge where
  "sample_challenge = \<lparr>expires_at = 100, challenge_nonce = [1, 2]\<rparr>"

definition toy_hmac :: "byte list \<Rightarrow> byte list \<Rightarrow> byte list" where
  "toy_hmac secret message = secret @ message"

theorem challenge_is_used_once_witness:
  "snd (auth_verify toy_hmac (authenticator_new [9]) sample_challenge
      (respond toy_hmac [9] sample_challenge) 50) = Ok ()
   \<and> snd (auth_verify toy_hmac (fst (auth_verify toy_hmac (authenticator_new [9]) sample_challenge
      (respond toy_hmac [9] sample_challenge) 50)) sample_challenge
      (respond toy_hmac [9] sample_challenge) 60) = Err AuthReplayed"
proof -
  let ?r = "respond toy_hmac [9] sample_challenge"
  let ?a = "authenticator_new [9]"
  have ok: "auth_ok ?a" by (simp add: auth_ok_def authenticator_new_def)
  have first: "snd (auth_verify toy_hmac ?a sample_challenge ?r 50) = Ok ()"
    by (simp add: auth_verify_def authenticator_new_def sample_challenge_def respond_def
        retain_def max_used_challenges_def)
  then have "auth_verify toy_hmac ?a sample_challenge ?r 50 =
      (fst (auth_verify toy_hmac ?a sample_challenge ?r 50), Ok ())"
    by (metis prod.collapse)
  from challenge_is_used_once [OF ok this _ refl, of "[]" 60 ?r] first show ?thesis
    by (simp add: sample_challenge_def)
qed

text \<open>
  Only the holder of the secret gets in: an attempt is accepted exactly when the challenge has
  not expired, its nonce is not in the table of unexpired used ones, the table has room, and the
  response is the one \<open>respond\<close> computes with the authenticator's secret.
\<close>

theorem authentication_accepts_iff:
  "snd (auth_verify hmac a c r now) = Ok () \<longleftrightarrow>
     now \<le> expires_at c \<and> bt_get (retain now (used a)) (challenge_nonce c) = None
     \<and> length (retain now (used a)) < max_used_challenges
     \<and> r = respond hmac (auth_secret a) c"
  by (cases r) (auto simp: auth_verify_def Let_def respond_def)

end
