(* ===== verification/Scheduler.thy ===== *)
theory Scheduler
  imports Ordered_Map Cycle_Digest
begin

text \<open>
  The scheduler of the daemon (\<open>crates/workflowd/src/scheduler\<close>): the queue that takes turns among
  projects and picks by priority within one (\<open>queue.rs\<close>), and the capacity limits per class of
  work (\<open>classes.rs\<close>).
\<close>

section \<open>The fair queue (queue.rs)\<close>

datatype scheduling_state = TaskReady | TaskPaused | TaskBlocked

text \<open>The priority is an \<open>i16\<close>, which is only compared.\<close>

record scheduled_task =
  priority :: int
  scheduled_project :: project_id
  scheduled_task_id :: task_id
  scheduled_workflow :: workflow_id

record queue_entry =
  queue_sequence :: u64
  queue_state :: scheduling_state
  queue_task :: scheduled_task

record fair_queue =
  projects :: "(project_id, queue_entry list) btree_map"
  rotation :: "project_id list"
  next_queue_sequence :: u64
  queued_tasks :: "task_id list"

definition fair_queue_new :: fair_queue where
  "fair_queue_new = \<lparr>projects = [], rotation = [], next_queue_sequence = 0, queued_tasks = []\<rparr>"

definition entries_of :: "fair_queue \<Rightarrow> project_id \<Rightarrow> queue_entry list" where
  "entries_of q p = (case bt_get (projects q) p of None \<Rightarrow> [] | Some es \<Rightarrow> es)"

definition enqueue :: "fair_queue \<Rightarrow> scheduled_task \<Rightarrow> scheduling_state \<Rightarrow> fair_queue \<times> bool" where
  "enqueue q task state =
     (if scheduled_task_id task \<in> set (queued_tasks q) then (q, False)
      else
        let p = scheduled_project task;
            is_new = bt_get (projects q) p = None;
            entry = \<lparr>queue_sequence = next_queue_sequence q, queue_state = state, queue_task = task\<rparr>
        in (q\<lparr>queued_tasks := bs_insert (scheduled_task_id task) (queued_tasks q),
              next_queue_sequence := saturating_add (next_queue_sequence q) 1,
              projects := bt_insert p (entries_of q p @ [entry]) (projects q),
              rotation := (if is_new then rotation q @ [p] else rotation q)\<rparr>, True))"

definition set_workflow_state :: "fair_queue \<Rightarrow> workflow_id \<Rightarrow> scheduling_state \<Rightarrow> fair_queue" where
  "set_workflow_state q w state =
     q\<lparr>projects := map (\<lambda>(p, es). (p, map (\<lambda>e.
         if scheduled_workflow (queue_task e) = w then e\<lparr>queue_state := state\<rparr> else e) es))
       (projects q)\<rparr>"

text \<open>
  \<open>max_by_key\<close> over \<open>(priority, Reverse(sequence))\<close> among the ready entries, with their indices;
  of several maximal elements it returns the last.
\<close>

definition key_le :: "queue_entry \<Rightarrow> queue_entry \<Rightarrow> bool" where
  "key_le a b \<longleftrightarrow> priority (queue_task a) < priority (queue_task b)
     \<or> (priority (queue_task a) = priority (queue_task b) \<and> queue_sequence b \<le> queue_sequence a)"

fun max_by_key :: "(nat \<times> queue_entry) option \<Rightarrow> (nat \<times> queue_entry) list \<Rightarrow> (nat \<times> queue_entry) option" where
  "max_by_key best [] = best"
| "max_by_key None (x # xs) = max_by_key (Some x) xs"
| "max_by_key (Some b) (x # xs) = max_by_key (Some (if key_le (snd b) (snd x) then x else b)) xs"

definition select_ready :: "queue_entry list \<Rightarrow> nat option" where
  "select_ready es =
     map_option fst (max_by_key None
       (filter (\<lambda>(_, e). queue_state e = TaskReady) (enumerate 0 es)))"

text \<open>\<open>Vec::remove\<close>.\<close>

definition remove_at :: "nat \<Rightarrow> 'a list \<Rightarrow> 'a list" where
  "remove_at i xs = take i xs @ drop (Suc i) xs"

fun pop_loop :: "nat \<Rightarrow> fair_queue \<Rightarrow> fair_queue \<times> scheduled_task option" where
  "pop_loop 0 q = (q, None)"
| "pop_loop (Suc n) q =
     (case rotation q of
        [] \<Rightarrow> (q, None)
      | p # rest \<Rightarrow>
          let q = q\<lparr>rotation := rest\<rparr> in
          (case bt_get (projects q) p of
             None \<Rightarrow> (q, None)
           | Some es \<Rightarrow>
               (case select_ready es of
                  Some i \<Rightarrow>
                    let entry = es ! i; es = remove_at i es;
                        q = q\<lparr>queued_tasks :=
                          filter (\<lambda>t. t \<noteq> scheduled_task_id (queue_task entry)) (queued_tasks q)\<rparr>
                    in (if es = [] then q\<lparr>projects := bt_remove p (projects q)\<rparr>
                        else q\<lparr>projects := bt_set p es (projects q), rotation := rest @ [p]\<rparr>,
                        Some (queue_task entry))
                | None \<Rightarrow> pop_loop n (q\<lparr>rotation := rest @ [p]\<rparr>))))"

definition pop :: "fair_queue \<Rightarrow> fair_queue \<times> scheduled_task option" where
  "pop q = pop_loop (length (rotation q)) q"

definition queue_len :: "fair_queue \<Rightarrow> nat" where
  "queue_len q = length (queued_tasks q)"

definition queue_is_empty :: "fair_queue \<Rightarrow> bool" where
  "queue_is_empty q \<longleftrightarrow> queued_tasks q = []"

section \<open>Capacity (classes.rs)\<close>

datatype work_class =
    RemoteModel string
  | LocalModel
  | BuildWork
  | BrowserWork
  | DatabaseWork
  | Indexing

text \<open>The derived order: by variant, then by content.\<close>

fun class_rank :: "work_class \<Rightarrow> nat \<times> string" where
  "class_rank (RemoteModel s) = (0, s)"
| "class_rank LocalModel = (1, [])"
| "class_rank BuildWork = (2, [])"
| "class_rank BrowserWork = (3, [])"
| "class_rank DatabaseWork = (4, [])"
| "class_rank Indexing = (5, [])"

lemma class_rank_inject [simp]: "class_rank a = class_rank b \<longleftrightarrow> a = b"
  by (cases a; cases b) auto

instantiation work_class :: linorder
begin

definition less_eq_work_class :: "work_class \<Rightarrow> work_class \<Rightarrow> bool" where
  "less_eq_work_class a b \<longleftrightarrow> fst (class_rank a) < fst (class_rank b)
     \<or> (fst (class_rank a) = fst (class_rank b) \<and> snd (class_rank a) \<le> snd (class_rank b))"

definition less_work_class :: "work_class \<Rightarrow> work_class \<Rightarrow> bool" where
  "less_work_class a b \<longleftrightarrow> fst (class_rank a) < fst (class_rank b)
     \<or> (fst (class_rank a) = fst (class_rank b) \<and> snd (class_rank a) < snd (class_rank b))"

instance
proof
  fix a b :: work_class
  assume "a \<le> b" "b \<le> a"
  then have "class_rank a = class_rank b"
    by (intro prod_eqI) (auto simp: less_eq_work_class_def)
  then show "a = b" by simp
qed (auto simp: less_eq_work_class_def less_work_class_def)

end

datatype capacity_decision = Admitted | AtCapacity | ProviderBackoff | Unconfigured

record capacity_limiter =
  active :: "(work_class, u16) btree_map"
  backoff_until :: "(string, i64) btree_map"
  limits :: "(work_class, u16) btree_map"

definition limiter_new :: "(work_class, u16) btree_map \<Rightarrow> capacity_limiter" where
  "limiter_new ls = \<lparr>active = [], backoff_until = [], limits = ls\<rparr>"

definition in_backoff :: "capacity_limiter \<Rightarrow> work_class \<Rightarrow> i64 \<Rightarrow> bool" where
  "in_backoff l c now =
     (case c of
        RemoteModel provider \<Rightarrow>
          (case bt_get (backoff_until l) provider of None \<Rightarrow> False | Some until \<Rightarrow> until > now)
      | _ \<Rightarrow> False)"

definition try_admit ::
  "capacity_limiter \<Rightarrow> work_class \<Rightarrow> i64 \<Rightarrow> capacity_limiter \<times> capacity_decision" where
  "try_admit l c now =
     (if in_backoff l c now then (l, ProviderBackoff)
      else case bt_get (limits l) c of
        None \<Rightarrow> (l, Unconfigured)
      | Some limit \<Rightarrow>
          let n = (case bt_get (active l) c of None \<Rightarrow> 0 | Some n \<Rightarrow> n);
              l = l\<lparr>active := bt_insert c n (active l)\<rparr>
          in if n \<ge> limit then (l, AtCapacity)
             else (l\<lparr>active := bt_set c (n + 1) (active l)\<rparr>, Admitted))"

definition release_work :: "capacity_limiter \<Rightarrow> work_class \<Rightarrow> capacity_limiter \<times> bool" where
  "release_work l c =
     (case bt_get (active l) c of
        None \<Rightarrow> (l, False)
      | Some n \<Rightarrow> if n = 0 then (l, False)
          else (l\<lparr>active := bt_set c (n - 1) (active l)\<rparr>, True))"

definition backoff_provider :: "capacity_limiter \<Rightarrow> string \<Rightarrow> i64 \<Rightarrow> capacity_limiter" where
  "backoff_provider l provider until =
     l\<lparr>backoff_until := bt_insert provider until (backoff_until l)\<rparr>"

section \<open>Selecting an entry\<close>

lemma key_le_refl [simp]: "key_le a a"
  by (simp add: key_le_def)

lemma key_le_trans: "key_le a b \<Longrightarrow> key_le b c \<Longrightarrow> key_le a c"
  by (auto simp: key_le_def)

lemma key_le_total: "\<not> key_le a b \<Longrightarrow> key_le b a"
  by (auto simp: key_le_def)

lemma max_by_key_Some:
  "\<exists>r. max_by_key (Some b) xs = Some r \<and> r \<in> insert b (set xs)
     \<and> (\<forall>x \<in> insert b (set xs). key_le (snd x) (snd r))"
proof (induction xs arbitrary: b)
  case (Cons x xs)
  let ?b = "if key_le (snd b) (snd x) then x else b"
  from Cons obtain r where r: "max_by_key (Some ?b) xs = Some r" "r \<in> insert ?b (set xs)"
    "\<forall>y \<in> insert ?b (set xs). key_le (snd y) (snd r)"
    by blast
  have "key_le (snd b) (snd ?b)" "key_le (snd x) (snd ?b)"
    using key_le_total by (auto split: if_splits)
  moreover have "key_le (snd ?b) (snd r)" using r(3) by blast
  ultimately have "key_le (snd b) (snd r)" "key_le (snd x) (snd r)"
    using key_le_trans by blast+
  with r show ?case by (auto split: if_splits)
qed simp

definition is_ready :: "queue_entry \<Rightarrow> bool" where
  "is_ready e \<longleftrightarrow> queue_state e = TaskReady"

lemma enumerate_ready:
  "(i, e) \<in> set (filter (\<lambda>(_, e). queue_state e = TaskReady) (enumerate 0 es)) \<longleftrightarrow>
     i < length es \<and> e = es ! i \<and> is_ready e"
  by (auto simp: in_set_enumerate_eq is_ready_def)

lemma select_ready_None: "select_ready es = None \<longleftrightarrow> (\<forall>e \<in> set es. \<not> is_ready e)"
proof (cases "filter (\<lambda>(_, e). queue_state e = TaskReady) (enumerate 0 es)")
  case Nil
  then have "\<not> (i < length es \<and> is_ready (es ! i))" for i
    using enumerate_ready [of i "es ! i" es] by auto
  with Nil show ?thesis by (auto simp: select_ready_def in_set_conv_nth)
next
  case (Cons x xs)
  then have "fst x < length es \<and> is_ready (es ! fst x)"
    using enumerate_ready [of "fst x" "snd x" es] by auto
  then have "\<exists>e \<in> set es. is_ready e" using nth_mem by blast
  moreover have "select_ready es \<noteq> None"
    using Cons max_by_key_Some [of x xs] by (auto simp: select_ready_def)
  ultimately show ?thesis by blast
qed

lemma select_ready_Some:
  assumes "select_ready es = Some i"
  shows "i < length es \<and> is_ready (es ! i) \<and> (\<forall>e \<in> set es. is_ready e \<longrightarrow> key_le e (es ! i))"
proof -
  let ?xs = "filter (\<lambda>(_, e). queue_state e = TaskReady) (enumerate 0 es)"
  from assms obtain x xs where xs: "?xs = x # xs" by (cases ?xs) (auto simp: select_ready_def)
  from max_by_key_Some [of x xs] obtain r where r: "max_by_key (Some x) xs = Some r"
    "r \<in> set ?xs" "\<forall>y \<in> set ?xs. key_le (snd y) (snd r)"
    unfolding xs by auto
  with assms xs have "fst r = i" by (simp add: select_ready_def)
  with r(2) enumerate_ready [of "fst r" "snd r" es]
  have i: "i < length es" "snd r = es ! i" "is_ready (es ! i)" by auto
  moreover have "key_le e (es ! i)" if "e \<in> set es" "is_ready e" for e
  proof -
    from that(1) obtain j where "j < length es" "es ! j = e" by (auto simp: in_set_conv_nth)
    with that(2) enumerate_ready [of j e es] have "(j, e) \<in> set ?xs" by simp
    with r(3) i(2) show ?thesis by fastforce
  qed
  ultimately show ?thesis by blast
qed

section \<open>The invariant of the queue\<close>

definition entry_id :: "queue_entry \<Rightarrow> task_id" where
  "entry_id e = scheduled_task_id (queue_task e)"

definition queue_ok :: "fair_queue \<Rightarrow> bool" where
  "queue_ok q \<longleftrightarrow> bt_wf (projects q) \<and> distinct (rotation q)
     \<and> set (rotation q) = set (bt_keys (projects q)) \<and> (\<forall>p \<in> set (rotation q). entries_of q p \<noteq> [])
     \<and> (\<forall>p e. e \<in> set (entries_of q p) \<longrightarrow> scheduled_project (queue_task e) = p)
     \<and> (\<forall>p. distinct (map entry_id (entries_of q p)))
     \<and> (\<forall>p p' e e'. e \<in> set (entries_of q p) \<and> e' \<in> set (entries_of q p') \<and> entry_id e = entry_id e'
          \<longrightarrow> p = p')
     \<and> (\<forall>t. t \<in> set (queued_tasks q) \<longleftrightarrow> (\<exists>p. t \<in> entry_id ` set (entries_of q p)))"

lemma queue_ok_new: "queue_ok fair_queue_new"
  by (simp add: queue_ok_def fair_queue_new_def entries_of_def)

lemma entries_of_key:
  "e \<in> set (entries_of q p) \<Longrightarrow> p \<in> set (bt_keys (projects q))"
  using bt_get_None_iff [of "projects q" p]
  by (auto simp: entries_of_def simp del: set_map split: option.splits)

lemma entries_of_insert:
  "bt_wf (projects q) \<Longrightarrow>
   entries_of (q\<lparr>projects := bt_insert p es (projects q)\<rparr>) = (entries_of q)(p := es)"
  by (rule ext) (simp add: entries_of_def bt_get_insert)

lemma enqueue_ok:
  fixes state :: scheduling_state
  assumes ok: "queue_ok q" and new: "scheduled_task_id t \<notin> set (queued_tasks q)"
  defines "p \<equiv> scheduled_project t"
  defines "e \<equiv> \<lparr>queue_sequence = next_queue_sequence q, queue_state = state, queue_task = t\<rparr>"
  shows "snd (enqueue q t state)" and "queue_ok (fst (enqueue q t state))"
    and "entries_of (fst (enqueue q t state)) = (entries_of q)(p := entries_of q p @ [e])"
    and "set (queued_tasks (fst (enqueue q t state))) =
      insert (scheduled_task_id t) (set (queued_tasks q))"
proof -
  let ?q = "fst (enqueue q t state)"
  from ok have wf: "bt_wf (projects q)" by (simp add: queue_ok_def)
  have proj: "projects ?q = bt_insert p (entries_of q p @ [e]) (projects q)"
    and rot: "rotation ?q = (if bt_get (projects q) p = None then rotation q @ [p] else rotation q)"
    and tasks: "queued_tasks ?q = bs_insert (scheduled_task_id t) (queued_tasks q)"
    using new by (simp_all add: enqueue_def Let_def p_def e_def)
  show "snd (enqueue q t state)" using new by (simp add: enqueue_def Let_def)
  show ent: "entries_of ?q = (entries_of q)(p := entries_of q p @ [e])"
    by (rule ext) (simp add: entries_of_def proj bt_get_insert [OF wf])
  show ids: "set (queued_tasks ?q) = insert (scheduled_task_id t) (set (queued_tasks q))"
    by (simp add: tasks set_insort_insert)
  have fresh: "scheduled_task_id t \<notin> entry_id ` set (entries_of q r)" for r
    using ok new by (auto simp: queue_ok_def)
  have eid: "entry_id e = scheduled_task_id t" by (simp add: entry_id_def e_def)
  have "p \<in> set (bt_keys (projects q)) \<longleftrightarrow> bt_get (projects q) p \<noteq> None"
    using bt_get_None_iff [of "projects q" p] by simp
  then have keys: "distinct (rotation ?q)" "set (rotation ?q) = set (bt_keys (projects ?q))"
    using ok unfolding proj bt_keys_insert rot by (auto simp: queue_ok_def simp del: set_map)
  have "\<forall>r \<in> set (rotation ?q). entries_of ?q r \<noteq> []"
    using ok unfolding ent rot by (auto simp: queue_ok_def)
  moreover have "\<forall>r x. x \<in> set (entries_of ?q r) \<longrightarrow> scheduled_project (queue_task x) = r"
    using ok unfolding ent by (auto simp: queue_ok_def e_def p_def)
  moreover have "\<forall>r. distinct (map entry_id (entries_of ?q r))"
    using ok fresh [of p] unfolding ent by (auto simp: queue_ok_def eid)
  moreover have "\<forall>r r' x x'. x \<in> set (entries_of ?q r) \<and> x' \<in> set (entries_of ?q r')
      \<and> entry_id x = entry_id x' \<longrightarrow> r = r'"
  proof (intro allI impI, elim conjE)
    fix r r' x x'
    assume x: "x \<in> set (entries_of ?q r)" "x' \<in> set (entries_of ?q r')" "entry_id x = entry_id x'"
    have old: "x \<in> set (entries_of q r) \<or> (x = e \<and> r = p)"
      "x' \<in> set (entries_of q r') \<or> (x' = e \<and> r' = p)"
      using x(1,2) unfolding ent by (auto split: if_splits)
    have "\<not> (x \<in> set (entries_of q r) \<and> x' = e)" "\<not> (x' \<in> set (entries_of q r') \<and> x = e)"
      using x(3) fresh [of r] fresh [of r'] eid by (metis imageI)+
    with old x(3) ok show "r = r'" unfolding queue_ok_def by blast
  qed
  moreover have "\<forall>i. i \<in> set (queued_tasks ?q) \<longleftrightarrow> (\<exists>r. i \<in> entry_id ` set (entries_of ?q r))"
  proof
    fix i
    have "(\<exists>r. i \<in> entry_id ` set (entries_of ?q r)) \<longleftrightarrow>
        i = entry_id e \<or> (\<exists>r. i \<in> entry_id ` set (entries_of q r))"
      unfolding ent by (auto split: if_splits)
    with ok show "i \<in> set (queued_tasks ?q) \<longleftrightarrow> (\<exists>r. i \<in> entry_id ` set (entries_of ?q r))"
      unfolding ids eid by (auto simp: queue_ok_def)
  qed
  moreover have "bt_wf (projects ?q)" unfolding proj by (rule bt_wf_insert [OF wf])
  ultimately show "queue_ok ?q" unfolding queue_ok_def using keys by blast
qed

section \<open>What a pop does\<close>

definition has_ready :: "fair_queue \<Rightarrow> project_id \<Rightarrow> bool" where
  "has_ready q p \<longleftrightarrow> (\<exists>e \<in> set (entries_of q p). is_ready e)"

lemma queue_rotation_get:
  "queue_ok q \<Longrightarrow> p \<in> set (rotation q) \<Longrightarrow> bt_get (projects q) p = Some (entries_of q p)"
  using bt_get_None_iff [of "projects q" p]
  by (auto simp: queue_ok_def entries_of_def simp del: set_map split: option.splits)

lemma pop_loop_skip:
  "(\<And>p. p \<in> set xs \<Longrightarrow> bt_get (projects q) p = Some (entries_of q p) \<and> \<not> has_ready q p) \<Longrightarrow>
   rotation q = xs @ ys \<Longrightarrow>
   pop_loop (length xs + n) q = pop_loop n (q\<lparr>rotation := ys @ xs\<rparr>)"
proof (induction xs arbitrary: q ys)
  case (Cons p xs)
  let ?q = "q\<lparr>rotation := xs @ ys @ [p]\<rparr>"
  have "select_ready (entries_of q p) = None"
    using Cons.prems(1) [of p] by (auto simp: select_ready_None has_ready_def)
  then have "pop_loop (length (p # xs) + n) q = pop_loop (length xs + n) ?q"
    using Cons.prems by simp
  also have "\<dots> = pop_loop n (?q\<lparr>rotation := (ys @ [p]) @ xs\<rparr>)"
    using Cons.prems(1)
    by (intro Cons.IH) (simp_all add: entries_of_def has_ready_def)
  finally show ?case by simp
qed simp

lemma pop_idle:
  assumes "queue_ok q" and "\<And>p. p \<in> set (rotation q) \<Longrightarrow> \<not> has_ready q p"
  shows "pop q = (q, None)"
  using pop_loop_skip [of "rotation q" q "[]" 0] assms queue_rotation_get [OF assms(1)]
  by (simp add: pop_def)

text \<open>The state after the first project with a ready entry has been served.\<close>

definition served_queue :: "fair_queue \<Rightarrow> project_id \<Rightarrow> nat \<Rightarrow> project_id list \<Rightarrow> fair_queue" where
  "served_queue q p i others =
     (let es = remove_at i (entries_of q p);
          q = q\<lparr>queued_tasks := filter (\<lambda>t. t \<noteq> entry_id (entries_of q p ! i)) (queued_tasks q)\<rparr>
      in if es = [] then q\<lparr>projects := bt_remove p (projects q), rotation := others\<rparr>
         else q\<lparr>projects := bt_set p es (projects q), rotation := others @ [p]\<rparr>)"

lemma pop_first_ready:
  assumes ok: "queue_ok q" and rot: "rotation q = xs @ p # ys"
    and idle: "\<And>x. x \<in> set xs \<Longrightarrow> \<not> has_ready q x" and ready: "has_ready q p"
  obtains i where "select_ready (entries_of q p) = Some i"
    "pop q = (served_queue q p i (ys @ xs), Some (queue_task (entries_of q p ! i)))"
proof -
  obtain i where i: "select_ready (entries_of q p) = Some i"
    using ready select_ready_None [of "entries_of q p"] by (auto simp: has_ready_def)
  have get: "bt_get (projects q) p = Some (entries_of q p)"
    using queue_rotation_get [OF ok] rot by simp
  have "pop q = pop_loop (Suc (length ys)) (q\<lparr>rotation := p # ys @ xs\<rparr>)"
    using pop_loop_skip [of xs q "p # ys" "Suc (length ys)"] queue_rotation_get [OF ok] idle rot
    by (simp add: pop_def)
  then have "pop q = (served_queue q p i (ys @ xs), Some (queue_task (entries_of q p ! i)))"
    using i get by (simp add: served_queue_def entry_id_def Let_def)
  with i that show ?thesis by blast
qed

lemma set_remove_at:
  "distinct (map f xs) \<Longrightarrow> i < length xs \<Longrightarrow>
   set (remove_at i xs) = {x \<in> set xs. f x \<noteq> f (xs ! i)} \<and> distinct (map f (remove_at i xs))"
proof -
  assume d: "distinct (map f xs)" and i: "i < length xs"
  have split: "xs = take i xs @ xs ! i # drop (Suc i) xs" by (rule id_take_nth_drop [OF i])
  define as bs where "as = take i xs" and "bs = drop (Suc i) xs"
  have xs: "xs = as @ xs ! i # bs" using split by (simp add: as_def bs_def)
  have d': "distinct (map f (as @ xs ! i # bs))" using d xs by metis
  have "set xs = insert (xs ! i) (set as \<union> set bs)" using xs by (metis list.set(2) set_append Un_insert_right)
  then show ?thesis using d' unfolding remove_at_def as_def [symmetric] bs_def [symmetric]
    by (auto simp: image_iff)
qed

lemma served_ok:
  assumes ok: "queue_ok q" and rot: "rotation q = xs @ p # ys" and i: "i < length (entries_of q p)"
  defines "e \<equiv> entries_of q p ! i"
  defines "q' \<equiv> served_queue q p i (ys @ xs)"
  shows "entries_of q' = (entries_of q)(p := remove_at i (entries_of q p))"
    and "set (queued_tasks q') = set (queued_tasks q) - {entry_id e}"
    and "rotation q' = ys @ xs @ (if remove_at i (entries_of q p) = [] then [] else [p])"
    and "queue_ok q'"
proof -
  let ?es = "remove_at i (entries_of q p)"
  have wf: "bt_wf (projects q)" using ok by (simp add: queue_ok_def)
  have get: "bt_get (projects q) p = Some (entries_of q p)"
    using queue_rotation_get [OF ok] rot by simp
  have proj: "projects q' = (if ?es = [] then bt_remove p (projects q) else bt_set p ?es (projects q))"
    by (simp add: q'_def served_queue_def Let_def)
  show rot': "rotation q' = ys @ xs @ (if ?es = [] then [] else [p])"
    by (simp add: q'_def served_queue_def Let_def)
  show ids: "set (queued_tasks q') = set (queued_tasks q) - {entry_id e}"
    by (auto simp: q'_def served_queue_def Let_def e_def)
  show ent: "entries_of q' = (entries_of q)(p := ?es)"
    by (rule ext) (auto simp: entries_of_def [of q'] proj bt_remove_get [OF wf] bt_get_set [OF get]
        entries_of_def split: option.splits)
  have "distinct (map entry_id (entries_of q p))" using ok by (simp add: queue_ok_def)
  from set_remove_at [OF this i]
  have es: "set ?es = {x \<in> set (entries_of q p). entry_id x \<noteq> entry_id e}"
    "distinct (map entry_id ?es)" by (simp_all add: e_def)
  have e: "e \<in> set (entries_of q p)" using i by (simp add: e_def)
  have old: "x \<in> set (entries_of q r)" if "x \<in> set (entries_of q' r)" for x r
    using that es(1) unfolding ent by (auto split: if_splits)
  have project: "scheduled_project (queue_task x) = r" if "x \<in> set (entries_of q r)" for x r
    using ok that by (simp add: queue_ok_def)
  have apart: "r = r'" if "x \<in> set (entries_of q r)" "x' \<in> set (entries_of q r')"
    "entry_id x = entry_id x'" for x x' r r'
  proof -
    have "\<forall>p p' e e'. e \<in> set (entries_of q p) \<and> e' \<in> set (entries_of q p')
        \<and> entry_id e = entry_id e' \<longrightarrow> p = p'"
      using ok unfolding queue_ok_def by (elim conjE)
    with that show ?thesis by blast
  qed
  have p_out: "p \<notin> set (xs @ ys)" "distinct (xs @ ys)" using ok rot by (auto simp: queue_ok_def)
  have "bt_wf (projects q')" using wf bt_remove_wf [OF wf] by (simp add: proj)
  moreover have "distinct (rotation q')" using p_out by (auto simp: rot')
  moreover have "set (rotation q') = set (bt_keys (projects q'))"
  proof -
    have keys: "set (bt_keys (projects q)) = insert p (set xs \<union> set ys)"
      using ok rot by (auto simp: queue_ok_def simp del: set_map)
    show ?thesis
    proof (cases "?es = []")
      case True
      then have "set (bt_keys (projects q')) = insert p (set xs \<union> set ys) - {p}"
        using keys bt_remove_keys [of p "projects q"] by (simp add: proj del: set_map)
      with True p_out(1) show ?thesis by (auto simp: rot')
    next
      case False
      then have "bt_keys (projects q') = bt_keys (projects q)" by (simp add: proj)
      then have "set (bt_keys (projects q')) = insert p (set xs \<union> set ys)" using keys by metis
      with False show ?thesis by (auto simp: rot')
    qed
  qed
  moreover have "\<forall>r \<in> set (rotation q'). entries_of q' r \<noteq> []"
  proof
    fix r assume r: "r \<in> set (rotation q')"
    have "r \<in> set (rotation q)" "r = p \<Longrightarrow> ?es \<noteq> []"
      using r rot p_out by (auto simp: rot' split: if_splits)
    then show "entries_of q' r \<noteq> []" using ok unfolding ent by (simp add: queue_ok_def)
  qed
  moreover have "\<forall>r x. x \<in> set (entries_of q' r) \<longrightarrow> scheduled_project (queue_task x) = r"
    using project old by blast
  moreover have "\<forall>r. distinct (map entry_id (entries_of q' r))"
    using ok es(2) unfolding ent by (simp add: queue_ok_def)
  moreover have "\<forall>r r' x x'. x \<in> set (entries_of q' r) \<and> x' \<in> set (entries_of q' r')
      \<and> entry_id x = entry_id x' \<longrightarrow> r = r'"
    using apart old by blast
  moreover have "\<forall>t. t \<in> set (queued_tasks q') \<longleftrightarrow> (\<exists>r. t \<in> entry_id ` set (entries_of q' r))"
  proof
    fix t
    have "(\<exists>r. t \<in> entry_id ` set (entries_of q' r)) \<longleftrightarrow>
        t \<noteq> entry_id e \<and> (\<exists>r. t \<in> entry_id ` set (entries_of q r))"
    proof
      assume "\<exists>r. t \<in> entry_id ` set (entries_of q' r)"
      then obtain r x where x: "x \<in> set (entries_of q' r)" "t = entry_id x" by blast
      have "entry_id x \<noteq> entry_id e"
      proof (cases "r = p")
        case True then show ?thesis using x(1) es(1) ent by simp
      next
        case False then show ?thesis using apart [OF old [OF x(1)] e] by blast
      qed
      with x old [OF x(1)] show "t \<noteq> entry_id e \<and> (\<exists>r. t \<in> entry_id ` set (entries_of q r))" by auto
    next
      assume "t \<noteq> entry_id e \<and> (\<exists>r. t \<in> entry_id ` set (entries_of q r))"
      then obtain r x where "x \<in> set (entries_of q r)" "t = entry_id x" "entry_id x \<noteq> entry_id e"
        by blast
      then have "x \<in> set (entries_of q' r)" using es(1) unfolding ent by auto
      with \<open>t = entry_id x\<close> show "\<exists>r. t \<in> entry_id ` set (entries_of q' r)" by blast
    qed
    with ok show "t \<in> set (queued_tasks q') \<longleftrightarrow> (\<exists>r. t \<in> entry_id ` set (entries_of q' r))"
      unfolding ids by (simp add: queue_ok_def conj_commute)
  qed
  ultimately show "queue_ok q'" unfolding queue_ok_def by blast
qed

definition restate :: "workflow_id \<Rightarrow> scheduling_state \<Rightarrow> queue_entry \<Rightarrow> queue_entry" where
  "restate w s e = (if scheduled_workflow (queue_task e) = w then e\<lparr>queue_state := s\<rparr> else e)"

lemma restate_simps [simp]:
  "queue_task (restate w s e) = queue_task e" "entry_id (restate w s e) = entry_id e"
  "entry_id \<circ> restate w s = entry_id"
  by (auto simp: restate_def entry_id_def)

lemma set_state_entries:
  "entries_of (set_workflow_state q w s) p = map (restate w s) (entries_of q p)"
  by (auto simp: entries_of_def set_workflow_state_def bt_get_def map_of_map restate_def [abs_def]
      split: option.splits)

lemma set_state_ok:
  assumes "queue_ok q"
  shows "queue_ok (set_workflow_state q w s)"
proof -
  let ?q = "set_workflow_state q w s"
  have keys: "bt_keys (projects ?q) = bt_keys (projects q)"
    by (auto simp: set_workflow_state_def)
  have same: "rotation ?q = rotation q" "queued_tasks ?q = queued_tasks q"
    by (simp_all add: set_workflow_state_def)
  have source: "\<exists>x' \<in> set (entries_of q p). x = restate w s x'" if "x \<in> set (entries_of ?q p)" for x p
    using that by (auto simp: set_state_entries)
  have ids: "entry_id ` set (entries_of ?q p) = entry_id ` set (entries_of q p)" for p
    by (simp add: set_state_entries image_image)
  have "\<forall>r x. x \<in> set (entries_of ?q r) \<longrightarrow> scheduled_project (queue_task x) = r"
    using assms source unfolding queue_ok_def by fastforce
  moreover have "\<forall>r r' x x'. x \<in> set (entries_of ?q r) \<and> x' \<in> set (entries_of ?q r')
      \<and> entry_id x = entry_id x' \<longrightarrow> r = r'"
  proof (intro allI impI, elim conjE)
    fix r r' x x'
    assume x: "x \<in> set (entries_of ?q r)" "x' \<in> set (entries_of ?q r')" "entry_id x = entry_id x'"
    from source [OF x(1)] source [OF x(2)] obtain y y' where
      "y \<in> set (entries_of q r)" "y' \<in> set (entries_of q r')" "entry_id y = entry_id y'"
      using x(3) by auto
    with assms show "r = r'" unfolding queue_ok_def by blast
  qed
  moreover have "\<forall>r. distinct (map entry_id (entries_of ?q r))"
    using assms by (simp add: queue_ok_def set_state_entries)
  moreover have "\<forall>r \<in> set (rotation ?q). entries_of ?q r \<noteq> []"
    using assms by (simp add: queue_ok_def set_state_entries same)
  ultimately show ?thesis
    using assms unfolding queue_ok_def bt_wf_def keys same ids by blast
qed

section \<open>Runs of the queue\<close>

datatype queue_action =
    Enqueue scheduled_task scheduling_state
  | SetState workflow_id scheduling_state
  | Pop

fun queue_step :: "fair_queue \<Rightarrow> queue_action \<Rightarrow> fair_queue \<times> scheduled_task option" where
  "queue_step q (Enqueue t s) = (fst (enqueue q t s), None)"
| "queue_step q (SetState w s) = (set_workflow_state q w s, None)"
| "queue_step q Pop = pop q"

fun run_queue :: "fair_queue \<Rightarrow> queue_action list \<Rightarrow> fair_queue" where
  "run_queue q [] = q"
| "run_queue q (x # xs) = run_queue (fst (queue_step q x)) xs"

text \<open>The tasks the pops of a run return, in order.\<close>

fun handed_out :: "fair_queue \<Rightarrow> queue_action list \<Rightarrow> scheduled_task list" where
  "handed_out q [] = []"
| "handed_out q (x # xs) =
     (case snd (queue_step q x) of None \<Rightarrow> [] | Some t \<Rightarrow> [t]) @ handed_out (fst (queue_step q x)) xs"

lemma pop_cases:
  assumes ok: "queue_ok q"
  obtains (idle) "\<forall>p. \<not> has_ready q p" "pop q = (q, None)"
  | (serve) xs p ys i where "rotation q = xs @ p # ys" "\<forall>x \<in> set xs. \<not> has_ready q x" "has_ready q p"
      "select_ready (entries_of q p) = Some i" "i < length (entries_of q p)"
      "pop q = (served_queue q p i (ys @ xs), Some (queue_task (entries_of q p ! i)))"
proof (cases "\<exists>p \<in> set (rotation q). has_ready q p")
  case True
  then obtain xs p ys where rot: "rotation q = xs @ p # ys" "has_ready q p"
    "\<forall>x \<in> set xs. \<not> has_ready q x"
    using split_list_first_prop [of "rotation q" "has_ready q"] by blast
  obtain i where "select_ready (entries_of q p) = Some i"
    "pop q = (served_queue q p i (ys @ xs), Some (queue_task (entries_of q p ! i)))"
    using pop_first_ready [OF ok rot(1)] rot(2,3) by blast
  with rot serve select_ready_Some show ?thesis by blast
next
  case False
  then have "\<not> has_ready q p" for p
    using ok entries_of_key [of _ q p] unfolding queue_ok_def has_ready_def by blast
  with pop_idle [OF ok] idle show ?thesis by blast
qed

lemma pop_ok:
  assumes "queue_ok q"
  shows "queue_ok (fst (pop q))"
  using assms
proof (cases rule: pop_cases)
  case (serve xs p ys i)
  then show ?thesis using served_ok(4) [OF assms serve(1,5)] by simp
qed (simp add: assms)

lemma enqueue_refused: "scheduled_task_id t \<in> set (queued_tasks q) \<Longrightarrow> enqueue q t s = (q, False)"
  by (simp add: enqueue_def)

lemma queue_step_ok: "queue_ok q \<Longrightarrow> queue_ok (fst (queue_step q x))"
proof (cases x)
  case (Enqueue t s)
  then show "queue_ok q \<Longrightarrow> queue_ok (fst (queue_step q x))"
    using enqueue_ok(2) enqueue_refused by (cases "scheduled_task_id t \<in> set (queued_tasks q)") auto
qed (simp_all add: set_state_ok pop_ok)

lemma run_queue_ok: "queue_ok q \<Longrightarrow> queue_ok (run_queue q xs)"
  by (induction xs arbitrary: q) (simp_all add: queue_step_ok)

lemma pop_other_project:
  assumes "i < length (entries_of q p)" and "queue_ok q" and "rotation q = xs @ p # ys" and "r \<noteq> p"
  shows "has_ready (served_queue q p i (ys @ xs)) r = has_ready q r"
  using served_ok(1) [OF assms(2,3,1)] assms(4) by (simp add: has_ready_def)

text \<open>A step that never parks a task: what can happen while a project waits for its turn.\<close>

fun keeps_ready :: "queue_action \<Rightarrow> bool" where
  "keeps_ready (SetState w s) \<longleftrightarrow> s = TaskReady"
| "keeps_ready _ \<longleftrightarrow> True"

lemma waiting_step:
  assumes ok: "queue_ok q" and rot: "rotation q = xs @ p # ys" and ready: "has_ready q p"
    and "x \<noteq> Pop" and "keeps_ready x"
  shows "\<exists>ys'. rotation (fst (queue_step q x)) = xs @ p # ys' \<and> has_ready (fst (queue_step q x)) p"
proof (cases x)
  case (Enqueue t s)
  show ?thesis
  proof (cases "scheduled_task_id t \<in> set (queued_tasks q)")
    case False
    have "set (entries_of q p) \<subseteq> set (entries_of (fst (enqueue q t s)) p)"
      using enqueue_ok(3) [OF ok False, of s] by auto
    then have "has_ready (fst (enqueue q t s)) p" using ready by (auto simp: has_ready_def)
    moreover have "\<exists>zs. rotation (fst (enqueue q t s)) = rotation q @ zs"
      using False by (auto simp: enqueue_def Let_def)
    ultimately show ?thesis using Enqueue rot by auto
  qed (use Enqueue rot ready enqueue_refused in auto)
next
  case (SetState w s)
  then have "rotation (fst (queue_step q x)) = rotation q"
    by (simp add: set_workflow_state_def)
  moreover have "has_ready (fst (queue_step q x)) p"
  proof -
    obtain e where e: "e \<in> set (entries_of q p)" "is_ready e" using ready by (auto simp: has_ready_def)
    have "is_ready (restate w TaskReady e)" using e(2) by (simp add: is_ready_def restate_def)
    then show ?thesis using e(1) SetState assms(5) by (auto simp: has_ready_def set_state_entries)
  qed
  ultimately show ?thesis using rot by simp
qed (use assms(4) in simp)

lemma waiting_pop:
  assumes ok: "queue_ok q" and rot: "rotation q = xs @ p # ys" and ready: "has_ready q p"
  shows "(\<exists>t. snd (pop q) = Some t \<and> scheduled_project t = p)
     \<or> (\<exists>xs' ys'. rotation (fst (pop q)) = xs' @ p # ys' \<and> length xs' < length xs \<and> has_ready (fst (pop q)) p)"
  using ok
proof (cases rule: pop_cases)
  case idle then show ?thesis using ready by simp
next
  case (serve as r bs i)
  show ?thesis
  proof (cases "r = p")
    case True
    have "entries_of q p ! i \<in> set (entries_of q p)" using serve(5) True by simp
    then have "scheduled_project (queue_task (entries_of q p ! i)) = p" using ok by (simp add: queue_ok_def)
    then show ?thesis using serve(6) True by simp
  next
    case False
    have "p \<notin> set as" using serve(2) ready by blast
    then obtain cs where cs: "xs = as @ r # cs" "bs = cs @ p # ys"
      using serve(1) rot False by (auto simp: append_eq_append_conv2 Cons_eq_append_conv append_eq_Cons_conv)
    have "rotation (fst (pop q)) = cs @ p # (ys @ as @
        (if remove_at i (entries_of q r) = [] then [] else [r]))"
      using served_ok(3) [OF ok serve(1,5)] serve(6) cs by simp
    moreover have "has_ready (fst (pop q)) p"
      using pop_other_project [OF serve(5) ok serve(1)] False ready serve(6) by simp
    moreover have "length cs < length xs" using cs by simp
    ultimately show ?thesis by blast
  qed
qed

lemma waiting_run:
  assumes "queue_ok q" and "rotation q = xs @ p # ys" and "has_ready q p"
    and "list_all keeps_ready steps" and "length xs < length (filter (\<lambda>x. x = Pop) steps)"
  shows "p \<in> scheduled_project ` set (handed_out q steps)"
  using assms
proof (induction steps arbitrary: q xs ys)
  case (Cons x steps)
  let ?q = "fst (queue_step q x)"
  have ok: "queue_ok ?q" using Cons.prems(1) by (rule queue_step_ok)
  show ?case
  proof (cases "x = Pop")
    case False
    then obtain ys' where "rotation ?q = xs @ p # ys'" "has_ready ?q p"
      using waiting_step [OF Cons.prems(1-3) False] Cons.prems(4) by auto
    then show ?thesis using Cons.IH [OF ok] Cons.prems(4,5) False by auto
  next
    case True
    from waiting_pop [OF Cons.prems(1-3)] show ?thesis
    proof
      assume "\<exists>t. snd (pop q) = Some t \<and> scheduled_project t = p"
      then show ?thesis using True by auto
    next
      assume "\<exists>xs' ys'. rotation (fst (pop q)) = xs' @ p # ys' \<and> length xs' < length xs
        \<and> has_ready (fst (pop q)) p"
      then obtain xs' ys' where "rotation ?q = xs' @ p # ys'" "length xs' < length xs" "has_ready ?q p"
        using True by auto
      moreover from this have "length xs' < length (filter (\<lambda>x. x = Pop) steps)"
        using Cons.prems(5) True by simp
      ultimately have "p \<in> scheduled_project ` set (handed_out ?q steps)"
        using Cons.IH [OF ok] Cons.prems(4) by simp
      then show ?thesis by auto
    qed
  qed
qed simp

section \<open>Runs of the limiter\<close>

datatype limiter_action =
    Admit work_class i64
  | Release work_class
  | Backoff string i64

fun run_limiter :: "capacity_limiter \<Rightarrow> limiter_action list \<Rightarrow> capacity_limiter" where
  "run_limiter l [] = l"
| "run_limiter l (Admit c now # as) = run_limiter (fst (try_admit l c now)) as"
| "run_limiter l (Release c # as) = run_limiter (fst (release_work l c)) as"
| "run_limiter l (Backoff p until # as) = run_limiter (backoff_provider l p until) as"

text \<open>What the callers were told: admissions of a class less its accepted releases.\<close>

fun balance :: "capacity_limiter \<Rightarrow> limiter_action list \<Rightarrow> work_class \<Rightarrow> int" where
  "balance l [] c = 0"
| "balance l (Admit d now # as) c =
     of_bool (d = c \<and> snd (try_admit l d now) = Admitted) + balance (fst (try_admit l d now)) as c"
| "balance l (Release d # as) c =
     - of_bool (d = c \<and> snd (release_work l d)) + balance (fst (release_work l d)) as c"
| "balance l (Backoff p until # as) c = balance (backoff_provider l p until) as c"

definition in_use :: "capacity_limiter \<Rightarrow> work_class \<Rightarrow> u16" where
  "in_use l c = (case bt_get (active l) c of None \<Rightarrow> 0 | Some n \<Rightarrow> n)"

definition limit_of :: "(work_class, u16) btree_map \<Rightarrow> work_class \<Rightarrow> u16" where
  "limit_of ls c = (case bt_get ls c of None \<Rightarrow> 0 | Some n \<Rightarrow> n)"

definition limiter_ok :: "(work_class, u16) btree_map \<Rightarrow> capacity_limiter \<Rightarrow> bool" where
  "limiter_ok ls l \<longleftrightarrow> bt_wf (active l) \<and> limits l = ls \<and> (\<forall>c. in_use l c \<le> limit_of ls c)"

lemma u16_succ:
  assumes "(n::u16) < m"
  shows "uint (n + 1) = uint n + 1 \<and> n + 1 \<le> m"
proof -
  have "uint n + 1 \<le> uint m" using assms by (simp add: word_less_def)
  then have "uint n + 1 < 2 ^ 16" using uint_lt2p [of m] by simp
  then have "uint (n + 1) = uint n + 1"
    using uint_ge_0 [of n] by (simp add: uint_word_ariths)
  then show ?thesis using inc_le [OF assms] by simp
qed

lemma try_admit_step:
  assumes "limiter_ok ls l"
  shows "limiter_ok ls (fst (try_admit l d now))
    \<and> uint (in_use (fst (try_admit l d now)) c) =
      uint (in_use l c) + of_bool (d = c \<and> snd (try_admit l d now) = Admitted)"
proof (cases "\<not> in_backoff l d now \<and> bt_get (limits l) d \<noteq> None")
  case False
  then show ?thesis using assms by (auto simp: try_admit_def)
next
  case True
  then obtain m where m: "bt_get (limits l) d = Some m" "\<not> in_backoff l d now" by blast
  let ?n = "in_use l d"
  have wf: "bt_wf (active l)" and ls: "limits l = ls" using assms by (auto simp: limiter_ok_def)
  have same: "in_use (l\<lparr>active := bt_insert d ?n (active l)\<rparr>) = in_use l"
    by (rule ext) (simp add: in_use_def bt_get_insert [OF wf])
  have wf': "bt_wf (bt_insert d ?n (active l))" by (rule bt_wf_insert [OF wf])
  show ?thesis
  proof (cases "?n \<ge> m")
    case True
    then have "try_admit l d now = (l\<lparr>active := bt_insert d ?n (active l)\<rparr>, AtCapacity)"
      using m by (simp add: try_admit_def in_use_def Let_def)
    then show ?thesis using assms wf' same by (simp add: limiter_ok_def)
  next
    case False
    let ?l = "l\<lparr>active := bt_set d (?n + 1) (bt_insert d ?n (active l))\<rparr>"
    have eq: "try_admit l d now = (?l, Admitted)"
      using m False by (simp add: try_admit_def in_use_def Let_def)
    have "bt_get (bt_insert d ?n (active l)) d = Some ?n" by (simp add: bt_get_insert [OF wf])
    then have use: "in_use ?l = (in_use l)(d := ?n + 1)"
      by (intro ext) (simp add: in_use_def bt_get_set bt_get_insert [OF wf])
    have "limit_of ls d = m" using m ls by (simp add: limit_of_def)
    with u16_succ [of ?n m] False have "uint (?n + 1) = uint ?n + 1" "?n + 1 \<le> limit_of ls d" by simp_all
    then show ?thesis using assms wf' ls unfolding eq use limiter_ok_def fst_conv snd_conv by simp
  qed
qed

lemma release_step:
  assumes "limiter_ok ls l"
  shows "limiter_ok ls (fst (release_work l d))
    \<and> uint (in_use (fst (release_work l d)) c) =
      uint (in_use l c) - of_bool (d = c \<and> snd (release_work l d))"
proof (cases "in_use l d = 0")
  case True
  then have "release_work l d = (l, False)"
    by (auto simp: release_work_def in_use_def split: option.splits)
  then show ?thesis using assms by simp
next
  case False
  then obtain n where n: "bt_get (active l) d = Some n" "n \<noteq> 0"
    by (auto simp: in_use_def split: option.splits)
  let ?l = "l\<lparr>active := bt_set d (n - 1) (active l)\<rparr>"
  have eq: "release_work l d = (?l, True)" using n by (simp add: release_work_def)
  have use: "in_use ?l = (in_use l)(d := n - 1)"
    by (rule ext) (simp add: in_use_def bt_get_set [OF n(1)])
  have "0 < n" using n(2) by (simp add: word_neq_0_conv)
  then have less: "uint (n - 1) = uint n - 1" "n - 1 \<le> n"
    using uint_minus_simple_alt [of 1 n] inc_le [of 0 n] by (simp_all add: word_le_def)
  have "in_use l d = n" using n by (simp add: in_use_def)
  moreover have "n \<le> limit_of ls d" using assms calculation by (auto simp: limiter_ok_def)
  ultimately show ?thesis
    using assms less unfolding eq use limiter_ok_def fst_conv snd_conv by auto
qed

lemma run_limiter_balance:
  "limiter_ok ls l \<Longrightarrow> limiter_ok ls (run_limiter l as)
     \<and> uint (in_use (run_limiter l as) c) = uint (in_use l c) + balance l as c"
proof (induction as arbitrary: l)
  case (Cons a as)
  show ?case
  proof (cases a)
    case (Admit d now)
    then show ?thesis using Cons.IH try_admit_step [OF Cons.prems, of d now c] by simp
  next
    case (Release d)
    then show ?thesis using Cons.IH release_step [OF Cons.prems, of d c] by simp
  next
    case (Backoff p until)
    have "limiter_ok ls (backoff_provider l p until)" "in_use (backoff_provider l p until) = in_use l"
      using Cons.prems by (auto simp: limiter_ok_def backoff_provider_def in_use_def [abs_def])
    then show ?thesis using Backoff Cons.IH by simp
  qed
qed simp

section \<open>A concrete queue\<close>

definition sample_task :: "int \<Rightarrow> uuid \<Rightarrow> uuid \<Rightarrow> scheduled_task" where
  "sample_task n p t = \<lparr>priority = n, scheduled_project = Id p, scheduled_task_id = Id t,
     scheduled_workflow = Id 4\<rparr>"

definition sample_queue :: fair_queue where
  "sample_queue = run_queue fair_queue_new
     [Enqueue (sample_task 1 1 10) TaskReady, Enqueue (sample_task 9 2 12) TaskPaused,
      Enqueue (sample_task 7 1 11) TaskReady]"

lemma sample_queue_run:
  "sample_queue = run_queue fair_queue_new
     [Enqueue (sample_task 1 1 10) TaskReady, Enqueue (sample_task 9 2 12) TaskPaused,
      Enqueue (sample_task 7 1 11) TaskReady]"
  by (fact sample_queue_def)

lemma sample_queue_entries:
  "sample_queue = \<lparr>projects = [(Id 1,
       [\<lparr>queue_sequence = 0, queue_state = TaskReady, queue_task = sample_task 1 1 10\<rparr>,
        \<lparr>queue_sequence = 2, queue_state = TaskReady, queue_task = sample_task 7 1 11\<rparr>]),
       (Id 2, [\<lparr>queue_sequence = 1, queue_state = TaskPaused, queue_task = sample_task 9 2 12\<rparr>])],
     rotation = [Id 1, Id 2], next_queue_sequence = 3, queued_tasks = [Id 10, Id 11, Id 12]\<rparr>"
  by (simp add: sample_queue_def sample_task_def enqueue_def fair_queue_new_def entries_of_def
      bt_get_def Let_def saturating_add_def checked_add_def insort_insert_key_def)

lemma sample_queue_pop: "snd (pop sample_queue) = Some (sample_task 7 1 11)"
  by (simp add: sample_queue_entries pop_def bt_get_def select_ready_def key_le_def
      sample_task_def Let_def)

section \<open>Properties\<close>

text \<open>
  A pop hands out nothing exactly when no task anywhere in the queue is ready.  Otherwise it
  hands out a ready task of its project that no ready task of that project beats by priority, the
  oldest among equals, and takes that task and no other out of the queue.
\<close>

theorem pop_serves_best_ready:
  assumes "q = run_queue fair_queue_new steps"
  shows "(case snd (pop q) of
      None \<Rightarrow> fst (pop q) = q \<and> (\<forall>p. \<not> has_ready q p)
    | Some t \<Rightarrow> \<exists>e \<in> set (entries_of q (scheduled_project t)). queue_task e = t \<and> queue_state e = TaskReady
        \<and> (\<forall>e' \<in> set (entries_of q (scheduled_project t)). queue_state e' = TaskReady \<longrightarrow>
              priority (queue_task e') < priority t
              \<or> priority (queue_task e') = priority t \<and> queue_sequence e \<le> queue_sequence e')
        \<and> set (queued_tasks (fst (pop q))) = set (queued_tasks q) - {scheduled_task_id t})"
proof -
  have ok: "queue_ok q" using assms run_queue_ok [OF queue_ok_new] by simp
  then show ?thesis
  proof (cases rule: pop_cases)
    case (serve xs p ys i)
    let ?e = "entries_of q p ! i"
    have e: "?e \<in> set (entries_of q p)" using serve(5) by simp
    then have "scheduled_project (queue_task ?e) = p" using ok by (simp add: queue_ok_def)
    with serve e select_ready_Some [OF serve(4)] served_ok(2) [OF ok serve(1,5)]
    show ?thesis by (auto simp: key_le_def is_ready_def entry_id_def intro!: bexI [of _ ?e])
  qed simp
qed

theorem pop_serves_best_ready_witness:
  "snd (pop sample_queue) = Some (sample_task 7 1 11)
   \<and> (\<exists>e \<in> set (entries_of sample_queue (Id 1)).
        queue_task e = sample_task 7 1 11 \<and> queue_state e = TaskReady)
   \<and> set (queued_tasks (fst (pop sample_queue))) = set (queued_tasks sample_queue) - {Id 11}"
  using pop_serves_best_ready [OF sample_queue_run] sample_queue_pop
  by (auto simp: sample_task_def)

text \<open>
  C39. No project starves: when a project has a ready task and \<open>k\<close> projects are ahead of it, any
  \<open>k + 1\<close> pops hand out a task of it, whatever is enqueued or made ready in between.
\<close>

theorem ready_project_is_served:
  assumes "q = run_queue fair_queue_new history" and "k < length (rotation q)"
    and "has_ready q (rotation q ! k)" and "list_all keeps_ready steps"
    and "k < length (filter (\<lambda>x. x = Pop) steps)"
  shows "rotation q ! k \<in> scheduled_project ` set (handed_out q steps)"
proof -
  have "queue_ok q" using assms(1) run_queue_ok [OF queue_ok_new] by simp
  moreover have "rotation q = take k (rotation q) @ rotation q ! k # drop (Suc k) (rotation q)"
    using assms(2) by (rule id_take_nth_drop)
  ultimately show ?thesis
    using waiting_run [of q "take k (rotation q)"] assms(2-5) by simp
qed

theorem ready_project_is_served_witness:
  "Id 1 \<in> scheduled_project ` set (handed_out sample_queue [Enqueue (sample_task 9 2 13) TaskReady, Pop])"
  using ready_project_is_served [OF sample_queue_run, of 0 "[Enqueue (sample_task 9 2 13) TaskReady, Pop]"]
  by (simp add: sample_queue_entries has_ready_def entries_of_def bt_get_def is_ready_def)

text \<open>
  C40. The limiter never admits more than the limit of a class: after any sequence of admissions,
  releases and backoffs, the admissions of a class less its accepted releases is the count the
  limiter keeps, between zero and the limit; an unconfigured class has none.
\<close>

theorem capacity_is_never_exceeded:
  "0 \<le> balance (limiter_new ls) as c
   \<and> balance (limiter_new ls) as c = uint (in_use (run_limiter (limiter_new ls) as) c)
   \<and> balance (limiter_new ls) as c \<le> uint (limit_of ls c)"
proof -
  have "limiter_ok ls (limiter_new ls)" "in_use (limiter_new ls) c = 0"
    by (simp_all add: limiter_ok_def limiter_new_def in_use_def)
  with run_limiter_balance [of ls "limiter_new ls" as c]
  have "limiter_ok ls (run_limiter (limiter_new ls) as)"
    and count: "uint (in_use (run_limiter (limiter_new ls) as) c) = balance (limiter_new ls) as c"
    by simp_all
  then have "in_use (run_limiter (limiter_new ls) as) c \<le> limit_of ls c"
    by (simp add: limiter_ok_def)
  then show ?thesis using count uint_ge_0 [of "in_use (run_limiter (limiter_new ls) as) c"]
    by (simp only: word_le_def)
qed

end
