(* ===== verification/Admission.thy ===== *)
theory Admission
  imports Ordered_Map Cycle_Digest
begin

text \<open>
  Admission of workflows to the machine (\<open>crates/workflowd/src/admission.rs\<close>) under the resource
  policy of \<open>crates/workflowd/src/resources/policy.rs\<close>.  Sampling the machine is an argument.  A
  panic is \<open>None\<close>.
\<close>

section \<open>The resource policy (policy.rs)\<close>

text \<open>
  A percentage is an \<open>f32\<close> that is only compared, so its place in the order stands for it; NaN
  compares false with everything.
\<close>

datatype f32 = NotANumber | Number int

fun f32_greater :: "f32 \<Rightarrow> f32 \<Rightarrow> bool" where
  "f32_greater (Number a) (Number b) \<longleftrightarrow> a > b"
| "f32_greater _ _ \<longleftrightarrow> False"

record resource_sample =
  available_disk_bytes :: "u64 option"
  available_memory_bytes :: "u64 option"
  cpu_usage_percent :: "f32 option"
  owned_processes :: "u32 option"

datatype work_kind =
  RemoteModelWork | LocalModelWork | BuildKind | BrowserKind | DatabaseKind | IndexingKind | VerificationKind

record resource_demand =
  demand_disk_bytes :: u64
  demand_kind :: work_kind
  demand_memory_bytes :: u64

record resource_policy =
  disk_reserve_bytes :: u64
  max_cpu_percent :: f32
  memory_reserve_bytes :: u64
  recovery_admissions_per_tick :: u16

datatype admission_decision =
    Admit
  | DeferCpu
  | DeferDisk
  | DeferIndexing
  | DeferMemory
  | DeferMetricsUnavailable
  | DeferRecoveryBackpressure

record admission_controller =
  admitted_this_tick :: u16
  controller_policy :: resource_policy
  pressured_last_tick :: bool
  recovery_tick :: bool

definition controller_new :: "resource_policy \<Rightarrow> admission_controller" where
  "controller_new p = \<lparr>admitted_this_tick = 0, controller_policy = p, pressured_last_tick = False,
     recovery_tick = False\<rparr>"

definition begin_tick :: "admission_controller \<Rightarrow> admission_controller" where
  "begin_tick c = c\<lparr>admitted_this_tick := 0, recovery_tick := pressured_last_tick c,
     pressured_last_tick := False\<rparr>"

definition evaluate ::
  "admission_controller \<Rightarrow> resource_sample \<Rightarrow> resource_demand \<Rightarrow> bool \<Rightarrow>
     admission_controller \<times> admission_decision" where
  "evaluate c sample demand verification_waiting =
     (let p = controller_policy c in
      if demand_kind demand = IndexingKind \<and> verification_waiting then (c, DeferIndexing)
      else case available_memory_bytes sample of None \<Rightarrow> (c, DeferMetricsUnavailable) | Some memory \<Rightarrow>
        (case available_disk_bytes sample of None \<Rightarrow> (c, DeferMetricsUnavailable) | Some disk \<Rightarrow>
        (case cpu_usage_percent sample of None \<Rightarrow> (c, DeferMetricsUnavailable) | Some cpu \<Rightarrow>
           if memory < saturating_add (memory_reserve_bytes p) (demand_memory_bytes demand)
             then (c\<lparr>pressured_last_tick := True\<rparr>, DeferMemory)
           else if disk < saturating_add (disk_reserve_bytes p) (demand_disk_bytes demand)
             then (c\<lparr>pressured_last_tick := True\<rparr>, DeferDisk)
           else if f32_greater cpu (max_cpu_percent p)
             then (c\<lparr>pressured_last_tick := True\<rparr>, DeferCpu)
           else if recovery_tick c \<and> admitted_this_tick c \<ge> recovery_admissions_per_tick p
             then (c, DeferRecoveryBackpressure)
           else (c\<lparr>admitted_this_tick := saturating_add (admitted_this_tick c) 1\<rparr>, Admit))))"

section \<open>Runtime admission (admission.rs)\<close>

definition lease_millis :: u64 where "lease_millis = 15000"

definition retry_millis :: u64 where "retry_millis = 500"

datatype admission_operation = Acquire | ReleaseSlot | Renew

record admission_result =
  result_active :: nat
  result_admitted :: bool
  result_lease :: "u64 option"
  result_maximum :: nat
  result_reason :: "string option"
  result_retry :: u64

record runtime_admission =
  active_leases :: "(workflow_id, u64) btree_map"
  controller :: admission_controller
  last_tick :: u64
  maximum_active :: nat
  project_queues :: "(project_id, workflow_id list) btree_map"
  project_rotation :: "project_id list"
  waiting :: "(workflow_id, u64) btree_map"
  workflow_projects :: "(workflow_id, project_id) btree_map"

definition default_policy :: resource_policy where
  "default_policy = \<lparr>disk_reserve_bytes = 2 * 1024 * 1024 * 1024, max_cpu_percent = Number 85,
     memory_reserve_bytes = 1024 * 1024 * 1024, recovery_admissions_per_tick = 1\<rparr>"

definition admission_new :: "nat \<Rightarrow> runtime_admission" where
  "admission_new n = \<lparr>active_leases = [], controller = controller_new default_policy, last_tick = 0,
     maximum_active = max n 1, project_queues = [], project_rotation = [], waiting = [],
     workflow_projects = []\<rparr>"

definition admission_answer ::
  "runtime_admission \<Rightarrow> bool \<Rightarrow> u64 option \<Rightarrow> string option \<Rightarrow> admission_result" where
  "admission_answer s admitted lease why = \<lparr>result_active = length (active_leases s),
     result_admitted = admitted, result_lease = lease, result_maximum = maximum_active s,
     result_reason = why, result_retry = (if admitted then 0 else retry_millis)\<rparr>"

fun admission_reason :: "admission_decision \<Rightarrow> string" where
  "admission_reason Admit = ''admitted''"
| "admission_reason DeferCpu = ''cpu_pressure''"
| "admission_reason DeferDisk = ''disk_pressure''"
| "admission_reason DeferIndexing = ''verification_priority''"
| "admission_reason DeferMemory = ''memory_pressure''"
| "admission_reason DeferMetricsUnavailable = ''metrics_unavailable''"
| "admission_reason DeferRecoveryBackpressure = ''recovery_backpressure''"

definition queue_of :: "runtime_admission \<Rightarrow> project_id \<Rightarrow> workflow_id list" where
  "queue_of s p = (case bt_get (project_queues s) p of None \<Rightarrow> [] | Some q \<Rightarrow> q)"

definition admission_enqueue ::
  "runtime_admission \<Rightarrow> project_id \<Rightarrow> workflow_id \<Rightarrow> u64 \<Rightarrow> runtime_admission" where
  "admission_enqueue s p w now =
     (let expires = saturating_add now lease_millis in
      if bt_get (waiting s) w \<noteq> None then s\<lparr>waiting := bt_set w expires (waiting s)\<rparr>
      else let new_project = bt_get (project_queues s) p = None in
        s\<lparr>waiting := bt_insert w expires (waiting s),
          project_queues := bt_insert p (queue_of s p @ [w]) (project_queues s),
          workflow_projects := bt_insert w p (workflow_projects s),
          project_rotation := (if new_project then project_rotation s @ [p] else project_rotation s)\<rparr>)"

text \<open>
  \<open>dequeue_front\<close>.  The \<open>pop_front\<close> is the argument of a \<open>debug_assert_eq!\<close>: a build with debug
  assertions pops and compares, any other build does not evaluate it.
\<close>

definition dequeue_front ::
  "bool \<Rightarrow> runtime_admission \<Rightarrow> project_id \<Rightarrow> workflow_id \<Rightarrow> runtime_admission option" where
  "dequeue_front debug_assertions s p w =
     (case bt_get (project_queues s) p of
        None \<Rightarrow> None
      | Some queue \<Rightarrow>
          if debug_assertions \<and> (queue = [] \<or> hd queue \<noteq> w) then None
          else
            let queue = (if debug_assertions then tl queue else queue);
                s = s\<lparr>project_queues := bt_set p queue (project_queues s),
                      waiting := bt_remove w (waiting s),
                      workflow_projects := bt_remove w (workflow_projects s),
                      project_rotation := tl (project_rotation s)\<rparr>
            in Some (if queue = [] then s\<lparr>project_queues := bt_remove p (project_queues s)\<rparr>
                     else s\<lparr>project_rotation := project_rotation s @ [p]\<rparr>))"

definition admission_remove :: "runtime_admission \<Rightarrow> workflow_id \<Rightarrow> runtime_admission" where
  "admission_remove s w =
     (let s = s\<lparr>active_leases := bt_remove w (active_leases s)\<rparr> in
      case bt_get (workflow_projects s) w of
        None \<Rightarrow> s
      | Some p \<Rightarrow>
          let s = s\<lparr>workflow_projects := bt_remove w (workflow_projects s),
                    waiting := bt_remove w (waiting s)\<rparr>
          in (case bt_get (project_queues s) p of
                None \<Rightarrow> s
              | Some queue \<Rightarrow>
                  let queue = filter (\<lambda>x. x \<noteq> w) queue in
                  if queue = [] then s\<lparr>project_queues := bt_remove p (project_queues s),
                      project_rotation := filter (\<lambda>x. x \<noteq> p) (project_rotation s)\<rparr>
                  else s\<lparr>project_queues := bt_set p queue (project_queues s)\<rparr>))"

text \<open>\<open>retain\<close> with a set of the elements seen so far: first occurrences only.\<close>

fun first_of :: "('a \<Rightarrow> bool) \<Rightarrow> 'a set \<Rightarrow> 'a list \<Rightarrow> 'a list" where
  "first_of P seen [] = []"
| "first_of P seen (x # xs) =
     (if P x \<and> x \<notin> seen then x # first_of P (insert x seen) xs else first_of P seen xs)"

definition queued_for :: "runtime_admission \<Rightarrow> project_id \<Rightarrow> workflow_id \<Rightarrow> bool" where
  "queued_for s p w \<longleftrightarrow> bt_get (waiting s) w \<noteq> None \<and> bt_get (workflow_projects s) w = Some p"

definition repair_queue_invariants :: "runtime_admission \<Rightarrow> runtime_admission" where
  "repair_queue_invariants s =
     (let queues = bt_retain (\<lambda>_ q. q \<noteq> [])
            (map (\<lambda>(p, q). (p, filter (queued_for s p) q)) (project_queues s));
          queued = fold (\<lambda>(w, p). bt_insert w p)
            (concat (map (\<lambda>(p, q). map (\<lambda>w. (w, p)) q) queues)) [];
          kept = first_of (\<lambda>p. bt_get queues p \<noteq> None) {} (project_rotation s)
      in s\<lparr>project_queues := queues,
           waiting := bt_retain (\<lambda>w _. bt_get queued w \<noteq> None) (waiting s),
           workflow_projects := bt_retain (\<lambda>w p. bt_get queued w = Some p) (workflow_projects s),
           project_rotation := kept @ filter (\<lambda>p. p \<notin> set kept) (bt_keys queues)\<rparr>)"

definition reap :: "runtime_admission \<Rightarrow> u64 \<Rightarrow> runtime_admission" where
  "reap s now =
     (let s = s\<lparr>active_leases := bt_retain (\<lambda>_ expires. expires > now) (active_leases s)\<rparr>;
          abandoned = map fst (filter (\<lambda>(_, expires). expires \<le> now) (waiting s))
      in repair_queue_invariants (foldl admission_remove s abandoned))"

definition launch_demand :: resource_demand where
  "launch_demand = \<lparr>demand_disk_bytes = 512 * 1024 * 1024, demand_kind = RemoteModelWork,
     demand_memory_bytes = 512 * 1024 * 1024\<rparr>"

definition at_front :: "runtime_admission \<Rightarrow> project_id \<Rightarrow> workflow_id \<Rightarrow> bool" where
  "at_front s p w \<longleftrightarrow> (case project_rotation s of [] \<Rightarrow> False | r # _ \<Rightarrow> r = p)
     \<and> (case queue_of s p of [] \<Rightarrow> False | x # _ \<Rightarrow> x = w)"

text \<open>The end of \<open>execute\<close>: the workflow is first in line and there is a free slot.\<close>

definition admission_launch ::
  "bool \<Rightarrow> runtime_admission \<Rightarrow> project_id \<Rightarrow> workflow_id \<Rightarrow> resource_sample \<Rightarrow> u64 \<Rightarrow>
     (runtime_admission \<times> admission_result) option" where
  "admission_launch debug_assertions s p w sample now =
     (let s = (if (if now < last_tick s then 0 else now - last_tick s) \<ge> 1000
               then s\<lparr>controller := begin_tick (controller s), last_tick := now\<rparr> else s);
          evaluated = evaluate (controller s) sample launch_demand False;
          s = s\<lparr>controller := fst evaluated\<rparr>
      in if snd evaluated \<noteq> Admit
         then Some (s, admission_answer s False None (Some (admission_reason (snd evaluated))))
         else (case dequeue_front debug_assertions s p w of
                 None \<Rightarrow> None
               | Some s \<Rightarrow>
                   let expires = saturating_add now lease_millis;
                       s = s\<lparr>active_leases := bt_insert w expires (active_leases s)\<rparr>
                   in Some (s, admission_answer s True (Some expires) None)))"

definition admission_execute ::
  "bool \<Rightarrow> runtime_admission \<Rightarrow> admission_operation \<Rightarrow> project_id \<Rightarrow> workflow_id \<Rightarrow> resource_sample \<Rightarrow>
     u64 \<Rightarrow> (runtime_admission \<times> admission_result) option" where
  "admission_execute debug_assertions s0 operation p w sample now =
     (let s = reap s0 now in
      if operation = ReleaseSlot then
        let s = admission_remove s w in Some (s, admission_answer s False None (Some ''released''))
      else if bt_get (active_leases s) w \<noteq> None then
        let expires = saturating_add now lease_millis;
            s = s\<lparr>active_leases := bt_set w expires (active_leases s)\<rparr>
        in Some (s, admission_answer s True (Some expires) None)
      else
        let s = admission_enqueue s p w now in
        if length (active_leases s) \<ge> maximum_active s
          then Some (s, admission_answer s False None (Some ''concurrency_limit''))
        else if \<not> at_front s p w then Some (s, admission_answer s False None (Some ''fair_queue''))
        else admission_launch debug_assertions s p w sample now)"

section \<open>What repairing the queues depends on\<close>

text \<open>The live part of a project's queue: the workflows that are waiting for that project.\<close>

definition live_queue :: "runtime_admission \<Rightarrow> project_id \<Rightarrow> workflow_id list" where
  "live_queue s p = filter (queued_for s p) (queue_of s p)"

definition live_rotation :: "runtime_admission \<Rightarrow> project_id list" where
  "live_rotation s = filter (\<lambda>p. live_queue s p \<noteq> []) (project_rotation s)"

text \<open>Two states that differ in dead queue entries only.\<close>

definition same_live :: "runtime_admission \<Rightarrow> runtime_admission \<Rightarrow> bool" where
  "same_live r d \<longleftrightarrow> bt_wf (project_queues r) \<and> bt_wf (project_queues d)
     \<and> r = d\<lparr>project_queues := project_queues r, project_rotation := project_rotation r\<rparr>
     \<and> live_queue r = live_queue d \<and> live_rotation r = live_rotation d"

lemma same_live_refl: "bt_wf (project_queues s) \<Longrightarrow> same_live s s"
  by (simp add: same_live_def)

lemma same_live_fields:
  assumes "same_live r d"
  shows "active_leases r = active_leases d" "controller r = controller d" "last_tick r = last_tick d"
    "maximum_active r = maximum_active d" "waiting r = waiting d"
    "workflow_projects r = workflow_projects d"
proof -
  have "r = d\<lparr>project_queues := project_queues r, project_rotation := project_rotation r\<rparr>"
    using assms by (simp add: same_live_def)
  then show "active_leases r = active_leases d" "controller r = controller d" "last_tick r = last_tick d"
    "maximum_active r = maximum_active d" "waiting r = waiting d"
    "workflow_projects r = workflow_projects d"
    by (metis runtime_admission.select_convs runtime_admission.surjective
        runtime_admission.update_convs)+
qed

lemma same_liveI:
  assumes "bt_wf (project_queues r)" "bt_wf (project_queues d)"
    "active_leases r = active_leases d" "controller r = controller d" "last_tick r = last_tick d"
    "maximum_active r = maximum_active d" "waiting r = waiting d"
    "workflow_projects r = workflow_projects d"
    "live_queue r = live_queue d" "live_rotation r = live_rotation d"
  shows "same_live r d"
  using assms unfolding same_live_def by simp

lemma bt_keys_mapped: "bt_keys (map (\<lambda>(p, q). (p, f p q)) m) = bt_keys m"
  by (induction m) auto

lemma bt_wf_mapped: "bt_wf m \<Longrightarrow> bt_wf (map (\<lambda>(p, q). (p, f p q)) m)"
  unfolding bt_wf_def bt_keys_mapped .

lemma bt_get_mapped: "bt_get (map (\<lambda>(p, q). (p, f p q)) m) p = map_option (f p) (bt_get m p)"
  by (induction m) (auto simp: bt_get_def)

definition live_queues :: "runtime_admission \<Rightarrow> (project_id, workflow_id list) btree_map" where
  "live_queues s = bt_retain (\<lambda>_ q. q \<noteq> [])
     (map (\<lambda>(p, q). (p, filter (queued_for s p) q)) (project_queues s))"

lemma live_queues_wf: "bt_wf (project_queues s) \<Longrightarrow> bt_wf (live_queues s)"
  unfolding live_queues_def by (intro bt_retain_wf bt_wf_mapped)

lemma live_queues_get:
  assumes "bt_wf (project_queues s)"
  shows "bt_get (live_queues s) p = (if live_queue s p = [] then None else Some (live_queue s p))"
proof -
  have "bt_wf (map (\<lambda>(p, q). (p, filter (queued_for s p) q)) (project_queues s))"
    using assms by (rule bt_wf_mapped)
  then show ?thesis
    by (intro option_eqI)
      (auto simp: live_queues_def bt_retain_get_Some bt_get_mapped live_queue_def queue_of_def
        split: option.splits)
qed

lemma live_queues_same: "same_live r d \<Longrightarrow> live_queues r = live_queues d"
  by (rule btree.entries_ext) (auto simp: same_live_def live_queues_wf live_queues_get)

lemma first_of_filter: "first_of P seen xs = first_of (\<lambda>_. True) seen (filter P xs)"
  by (induction P seen xs rule: first_of.induct) auto

lemma repair_same: "same_live r d \<Longrightarrow> repair_queue_invariants r = repair_queue_invariants d"
proof -
  assume same: "same_live r d"
  note fields = same_live_fields [OF same]
  have wf: "bt_wf (project_queues s)" if "s \<in> {r, d}" for s
    using same that by (auto simp: same_live_def)
  have kept: "first_of (\<lambda>p. bt_get (live_queues s) p \<noteq> None) {} (project_rotation s) =
      first_of (\<lambda>_. True) {} (live_rotation s)" if "s \<in> {r, d}" for s
    using live_queues_get [OF wf [OF that]]
      first_of_filter [of "\<lambda>p. live_queue s p \<noteq> []" "{}" "project_rotation s"]
    by (simp add: live_rotation_def)
  have kept: "first_of (\<lambda>p. bt_get (live_queues r) p \<noteq> None) {} (project_rotation r) =
      first_of (\<lambda>p. bt_get (live_queues d) p \<noteq> None) {} (project_rotation d)"
    using same kept [of r] kept [of d] by (simp add: same_live_def)
  show ?thesis
    unfolding repair_queue_invariants_def Let_def live_queues_def [symmetric] kept
      live_queues_same [OF same] fields
    by (intro runtime_admission.equality;
        use kept in \<open>simp add: fields live_queues_same [OF same]\<close>)
qed

section \<open>Removing a workflow\<close>

lemma remove_active: "active_leases (admission_remove s w) = bt_remove w (active_leases s)"
  by (auto simp: admission_remove_def Let_def split: option.splits)

lemma remove_waiting:
  "waiting (admission_remove s w) =
     (if bt_get (workflow_projects s) w = None then waiting s else bt_remove w (waiting s))"
  by (auto simp: admission_remove_def Let_def split: option.splits)

lemma remove_projects:
  "workflow_projects (admission_remove s w) =
     (if bt_get (workflow_projects s) w = None then workflow_projects s
      else bt_remove w (workflow_projects s))"
  by (auto simp: admission_remove_def Let_def split: option.splits)

lemma remove_rest:
  "controller (admission_remove s w) = controller s" "last_tick (admission_remove s w) = last_tick s"
  "maximum_active (admission_remove s w) = maximum_active s"
  by (auto simp: admission_remove_def Let_def split: option.splits)

lemma remove_queue:
  "queue_of (admission_remove s w) p =
     (if bt_get (workflow_projects s) w = Some p then filter (\<lambda>x. x \<noteq> w) (queue_of s p)
      else queue_of s p)"
  by (auto simp: admission_remove_def Let_def queue_of_def bt_get_remove bt_get_set
      split: option.splits)

lemma remove_wf: "bt_wf (project_queues s) \<Longrightarrow> bt_wf (project_queues (admission_remove s w))"
  using bt_remove_wf by (auto simp: admission_remove_def Let_def split: option.splits)

lemma queued_for_remove:
  "queued_for (admission_remove s w) p x \<longleftrightarrow>
     queued_for s p x \<and> (bt_get (workflow_projects s) w = None \<or> x \<noteq> w)"
  by (auto simp: queued_for_def remove_waiting remove_projects bt_get_remove)

lemma live_queue_remove:
  "live_queue (admission_remove s w) p = filter (\<lambda>x. x \<noteq> w) (live_queue s p)"
  by (auto simp: live_queue_def remove_queue queued_for_remove intro!: filter_cong)
    (auto simp: queued_for_def)

lemma remove_rotation:
  "project_rotation (admission_remove s w) = project_rotation s
   \<or> (\<exists>p. live_queue (admission_remove s w) p = []
        \<and> project_rotation (admission_remove s w) = filter (\<lambda>x. x \<noteq> p) (project_rotation s))"
proof (cases "bt_get (workflow_projects s) w")
  case None
  then show ?thesis by (simp add: admission_remove_def Let_def)
next
  case (Some p)
  show ?thesis
  proof (cases "bt_get (project_queues s) p = None \<or> filter (\<lambda>x. x \<noteq> w) (queue_of s p) \<noteq> []")
    case True
    then show ?thesis using Some
      by (auto simp: admission_remove_def Let_def queue_of_def split: option.splits)
  next
    case False
    then have "project_rotation (admission_remove s w) = filter (\<lambda>x. x \<noteq> p) (project_rotation s)"
      using Some by (auto simp: admission_remove_def Let_def queue_of_def split: option.splits)
    moreover have "live_queue (admission_remove s w) p = []"
      using False Some by (simp add: live_queue_def remove_queue)
    ultimately show ?thesis by blast
  qed
qed

lemma filter_without: "\<not> P p \<Longrightarrow> filter P (filter (\<lambda>x. x \<noteq> p) xs) = filter P xs"
  by (induction xs) auto

lemma live_rotation_remove:
  "live_rotation (admission_remove s w) =
     filter (\<lambda>p. live_queue (admission_remove s w) p \<noteq> []) (live_rotation s)"
proof -
  have "live_rotation (admission_remove s w) =
      filter (\<lambda>p. live_queue (admission_remove s w) p \<noteq> []) (project_rotation s)"
    using remove_rotation [of s w]
      filter_without [of "\<lambda>p. live_queue (admission_remove s w) p \<noteq> []"]
    by (auto simp only: live_rotation_def)
  moreover have "live_queue (admission_remove s w) p \<noteq> [] \<Longrightarrow> live_queue s p \<noteq> []" for p
    by (auto simp: live_queue_remove)
  ultimately show ?thesis by (auto simp: live_rotation_def intro!: filter_cong)
qed

lemma remove_same:
  assumes "same_live r d"
  shows "same_live (admission_remove r w) (admission_remove d w)"
proof (rule same_liveI)
  note fields = same_live_fields [OF assms]
  have live: "live_queue r = live_queue d" "live_rotation r = live_rotation d"
    using assms by (simp_all add: same_live_def)
  show "bt_wf (project_queues (admission_remove r w))" "bt_wf (project_queues (admission_remove d w))"
    using assms remove_wf by (auto simp: same_live_def)
  show "live_queue (admission_remove r w) = live_queue (admission_remove d w)"
    by (rule ext) (simp add: live_queue_remove live)
  then show "live_rotation (admission_remove r w) = live_rotation (admission_remove d w)"
    by (simp add: live_rotation_remove live)
qed (simp_all add: remove_active remove_waiting remove_projects remove_rest same_live_fields [OF assms])

section \<open>Steps of the two builds\<close>

lemma removes_same: "same_live r d \<Longrightarrow> same_live (foldl admission_remove r ws) (foldl admission_remove d ws)"
  by (induction ws arbitrary: r d) (simp_all add: remove_same)

lemma removes_wf: "bt_wf (project_queues s) \<Longrightarrow> bt_wf (project_queues (foldl admission_remove s ws))"
  by (induction ws arbitrary: s) (simp_all add: remove_wf)

lemma live_other_fields:
  "queue_of (s\<lparr>active_leases := a\<rparr>) = queue_of s" "live_queue (s\<lparr>active_leases := a\<rparr>) = live_queue s"
  "live_rotation (s\<lparr>active_leases := a\<rparr>) = live_rotation s"
  "queue_of (s\<lparr>controller := c\<rparr>) = queue_of s" "queue_of (s\<lparr>last_tick := n\<rparr>) = queue_of s"
proof -
  have queued: "queued_for (s\<lparr>active_leases := a\<rparr>) = queued_for s"
    by (intro ext) (simp add: queued_for_def)
  show q: "queue_of (s\<lparr>active_leases := a\<rparr>) = queue_of s"
    "queue_of (s\<lparr>controller := c\<rparr>) = queue_of s" "queue_of (s\<lparr>last_tick := n\<rparr>) = queue_of s"
    by (intro ext; simp add: queue_of_def)+
  show live: "live_queue (s\<lparr>active_leases := a\<rparr>) = live_queue s"
    by (intro ext) (simp add: live_queue_def queued q)
  then show "live_rotation (s\<lparr>active_leases := a\<rparr>) = live_rotation s"
    by (simp add: live_rotation_def)
qed

lemma reap_same:
  assumes "same_live r d"
  shows "reap r now = reap d now"
proof -
  let ?cut = "\<lambda>s. s\<lparr>active_leases := bt_retain (\<lambda>_ expires. expires > now) (active_leases s)\<rparr>"
  note fields = same_live_fields [OF assms]
  have "same_live (?cut r) (?cut d)"
    using assms by (intro same_liveI; simp add: fields live_other_fields) (simp_all add: same_live_def)
  from repair_same [OF removes_same [OF this]] show ?thesis
    by (simp add: reap_def Let_def fields)
qed

lemma repair_wf: "bt_wf (project_queues s) \<Longrightarrow> bt_wf (project_queues (repair_queue_invariants s))"
  using live_queues_wf [of s] by (simp add: repair_queue_invariants_def Let_def live_queues_def)

lemma reap_wf: "bt_wf (project_queues s) \<Longrightarrow> bt_wf (project_queues (reap s now))"
  by (simp add: reap_def Let_def repair_wf removes_wf)

lemma enqueue_wf: "bt_wf (project_queues s) \<Longrightarrow> bt_wf (project_queues (admission_enqueue s p w now))"
  by (simp add: admission_enqueue_def Let_def bt_wf_insert)

text \<open>
  The build without debug assertions leaves the admitted workflow in its queue; as it is no longer
  waiting, the entry is dead.
\<close>

lemma dequeue_same:
  assumes wf: "bt_wf (project_queues s)" and front: "at_front s p w"
  obtains r d where "dequeue_front False s p w = Some r" "dequeue_front True s p w = Some d"
    "same_live r d"
proof -
  obtain rest where rot: "project_rotation s = p # rest"
    using front by (auto simp: at_front_def split: list.splits)
  obtain q where q: "bt_get (project_queues s) p = Some (w # q)"
    using front by (auto simp: at_front_def queue_of_def split: list.splits option.splits)
  define t where "t = s\<lparr>waiting := bt_remove w (waiting s),
    workflow_projects := bt_remove w (workflow_projects s)\<rparr>"
  define r where "r = t\<lparr>project_queues := bt_set p (w # q) (project_queues s),
    project_rotation := rest @ [p]\<rparr>"
  define d where "d = (if q = []
    then t\<lparr>project_queues := bt_remove p (bt_set p [] (project_queues s)), project_rotation := rest\<rparr>
    else t\<lparr>project_queues := bt_set p q (project_queues s), project_rotation := rest @ [p]\<rparr>)"
  have "dequeue_front False s p w = Some r"
    by (simp add: dequeue_front_def q rot r_def t_def Let_def)
  moreover have "dequeue_front True s p w = Some d"
    by (simp add: dequeue_front_def q rot d_def t_def Let_def)
  moreover have "same_live r d"
  proof (rule same_liveI)
    have get: "bt_get (bt_set p v (project_queues s)) = (bt_get (project_queues s))(p \<mapsto> v)" for v
      by (rule bt_get_set [OF q])
    have queues: "queue_of r = (queue_of s)(p := w # q)" "queue_of d = (queue_of s)(p := q)"
      by (auto simp: queue_of_def r_def d_def get bt_get_remove fun_eq_iff)
    have queued: "queued_for r = queued_for d" "\<And>x. \<not> queued_for d x w"
      by (auto simp: queued_for_def r_def d_def t_def bt_get_remove fun_eq_iff)
    show live: "live_queue r = live_queue d"
      by (rule ext) (simp add: live_queue_def queues queued)
    have "q = [] \<Longrightarrow> live_queue d p = []" by (simp add: live_queue_def queues)
    then show "live_rotation r = live_rotation d"
      unfolding live_rotation_def live by (auto simp: r_def d_def)
  qed (auto simp: r_def d_def t_def wf bt_remove_wf)
  ultimately show ?thesis using that by blast
qed

lemma launch_same:
  assumes wf: "bt_wf (project_queues s)" and front: "at_front s p w"
  obtains r d a where "admission_launch False s p w sample now = Some (r, a)"
    "admission_launch True s p w sample now = Some (d, a)" "same_live r d"
proof -
  define t where "t = (if (if now < last_tick s then 0 else now - last_tick s) \<ge> 1000
    then s\<lparr>controller := begin_tick (controller s), last_tick := now\<rparr> else s)"
  define u where "u = t\<lparr>controller := fst (evaluate (controller t) sample launch_demand False)\<rparr>"
  have u: "bt_wf (project_queues u)" "at_front u p w"
    using wf front by (auto simp: u_def t_def at_front_def live_other_fields)
  show ?thesis
  proof (cases "snd (evaluate (controller t) sample launch_demand False) = Admit")
    case False
    with that [of u _ u] show ?thesis
      using same_live_refl [OF u(1)] by (simp add: admission_launch_def t_def u_def Let_def)
  next
    case True
    obtain x y where xy: "dequeue_front False u p w = Some x" "dequeue_front True u p w = Some y"
      "same_live x y" using dequeue_same [OF u] .
    let ?e = "saturating_add now lease_millis"
    let ?g = "\<lambda>y. y\<lparr>active_leases := bt_insert w ?e (active_leases y)\<rparr>"
    note fields = same_live_fields [OF xy(3)]
    have same: "same_live (?g x) (?g y)"
      using xy(3) by (intro same_liveI; simp add: fields live_other_fields) (simp_all add: same_live_def)
    have launch: "admission_launch dbg s p w sample now = (case dequeue_front dbg u p w of None \<Rightarrow> None
        | Some z \<Rightarrow> Some (?g z, admission_answer (?g z) True (Some ?e) None))" for dbg
      using True unfolding admission_launch_def Let_def t_def [symmetric] u_def [symmetric]
      by (simp split: option.splits)
    have "admission_answer (?g x) True (Some ?e) None = admission_answer (?g y) True (Some ?e) None"
      by (simp add: admission_answer_def fields)
    with same xy(1,2) that show ?thesis by (simp add: launch)
  qed
qed

text \<open>One request in both builds: the same answer, and states alike but for dead entries.\<close>

lemma execute_same:
  assumes same: "same_live r d"
  shows "\<exists>r' d' a. admission_execute False r operation p w sample now = Some (r', a)
    \<and> admission_execute True d operation p w sample now = Some (d', a) \<and> same_live r' d'"
proof -
  define s where "s = reap d now"
  have s: "reap r now = s" "reap d now = s" using reap_same [OF same] by (simp_all add: s_def)
  have wf: "bt_wf (project_queues s)" unfolding s_def using same by (intro reap_wf) (simp add: same_live_def)
  let ?q = "admission_enqueue s p w now"
  have wfq: "bt_wf (project_queues ?q)" by (rule enqueue_wf [OF wf])
  show ?thesis
  proof (cases "operation = ReleaseSlot \<or> bt_get (active_leases s) w \<noteq> None
      \<or> length (active_leases ?q) \<ge> maximum_active ?q \<or> \<not> at_front ?q p w")
    case True
    have "bt_wf (project_queues (admission_remove s w))" by (rule remove_wf [OF wf])
    with True wf wfq show ?thesis
      unfolding admission_execute_def Let_def s by (auto simp: same_live_refl)
  next
    case False
    then have "admission_execute dbg x operation p w sample now = admission_launch dbg ?q p w sample now"
      if "reap x now = s" for dbg x
      using that by (simp add: admission_execute_def Let_def)
    with s launch_same [OF wfq, of p w sample now] False show ?thesis by metis
  qed
qed

section \<open>Runs\<close>

record admission_request =
  asked :: admission_operation
  asked_project :: project_id
  asked_workflow :: workflow_id
  asked_sample :: resource_sample
  asked_at :: u64

fun run_requests ::
  "bool \<Rightarrow> runtime_admission \<Rightarrow> admission_request list \<Rightarrow> (runtime_admission \<times> admission_result list) option" where
  "run_requests dbg s [] = Some (s, [])"
| "run_requests dbg s (x # xs) =
     (case admission_execute dbg s (asked x) (asked_project x) (asked_workflow x) (asked_sample x) (asked_at x) of
        None \<Rightarrow> None
      | Some (s', a) \<Rightarrow> map_option (apsnd (Cons a)) (run_requests dbg s' xs))"

lemma run_requests_same:
  "same_live r d \<Longrightarrow> \<exists>r' d' as. run_requests False r xs = Some (r', as)
     \<and> run_requests True d xs = Some (d', as) \<and> same_live r' d'"
proof (induction xs arbitrary: r d)
  case (Cons x xs)
  from execute_same [OF Cons.prems, of "asked x" "asked_project x" "asked_workflow x" "asked_sample x" "asked_at x"]
  obtain r1 d1 a where 1: "admission_execute False r (asked x) (asked_project x) (asked_workflow x)
      (asked_sample x) (asked_at x) = Some (r1, a)"
    "admission_execute True d (asked x) (asked_project x) (asked_workflow x)
      (asked_sample x) (asked_at x) = Some (d1, a)" "same_live r1 d1" by blast
  from Cons.IH [OF 1(3)] obtain r2 d2 as where "run_requests False r1 xs = Some (r2, as)"
    "run_requests True d1 xs = Some (d2, as)" "same_live r2 d2" by blast
  with 1 show ?case by simp
qed simp

section \<open>The limits\<close>

definition admission_ok :: "nat \<Rightarrow> runtime_admission \<Rightarrow> bool" where
  "admission_ok n s \<longleftrightarrow> bt_wf (active_leases s) \<and> length (active_leases s) \<le> n \<and> maximum_active s = n
     \<and> controller_policy (controller s) = default_policy"

lemma admission_ok_new: "admission_ok (max n 1) (admission_new n)"
  by (simp add: admission_ok_def admission_new_def controller_new_def)

lemma remove_ok: "admission_ok n s \<Longrightarrow> admission_ok n (admission_remove s w)"
  using bt_remove_length [of w "active_leases s"] bt_remove_wf [of "active_leases s" w]
  by (simp add: admission_ok_def remove_active remove_rest)

lemma removes_ok: "admission_ok n s \<Longrightarrow> admission_ok n (foldl admission_remove s ws)"
  by (induction ws arbitrary: s) (simp_all add: remove_ok)

lemma repair_fields:
  "active_leases (repair_queue_invariants s) = active_leases s"
  "controller (repair_queue_invariants s) = controller s"
  "maximum_active (repair_queue_invariants s) = maximum_active s"
  by (simp_all add: repair_queue_invariants_def Let_def)

lemma reap_ok: "admission_ok n s \<Longrightarrow> admission_ok n (reap s now)"
proof -
  assume ok: "admission_ok n s"
  let ?s = "s\<lparr>active_leases := bt_retain (\<lambda>_ expires. expires > now) (active_leases s)\<rparr>"
  have "admission_ok n ?s"
    using ok bt_retain_length [of "\<lambda>_ e. e > now" "active_leases s"]
    by (simp add: admission_ok_def bt_retain_wf)
  from removes_ok [OF this] show ?thesis
    by (simp add: reap_def Let_def admission_ok_def repair_fields)
qed

lemma removes_get:
  "bt_get (active_leases (foldl admission_remove s ws)) w = Some e \<Longrightarrow> bt_get (active_leases s) w = Some e"
proof (induction ws arbitrary: s)
  case (Cons x ws)
  from Cons.IH [of "admission_remove s x"] Cons.prems show ?case
    by (auto simp: remove_active bt_get_remove split: if_splits)
qed simp

lemma reap_get:
  assumes "bt_wf (active_leases s)" and "bt_get (active_leases (reap s now)) w = Some e"
  shows "bt_get (active_leases s) w = Some e \<and> e > now"
proof -
  let ?s = "s\<lparr>active_leases := bt_retain (\<lambda>_ expires. expires > now) (active_leases s)\<rparr>"
  have "bt_get (active_leases ?s) w = Some e"
    using assms(2) removes_get [of ?s _ w e] by (simp add: reap_def Let_def repair_fields)
  then show ?thesis by (simp add: bt_retain_get_Some [OF assms(1)])
qed

lemma enqueue_fields:
  "active_leases (admission_enqueue s p w now) = active_leases s"
  "controller (admission_enqueue s p w now) = controller s"
  "maximum_active (admission_enqueue s p w now) = maximum_active s"
  by (simp_all add: admission_enqueue_def Let_def)

lemma dequeue_fields:
  "dequeue_front dbg s p w = Some t \<Longrightarrow> active_leases t = active_leases s \<and> controller t = controller s
     \<and> maximum_active t = maximum_active s"
  by (auto simp: dequeue_front_def Let_def split: option.splits if_splits)

lemma evaluate_policy: "controller_policy (fst (evaluate c sample demand waits)) = controller_policy c"
  by (simp add: evaluate_def Let_def split: option.splits)

text \<open>What the machine must have to spare for a launch: the reserves and the demand on top.\<close>

definition headroom :: "resource_sample \<Rightarrow> bool" where
  "headroom sample \<longleftrightarrow>
     (\<exists>memory disk cpu. available_memory_bytes sample = Some memory \<and> 1610612736 \<le> memory
        \<and> available_disk_bytes sample = Some disk \<and> 2684354560 \<le> disk
        \<and> cpu_usage_percent sample = Some cpu \<and> \<not> f32_greater cpu (Number 85))"

lemma reserve_sums:
  "saturating_add (1073741824 :: u64) 536870912 = 1610612736"
  "saturating_add (2147483648 :: u64) 536870912 = 2684354560"
  by (simp_all add: saturating_add_def checked_add_def)

lemma evaluate_admits:
  assumes "snd (evaluate c sample launch_demand waits) = Admit"
    and "controller_policy c = default_policy"
  shows "headroom sample"
  using assms by (auto simp: evaluate_def Let_def headroom_def default_policy_def launch_demand_def
      reserve_sums not_less split: option.splits if_splits)

lemma launch_ok:
  assumes ok: "admission_ok n s" and room: "length (active_leases s) < maximum_active s"
    and launch: "admission_launch dbg s p w sample now = Some (s', a)"
  shows "admission_ok n s' \<and> result_active a \<le> n \<and> (result_admitted a \<longrightarrow>
    bt_get (active_leases s') w = Some (saturating_add now lease_millis) \<and> headroom sample)"
proof -
  define t where "t = (if (if now < last_tick s then 0 else now - last_tick s) \<ge> 1000
    then s\<lparr>controller := begin_tick (controller s), last_tick := now\<rparr> else s)"
  let ?e = "evaluate (controller t) sample launch_demand False"
  define u where "u = t\<lparr>controller := fst ?e\<rparr>"
  have t: "active_leases t = active_leases s" "maximum_active t = maximum_active s"
    "controller_policy (controller t) = default_policy"
    using ok by (auto simp: t_def admission_ok_def begin_tick_def)
  have u: "admission_ok n u" "active_leases u = active_leases s" "maximum_active u = maximum_active s"
    using ok t by (auto simp: u_def admission_ok_def evaluate_policy)
  show ?thesis
  proof (cases "snd ?e = Admit")
    case False
    then have "s' = u" "a = admission_answer u False None (Some (admission_reason (snd ?e)))"
      using launch unfolding admission_launch_def Let_def t_def [symmetric] u_def [symmetric] by auto
    then show ?thesis using u by (simp add: admission_answer_def admission_ok_def)
  next
    case True
    let ?x = "saturating_add now lease_millis"
    obtain v where v: "dequeue_front dbg u p w = Some v"
      "s' = v\<lparr>active_leases := bt_insert w ?x (active_leases v)\<rparr>" "a = admission_answer s' True (Some ?x) None"
      using launch True unfolding admission_launch_def Let_def t_def [symmetric] u_def [symmetric]
      by (auto split: option.splits)
    have fields: "active_leases v = active_leases s" "controller v = controller u"
      "maximum_active v = maximum_active s"
      using dequeue_fields [OF v(1)] u by auto
    have "bt_wf (active_leases s)" using ok by (simp add: admission_ok_def)
    then have "admission_ok n s'" "bt_get (active_leases s') w = Some ?x"
      using u(1) room fields bt_insert_length [of w ?x "active_leases s"] ok
      by (auto simp: v(2) admission_ok_def bt_wf_insert bt_get_insert)
    then show ?thesis
      using v(3) evaluate_admits [OF True t(3)] by (simp add: admission_answer_def admission_ok_def)
  qed
qed

lemma execute_ok:
  assumes ok: "admission_ok n s" and step: "admission_execute dbg s operation p w sample now = Some (s', a)"
  shows "admission_ok n s' \<and> result_active a \<le> n \<and> (result_admitted a \<longrightarrow>
    bt_get (active_leases s') w = Some (saturating_add now lease_millis)
    \<and> ((\<exists>e. bt_get (active_leases s) w = Some e \<and> e > now) \<or> headroom sample))"
proof -
  define t where "t = reap s now"
  have t: "admission_ok n t" unfolding t_def by (rule reap_ok [OF ok])
  let ?q = "admission_enqueue t p w now" and ?x = "saturating_add now lease_millis"
  have q: "admission_ok n ?q" using t by (simp add: admission_ok_def enqueue_fields)
  consider (release) "operation = ReleaseSlot"
    | (renew) e where "operation \<noteq> ReleaseSlot" "bt_get (active_leases t) w = Some e"
    | (wait) "s' = ?q" "\<not> result_admitted a" "result_active a = length (active_leases ?q)"
    | (launch) "length (active_leases ?q) < maximum_active ?q"
        "admission_launch dbg ?q p w sample now = Some (s', a)"
    using step unfolding admission_execute_def Let_def t_def [symmetric]
    by (auto simp: admission_answer_def split: if_splits)
  then show ?thesis
  proof cases
    case release
    then have "s' = admission_remove t w" "a = admission_answer s' False None (Some ''released'')"
      using step unfolding admission_execute_def Let_def t_def [symmetric] by auto
    then show ?thesis using remove_ok [OF t, of w] by (simp add: admission_answer_def admission_ok_def)
  next
    case (renew e)
    then have "s' = t\<lparr>active_leases := bt_set w ?x (active_leases t)\<rparr>"
      "a = admission_answer s' True (Some ?x) None"
      using step unfolding admission_execute_def Let_def t_def [symmetric] by auto
    moreover have "length (bt_set w ?x (active_leases t)) = length (active_leases t)"
      using bt_keys_set [of w ?x "active_leases t"] by (metis length_map)
    moreover have "bt_get (active_leases s) w = Some e \<and> e > now"
      using ok renew(2) unfolding t_def by (intro reap_get) (simp_all add: admission_ok_def)
    ultimately show ?thesis
      using t renew(2) by (auto simp: admission_answer_def admission_ok_def bt_get_set)
  next
    case wait
    then show ?thesis using q by (simp add: admission_ok_def)
  next
    case launch
    from launch_ok [OF q this] show ?thesis by blast
  qed
qed

lemma run_requests_ok:
  "admission_ok n s \<Longrightarrow> run_requests dbg s xs = Some (s', as) \<Longrightarrow> admission_ok n s'"
proof (induction xs arbitrary: s as)
  case (Cons x xs)
  from Cons.prems(2) obtain t a bs where "admission_execute dbg s (asked x) (asked_project x)
      (asked_workflow x) (asked_sample x) (asked_at x) = Some (t, a)" "run_requests dbg t xs = Some (s', bs)"
    by (auto split: option.splits)
  with Cons.IH [of t bs] execute_ok [OF Cons.prems(1)] show ?case by blast
qed simp

section \<open>Properties\<close>

text \<open>
  C29. The answers do not depend on how the daemon was built.  Without debug assertions an admitted
  workflow stays in its project's queue; for every sequence of requests, both builds return (no
  request panics) and give the same answers, because each request starts by dropping dead entries.
\<close>

theorem admission_builds_agree:
  "map_option snd (run_requests False (admission_new n) xs) = map_option snd (run_requests True (admission_new n) xs)
   \<and> run_requests True (admission_new n) xs \<noteq> None"
proof -
  have "same_live (admission_new n) (admission_new n)"
    by (rule same_live_refl) (simp add: admission_new_def)
  from run_requests_same [OF this, of xs] show ?thesis by auto
qed

text \<open>
  C27. After any sequence of requests the number of leases is within the maximum, which is at least
  one; a workflow is told it is admitted only with a lease of fifteen seconds on record, and only if
  it held an unexpired lease or the machine had the memory, disk and processor headroom of a launch.
\<close>

theorem admission_within_limits:
  assumes "run_requests dbg (admission_new n) xs = Some (s, as)"
    and "admission_execute dbg s operation p w sample now = Some (s', a)"
  shows "length (active_leases s') \<le> max n 1 \<and> result_active a \<le> max n 1
    \<and> (result_admitted a \<longrightarrow> bt_get (active_leases s') w = Some (saturating_add now 15000)
        \<and> ((\<exists>e. bt_get (active_leases s) w = Some e \<and> e > now) \<or> headroom sample))"
  using execute_ok [OF run_requests_ok [OF admission_ok_new assms(1)] assms(2)]
  by (simp add: admission_ok_def lease_millis_def)

definition sample_machine :: resource_sample where
  "sample_machine = \<lparr>available_disk_bytes = Some 107374182400, available_memory_bytes = Some 17179869184,
     cpu_usage_percent = Some (Number 10), owned_processes = None\<rparr>"

definition sample_admission :: "(runtime_admission \<times> admission_result) option" where
  "sample_admission = admission_execute False (admission_new 2) Acquire (Id 1) (Id 7) sample_machine 1000"

lemma sample_admission_admits: "map_option (result_admitted \<circ> snd) sample_admission = Some True"
  by (simp add: sample_admission_def admission_execute_def admission_launch_def reap_def
      repair_queue_invariants_def admission_new_def controller_new_def admission_enqueue_def
      queue_of_def at_front_def begin_tick_def evaluate_def launch_demand_def default_policy_def
      sample_machine_def dequeue_front_def admission_answer_def bt_retain_def Let_def reserve_sums
      bt_get_def)

theorem admission_within_limits_witness:
  "case sample_admission of None \<Rightarrow> False | Some (s', a) \<Rightarrow> result_admitted a
     \<and> length (active_leases s') \<le> 2 \<and> bt_get (active_leases s') (Id 7) = Some (saturating_add 1000 15000)"
proof -
  from sample_admission_admits obtain s' a where a: "sample_admission = Some (s', a)" "result_admitted a"
    by auto
  with admission_within_limits [of False 2 "[]" "admission_new 2" "[]" Acquire "Id 1" "Id 7" sample_machine 1000 s' a]
  show ?thesis by (simp add: sample_admission_def)
qed

end
