(* ===== verification/Routing.thy ===== *)
theory Routing
  imports Ledger_Event Workflow
begin

text \<open>
  Routing of a request to the quick or the full workflow: the decision of
  \<open>crates/workflow-core/src/routing.rs\<close> and the evidence \<open>crates/workflowd/src/routing.rs\<close> collects for
  it from the request's text and the affected paths.
\<close>

section \<open>Risk facts (workflow-core)\<close>

datatype risk_category =
    Authentication | Authorization | Cryptography | Secrets | TrustBoundary | DatabaseMigration
  | Persistence | DataIntegrity | NewDependency | PublicApi | Protocol | Schema | Compatibility
  | CrossLayer | Concurrency | DistributedSystem | Packaging | Installation | Update | Release
  | Deployment | LargeRefactor | AmbiguousRequirement | HighImpact | DifficultToReverse
  | Documentation | LocalizedChange | TestOnly

definition risk_categories :: "risk_category list" where
  "risk_categories =
     [Authentication, Authorization, Cryptography, Secrets, TrustBoundary, DatabaseMigration,
      Persistence, DataIntegrity, NewDependency, PublicApi, Protocol, Schema, Compatibility,
      CrossLayer, Concurrency, DistributedSystem, Packaging, Installation, Update, Release,
      Deployment, LargeRefactor, AmbiguousRequirement, HighImpact, DifficultToReverse,
      Documentation, LocalizedChange, TestOnly]"

text \<open>The derived order is the order of declaration.\<close>

fun risk_rank :: "risk_category \<Rightarrow> nat" where
  "risk_rank Authentication = 0" | "risk_rank Authorization = 1" | "risk_rank Cryptography = 2"
| "risk_rank Secrets = 3" | "risk_rank TrustBoundary = 4" | "risk_rank DatabaseMigration = 5"
| "risk_rank Persistence = 6" | "risk_rank DataIntegrity = 7" | "risk_rank NewDependency = 8"
| "risk_rank PublicApi = 9" | "risk_rank Protocol = 10" | "risk_rank Schema = 11"
| "risk_rank Compatibility = 12" | "risk_rank CrossLayer = 13" | "risk_rank Concurrency = 14"
| "risk_rank DistributedSystem = 15" | "risk_rank Packaging = 16" | "risk_rank Installation = 17"
| "risk_rank Update = 18" | "risk_rank Release = 19" | "risk_rank Deployment = 20"
| "risk_rank LargeRefactor = 21" | "risk_rank AmbiguousRequirement = 22" | "risk_rank HighImpact = 23"
| "risk_rank DifficultToReverse = 24" | "risk_rank Documentation = 25"
| "risk_rank LocalizedChange = 26" | "risk_rank TestOnly = 27"

lemma risk_rank_nth: "risk_categories ! risk_rank c = c"
  by (cases c) (simp_all add: risk_categories_def)

lemma risk_rank_inject [simp]: "risk_rank a = risk_rank b \<longleftrightarrow> a = b"
  by (metis risk_rank_nth)

instantiation risk_category :: linorder
begin

definition less_eq_risk_category :: "risk_category \<Rightarrow> risk_category \<Rightarrow> bool" where
  "less_eq_risk_category a b \<longleftrightarrow> risk_rank a \<le> risk_rank b"

definition less_risk_category :: "risk_category \<Rightarrow> risk_category \<Rightarrow> bool" where
  "less_risk_category a b \<longleftrightarrow> risk_rank a < risk_rank b"

instance
  by standard (auto simp: less_eq_risk_category_def less_risk_category_def dest: antisym)

end

fun is_critical :: "risk_category \<Rightarrow> bool" where
  "is_critical c \<longleftrightarrow> c \<notin> {Documentation, LocalizedChange, TestOnly}"

lemma not_critical [simp]:
  "\<not> is_critical Documentation" "\<not> is_critical LocalizedChange" "\<not> is_critical TestOnly"
  by simp_all

declare is_critical.simps [simp del]

datatype risk_source = Deterministic | UserStated | ModelAdvisory

record risk_fact =
  fact_category :: risk_category
  path_backed :: bool
  fact_source :: risk_source

datatype routing_preference = PreferAuto | PreferQuick | PreferFull

record routing_input =
  facts :: "risk_fact list"
  preference :: routing_preference
  critical_downgrade_approval :: "receipt_id option"

record routing_decision =
  decided_mode :: workflow_mode
  critical_categories :: "risk_category list"
  advisory_categories :: "risk_category list"
  user_promoted :: bool
  downgrade_approval_required :: bool
  downgrade_approval :: "receipt_id option"

text \<open>\<open>collect::<BTreeSet<_>>\<close> and back to a vector.\<close>

definition bs_collect :: "'a::linorder list \<Rightarrow> 'a list" where
  "bs_collect xs = fold bs_insert xs []"

definition route_workflow :: "routing_input \<Rightarrow> routing_decision" where
  "route_workflow i =
     (let critical = bs_collect (map fact_category (filter (\<lambda>f.
            fact_source f \<noteq> ModelAdvisory \<and> is_critical (fact_category f)) (facts i)));
          advisory = bs_collect (map fact_category (filter (\<lambda>f. fact_source f = ModelAdvisory) (facts i)));
          path_backed_critical = list_ex (\<lambda>f. fact_source f \<noteq> ModelAdvisory
            \<and> is_critical (fact_category f) \<and> path_backed f) (facts i);
          promoted = (preference i = PreferFull);
          requested_downgrade = (preference i = PreferQuick \<and> critical \<noteq> []);
          approved_downgrade = (requested_downgrade \<and> critical_downgrade_approval i \<noteq> None);
          auto_requires_full = (path_backed_critical \<or> length critical \<ge> 2)
      in \<lparr>decided_mode =
            (if promoted \<or> (preference i = PreferQuick \<and> critical \<noteq> [] \<and> \<not> approved_downgrade)
                \<or> (preference i = PreferAuto \<and> auto_requires_full) then Full else Quick),
          critical_categories = critical,
          advisory_categories = advisory,
          user_promoted = promoted,
          downgrade_approval_required = (requested_downgrade \<and> \<not> approved_downgrade),
          downgrade_approval = (if approved_downgrade then critical_downgrade_approval i else None)\<rparr>)"

section \<open>Evidence from the request (workflowd)\<close>

record routing_evidence =
  evidence_facts :: "risk_fact list"
  rationales :: "(risk_category, string list) btree_map"

definition request_markers :: "(risk_category \<times> string list) list" where
  "request_markers =
     [(Authentication, [''authentication'', ''login'', ''sign-in'']),
      (Authorization, [''authorization'', ''rbac'', ''access control'']),
      (Cryptography, [''cryptography'', ''encryption'', ''cipher'']),
      (Secrets, [''secret'', ''credential'', ''api key'']),
      (TrustBoundary, [''trust boundary'', ''sandbox'', ''isolation'']),
      (DatabaseMigration, [''database migration'', ''schema migration'']),
      (Persistence, [''persistence'', ''sqlite'', ''postgres'']),
      (DataIntegrity, [''data integrity'', ''transaction'', ''atomic'']),
      (NewDependency, [''new dependency'', ''add dependency'']),
      (PublicApi, [''public api'', ''api endpoint'', ''public interface'']),
      (Protocol, [''protocol'', ''ipc'', ''wire format'']),
      (Schema, [''schema'']),
      (Compatibility, [''compatibility'', ''cross-platform'']),
      (CrossLayer, [''frontend'', ''backend'', ''full-stack'', ''cross-layer'']),
      (Concurrency, [''concurrency'', ''parallel'', ''thread-safe'']),
      (DistributedSystem, [''distributed'', ''cluster'']),
      (Packaging, [''packaging'', ''installer'', ''archive'']),
      (Installation, [''installation'']),
      (Update, [''breaking update'', ''version upgrade'']),
      (Release, [''release'', ''publish'']),
      (Deployment, [''deployment'', ''deploy'']),
      (LargeRefactor, [''large refactor'', ''rewrite'']),
      (HighImpact, [''high impact'', ''critical'']),
      (DifficultToReverse, [''irreversible'', ''difficult to reverse''])]"

definition token_char :: "char \<Rightarrow> bool" where
  "token_char c \<longleftrightarrow> is_ascii_alphanumeric c \<or> c = CHR ''_''"

text \<open>\<open>split\<close> at every character that is not part of a token.\<close>

fun tokens :: "string \<Rightarrow> string list" where
  "tokens [] = [[]]"
| "tokens (c # s) =
     (if token_char c then (case tokens s of [] \<Rightarrow> [[c]] | t # ts \<Rightarrow> (c # t) # ts) else [] # tokens s)"

definition contains_marker :: "string \<Rightarrow> string \<Rightarrow> bool" where
  "contains_marker text_value marker =
     (if CHR '' '' \<in> set marker \<or> CHR ''-'' \<in> set marker then contains_str marker text_value
      else marker \<in> set (tokens text_value))"

text \<open>\<open>rationales.entry(category).or_default().insert(reason)\<close>.\<close>

definition reasons_of :: "(risk_category, string list) btree_map \<Rightarrow> risk_category \<Rightarrow> string list" where
  "reasons_of m c = (case bt_get m c of None \<Rightarrow> [] | Some rs \<Rightarrow> rs)"

definition add_reason ::
  "risk_category \<Rightarrow> string \<Rightarrow> (risk_category, string list) btree_map \<Rightarrow>
     (risk_category, string list) btree_map" where
  "add_reason c reason m = bt_insert c (bs_insert reason (reasons_of m c)) m"

definition normal_path :: "string \<Rightarrow> string" where
  "normal_path path = to_ascii_lowercase (map (\<lambda>c. if c = CHR 0x5C then CHR ''/'' else c) path)"

definition path_markers :: "(risk_category \<times> string list) list" where
  "path_markers =
     [(DatabaseMigration, [''/migrations/'', ''.sql'']),
      (Packaging, [''/installer/'', ''/packaging/'']),
      (Deployment, [''/deploy/'', ''/k8s/''])]"

definition dependency_manifests :: "string list" where
  "dependency_manifests =
     [''cargo.toml'', ''package.json'', ''pyproject.toml'', ''requirements.txt'', ''go.mod'', ''pom.xml'']"

definition classify_path ::
  "string \<Rightarrow> (risk_category, string list) btree_map \<Rightarrow> (risk_category, string list) btree_map" where
  "classify_path path m =
     (let normalized = normal_path path;
          m = fold (\<lambda>(c, markers) m.
            if list_ex (\<lambda>marker. contains_str marker normalized) markers then add_reason c path m else m)
            path_markers m;
          m = (if list_ex (\<lambda>manifest. suffix manifest normalized) dependency_manifests
               then add_reason NewDependency path m else m)
      in if prefix ''docs/'' normalized \<or> suffix ''.md'' normalized
         then add_reason Documentation path m else m)"

text \<open>Whether a reason is a path rather than one of the reserved words.\<close>

definition path_reason :: "string \<Rightarrow> bool" where
  "path_reason r \<longleftrightarrow>
     r \<noteq> ''original_request'' \<and> r \<noteq> ''bounded_path_count'' \<and> r \<noteq> ''test_only_paths''"

definition automatic_evidence :: "string \<Rightarrow> string list \<Rightarrow> routing_evidence" where
  "automatic_evidence original_request affected_paths =
     (let normalized = to_ascii_lowercase original_request;
          m = fold (\<lambda>(c, markers) m.
            if list_ex (contains_marker normalized) markers
            then add_reason c ''original_request'' m else m) request_markers [];
          m = fold classify_path affected_paths m;
          m = (if list_all (\<lambda>c. \<not> is_critical c) (bt_keys m) then
                 let m = (if affected_paths \<noteq> [] \<and> length affected_paths \<le> 3
                          then add_reason LocalizedChange ''bounded_path_count'' m else m)
                 in if affected_paths \<noteq> [] \<and> list_all (\<lambda>path.
                         contains_str ''test'' (to_ascii_lowercase path)
                         \<or> contains_str ''spec'' (to_ascii_lowercase path)
                         \<or> contains_str ''fixture'' (to_ascii_lowercase path)) affected_paths
                    then add_reason TestOnly ''test_only_paths'' m else m
               else m)
      in \<lparr>evidence_facts = map (\<lambda>(c, reasons). \<lparr>fact_category = c,
            path_backed = list_ex path_reason reasons,
            fact_source = Deterministic\<rparr>) m,
          rationales = m\<rparr>)"

section \<open>What the evidence holds\<close>

definition request_mentions :: "string \<Rightarrow> risk_category \<Rightarrow> bool" where
  "request_mentions request c \<longleftrightarrow>
     (\<exists>markers. (c, markers) \<in> set request_markers
        \<and> list_ex (contains_marker (to_ascii_lowercase request)) markers)"

definition path_touches :: "string \<Rightarrow> risk_category \<Rightarrow> bool" where
  "path_touches path c \<longleftrightarrow>
     (\<exists>markers. (c, markers) \<in> set path_markers
        \<and> list_ex (\<lambda>marker. contains_str marker (normal_path path)) markers)
     \<or> c = NewDependency \<and> list_ex (\<lambda>manifest. suffix manifest (normal_path path)) dependency_manifests
     \<or> c = Documentation \<and> (prefix ''docs/'' (normal_path path) \<or> suffix ''.md'' (normal_path path))"

definition reasons_ok :: "(risk_category, string list) btree_map \<Rightarrow> bool" where
  "reasons_ok m \<longleftrightarrow> bt_wf m \<and> (\<forall>c rs. bt_get m c = Some rs \<longrightarrow> rs \<noteq> [])"

lemma add_reason_get:
  "bt_wf m \<Longrightarrow> bt_get (add_reason c r m) = (bt_get m)(c \<mapsto> bs_insert r (reasons_of m c))"
  by (simp add: add_reason_def bt_get_insert)

lemma bs_insert_not_Nil [simp]: "bs_insert x xs \<noteq> []"
  using set_insort_insert [of x xs] by force

lemma add_reason_ok: "reasons_ok m \<Longrightarrow> reasons_ok (add_reason c r m)"
  by (auto simp: reasons_ok_def add_reason_get) (simp add: add_reason_def bt_wf_insert)

lemma add_reason_set:
  "reasons_ok m \<Longrightarrow> set (reasons_of (add_reason c r m) d) =
     set (reasons_of m d) \<union> (if d = c then {r} else {})"
  by (auto simp: reasons_ok_def reasons_of_def [of "add_reason c r m"] add_reason_get
      set_insort_insert reasons_of_def)

lemma add_reasons:
  "reasons_ok m \<Longrightarrow>
   reasons_ok (fold (\<lambda>(c, x) m. if P x then add_reason c r m else m) xs m)
   \<and> set (reasons_of (fold (\<lambda>(c, x) m. if P x then add_reason c r m else m) xs m) d) =
     set (reasons_of m d) \<union> (if \<exists>x. (d, x) \<in> set xs \<and> P x then {r} else {})"
proof (induction xs arbitrary: m)
  case (Cons y xs)
  obtain c x where y: "y = (c, x)" by (cases y)
  let ?m = "if P x then add_reason c r m else m"
  have "reasons_ok ?m" using Cons.prems add_reason_ok by simp
  from Cons.IH [OF this] show ?case
    using add_reason_set [OF Cons.prems, of c r d] by (auto simp: y)
qed simp

lemma classify_path_reasons:
  assumes "reasons_ok m"
  shows "reasons_ok (classify_path path m)
    \<and> set (reasons_of (classify_path path m) d) =
      set (reasons_of m d) \<union> (if path_touches path d then {path} else {})"
proof -
  define m1 where "m1 = fold (\<lambda>(c, markers) m.
    if list_ex (\<lambda>marker. contains_str marker (normal_path path)) markers then add_reason c path m else m)
    path_markers m"
  define m2 where "m2 = (if list_ex (\<lambda>manifest. suffix manifest (normal_path path)) dependency_manifests
    then add_reason NewDependency path m1 else m1)"
  have 1: "reasons_ok m1" "set (reasons_of m1 d) = set (reasons_of m d) \<union>
      (if \<exists>x. (d, x) \<in> set path_markers \<and> list_ex (\<lambda>marker. contains_str marker (normal_path path)) x
       then {path} else {})"
    unfolding m1_def by (rule conjunct1 [OF add_reasons [OF assms]] conjunct2 [OF add_reasons [OF assms]])+
  have 2: "reasons_ok m2" "set (reasons_of m2 d) = set (reasons_of m1 d) \<union>
      (if d = NewDependency \<and> list_ex (\<lambda>manifest. suffix manifest (normal_path path)) dependency_manifests
       then {path} else {})"
    using 1(1) by (auto simp: m2_def add_reason_ok add_reason_set)
  have "classify_path path m = (if prefix ''docs/'' (normal_path path) \<or> suffix ''.md'' (normal_path path)
      then add_reason Documentation path m2 else m2)"
    by (simp add: classify_path_def Let_def m1_def m2_def)
  then show ?thesis
    using 1 2 add_reason_ok [OF 2(1)] add_reason_set [OF 2(1), of Documentation path d]
    by (auto simp: path_touches_def)
qed

lemma classify_paths_reasons:
  "reasons_ok m \<Longrightarrow> reasons_ok (fold classify_path paths m)
   \<and> set (reasons_of (fold classify_path paths m) d) =
     set (reasons_of m d) \<union> {path \<in> set paths. path_touches path d}"
proof (induction paths arbitrary: m)
  case (Cons path paths)
  from classify_path_reasons [OF Cons.prems] Cons.IH [of "classify_path path m"]
  show ?case by auto
qed simp

lemma automatic_reasons:
  defines "ev request paths \<equiv> rationales (automatic_evidence request paths)"
  shows "reasons_ok (ev request paths)"
    and "is_critical d \<Longrightarrow> set (reasons_of (ev request paths) d) =
      (if request_mentions request d then {''original_request''} else {})
      \<union> {path \<in> set paths. path_touches path d}"
proof -
  define m0 where "m0 = fold (\<lambda>(c, markers) m.
    if list_ex (contains_marker (to_ascii_lowercase request)) markers
    then add_reason c ''original_request'' m else m) request_markers []"
  define m1 where "m1 = fold classify_path paths m0"
  have "reasons_ok []" by (simp add: reasons_ok_def)
  note start = add_reasons [OF this]
  have 0: "reasons_ok m0" unfolding m0_def by (rule conjunct1 [OF start])
  have reasons0: "set (reasons_of m0 d) =
      (if request_mentions request d then {''original_request''} else {})" for d
    unfolding m0_def request_mentions_def conjunct2 [OF start] by (simp add: reasons_of_def)
  from classify_paths_reasons [OF 0] have 1: "reasons_ok m1" "set (reasons_of m1 d) =
      (if request_mentions request d then {''original_request''} else {})
      \<union> {path \<in> set paths. path_touches path d}" for d
    by (simp_all add: m1_def reasons0)
  define m2 where "m2 = (if paths \<noteq> [] \<and> length paths \<le> 3
    then add_reason LocalizedChange ''bounded_path_count'' m1 else m1)"
  have 2: "reasons_ok m2" "is_critical d \<Longrightarrow> set (reasons_of m2 d) = set (reasons_of m1 d)" for d
    using 1(1) add_reason_ok add_reason_set [OF 1(1), of LocalizedChange "''bounded_path_count''" d]
    by (auto simp: m2_def)
  have 3: "reasons_ok (add_reason TestOnly ''test_only_paths'' m2)"
    "is_critical d \<Longrightarrow> set (reasons_of (add_reason TestOnly ''test_only_paths'' m2) d) =
      set (reasons_of m2 d)" for d
    using add_reason_ok [OF 2(1)] by (auto simp: add_reason_set [OF 2(1)] split: if_splits)
  have "ev request paths = m1 \<or> ev request paths = m2
      \<or> ev request paths = add_reason TestOnly ''test_only_paths'' m2"
    unfolding ev_def automatic_evidence_def Let_def m0_def [symmetric] m1_def [symmetric]
      m2_def [symmetric] by simp
  then show "reasons_ok (ev request paths)"
    and "is_critical d \<Longrightarrow> set (reasons_of (ev request paths) d) =
      (if request_mentions request d then {''original_request''} else {})
      \<union> {path \<in> set paths. path_touches path d}"
    using 1 2 3 by auto
qed

text \<open>No path that touches a critical category is spelled like one of the reserved reasons.\<close>

lemma reserved_untouched:
  "list_all (\<lambda>p. list_all (\<lambda>(c, ms). \<not> list_ex (\<lambda>m. contains_str m (normal_path p)) ms) path_markers
     \<and> \<not> list_ex (\<lambda>m. suffix m (normal_path p)) dependency_manifests)
   [''original_request'', ''bounded_path_count'', ''test_only_paths'']"
  by code_simp

lemma touching_not_reserved:
  assumes "path_touches path c" and "is_critical c"
  shows "path_reason path"
proof (rule ccontr)
  assume "\<not> path_reason path"
  then have "path \<in> set [''original_request'', ''bounded_path_count'', ''test_only_paths'']"
    by (auto simp: path_reason_def)
  from bspec [OF iffD1 [OF list_all_iff reserved_untouched] this]
  have "list_all (\<lambda>(c, ms). \<not> list_ex (\<lambda>m. contains_str m (normal_path path)) ms) path_markers
      \<and> \<not> list_ex (\<lambda>m. suffix m (normal_path path)) dependency_manifests" .
  with assms show False by (auto simp: path_touches_def is_critical.simps list_all_iff)
qed

section \<open>The decision\<close>

lemma bs_collect_set [simp]: "set (bs_collect xs) = set xs"
proof -
  have "set (fold bs_insert xs ys) = set xs \<union> set ys" for ys
    by (induction xs arbitrary: ys) (auto simp: set_insort_insert)
  then show ?thesis by (simp add: bs_collect_def)
qed

lemma bs_collect_distinct [simp]: "distinct (bs_collect xs)"
proof -
  have "bs_wf ys \<Longrightarrow> bs_wf (fold bs_insert xs ys)" for ys
    by (induction xs arbitrary: ys) (auto simp: bs_wf_insert)
  then show ?thesis by (simp add: bs_collect_def bs_wf_def)
qed

lemma bs_collect_length: "length (bs_collect xs) = card (set xs)"
  by (metis bs_collect_set bs_collect_distinct distinct_card)

definition stated_critical :: "routing_input \<Rightarrow> risk_category set" where
  "stated_critical i =
     {c. is_critical c \<and> (\<exists>f \<in> set (facts i). fact_source f \<noteq> ModelAdvisory \<and> fact_category f = c)}"

lemma critical_set: "set (critical_categories (route_workflow i)) = stated_critical i"
  by (auto simp: route_workflow_def Let_def stated_critical_def)

lemma route_mode:
  "decided_mode (route_workflow i) = (case preference i of
     PreferFull \<Rightarrow> Full
   | PreferQuick \<Rightarrow> if stated_critical i = {} \<or> critical_downgrade_approval i \<noteq> None then Quick else Full
   | PreferAuto \<Rightarrow>
       if (\<exists>f \<in> set (facts i). fact_source f \<noteq> ModelAdvisory \<and> is_critical (fact_category f) \<and> path_backed f)
         \<or> 2 \<le> card (stated_critical i) then Full else Quick)"
proof -
  let ?cs = "bs_collect (map fact_category (filter (\<lambda>f.
    fact_source f \<noteq> ModelAdvisory \<and> is_critical (fact_category f)) (facts i)))"
  have set: "set ?cs = stated_critical i" by (auto simp: stated_critical_def)
  then have "length ?cs = card (stated_critical i)" "?cs = [] \<longleftrightarrow> stated_critical i = {}"
    by (metis bs_collect_distinct distinct_card) (metis set set_empty)
  then show ?thesis
    by (auto simp: route_workflow_def Let_def list_ex_iff split: routing_preference.splits)
qed

lemma evidence_facts_map:
  "evidence_facts (automatic_evidence request paths) =
     map (\<lambda>(c, reasons). \<lparr>fact_category = c,
        path_backed = list_ex path_reason reasons,
        fact_source = Deterministic\<rparr>) (rationales (automatic_evidence request paths))"
  by (simp add: automatic_evidence_def Let_def)

lemma evidence_fact:
  "f \<in> set (evidence_facts (automatic_evidence request paths)) \<longleftrightarrow>
     (\<exists>c rs. (c, rs) \<in> set (rationales (automatic_evidence request paths)) \<and> f = \<lparr>fact_category = c,
        path_backed = list_ex path_reason rs, fact_source = Deterministic\<rparr>)"
  unfolding evidence_facts_map set_map by (simp add: image_iff Bex_def split: prod.splits)

lemma evidence_facts_critical:
  fixes request :: string and paths :: "string list"
  assumes "is_critical c"
  defines "ev \<equiv> automatic_evidence request paths"
  shows "(\<exists>f \<in> set (evidence_facts ev). fact_category f = c) \<longleftrightarrow>
      request_mentions request c \<or> (\<exists>path \<in> set paths. path_touches path c)"
    and "(\<exists>f \<in> set (evidence_facts ev). fact_category f = c \<and> path_backed f) \<longleftrightarrow>
      (\<exists>path \<in> set paths. path_touches path c)"
proof -
  have ok: "reasons_ok (rationales ev)" unfolding ev_def by (rule automatic_reasons(1))
  then have get: "bt_get (rationales ev) c = Some rs \<longleftrightarrow> (c, rs) \<in> set (rationales ev)" for rs
    by (simp add: reasons_ok_def bt_get_Some_iff)
  have reasons: "set (reasons_of (rationales ev) c) =
      (if request_mentions request c then {''original_request''} else {})
      \<union> {path \<in> set paths. path_touches path c}"
    unfolding ev_def by (rule automatic_reasons(2) [OF assms(1)])
  have fact: "(\<exists>f \<in> set (evidence_facts ev). fact_category f = c) \<longleftrightarrow> (\<exists>rs. bt_get (rationales ev) c = Some rs)"
    unfolding ev_def get [unfolded ev_def] by (force simp: evidence_fact)
  also have "\<dots> \<longleftrightarrow> reasons_of (rationales ev) c \<noteq> []"
    using ok by (auto simp: reasons_of_def reasons_ok_def split: option.splits)
  also have "\<dots> \<longleftrightarrow> set (reasons_of (rationales ev) c) \<noteq> {}" by simp
  finally show "(\<exists>f \<in> set (evidence_facts ev). fact_category f = c) \<longleftrightarrow>
      request_mentions request c \<or> (\<exists>path \<in> set paths. path_touches path c)"
    unfolding reasons by auto
  have "(\<exists>f \<in> set (evidence_facts ev). fact_category f = c \<and> path_backed f) \<longleftrightarrow>
      (\<exists>rs. bt_get (rationales ev) c = Some rs \<and> (\<exists>r \<in> set rs. path_reason r))"
    unfolding ev_def get [unfolded ev_def] by (force simp: evidence_fact list_ex_iff)
  also have "\<dots> \<longleftrightarrow> (\<exists>r \<in> set (reasons_of (rationales ev) c). path_reason r)"
    by (cases "bt_get (rationales ev) c") (auto simp: reasons_of_def)
  also have "\<dots> \<longleftrightarrow> (\<exists>path \<in> set paths. path_touches path c)"
    unfolding reasons using touching_not_reserved [OF _ assms(1)] by (auto simp: path_reason_def)
  finally show "(\<exists>f \<in> set (evidence_facts ev). fact_category f = c \<and> path_backed f) \<longleftrightarrow>
      (\<exists>path \<in> set paths. path_touches path c)" .
qed

lemma evidence_sources: "f \<in> set (evidence_facts (automatic_evidence request paths)) \<Longrightarrow> fact_source f = Deterministic"
  by (auto simp: evidence_fact)

section \<open>Properties\<close>

text \<open>
  The mode is decided by the preference and the facts that are not a model's advice: full on
  request; quick on request unless a critical category is stated and no downgrade was approved;
  otherwise full exactly when a critical fact is backed by a path or two critical categories are
  stated.  Dropping every fact that comes from a model changes nothing of the decision but the list
  of advisory categories.
\<close>

theorem route_workflow_decision:
  "decided_mode (route_workflow i) = (case preference i of
     PreferFull \<Rightarrow> Full
   | PreferQuick \<Rightarrow> if stated_critical i = {} \<or> critical_downgrade_approval i \<noteq> None then Quick else Full
   | PreferAuto \<Rightarrow>
       if (\<exists>f \<in> set (facts i). fact_source f \<noteq> ModelAdvisory \<and> is_critical (fact_category f) \<and> path_backed f)
         \<or> 2 \<le> card (stated_critical i) then Full else Quick)
   \<and> route_workflow (i\<lparr>facts := filter (\<lambda>f. fact_source f \<noteq> ModelAdvisory) (facts i)\<rparr>) =
     (route_workflow i)\<lparr>advisory_categories := []\<rparr>"
proof (intro conjI)
  let ?stated = "\<lambda>f. fact_source f \<noteq> ModelAdvisory"
  have "bs_collect ([] :: risk_category list) = []" by (simp add: bs_collect_def)
  moreover have "filter (\<lambda>f. ?stated f \<and> P f) (filter ?stated fs) = filter (\<lambda>f. ?stated f \<and> P f) fs"
    "filter (\<lambda>f. fact_source f = ModelAdvisory) (filter ?stated fs) = []"
    "list_ex (\<lambda>f. ?stated f \<and> P f) (filter ?stated fs) = list_ex (\<lambda>f. ?stated f \<and> P f) fs"
    for P and fs :: "risk_fact list"
    by (induction fs) auto
  ultimately show "route_workflow (i\<lparr>facts := filter ?stated (facts i)\<rparr>) =
      (route_workflow i)\<lparr>advisory_categories := []\<rparr>"
    unfolding route_workflow_def Let_def by (simp del: filter_filter)
qed (rule route_mode)

theorem route_workflow_decision_witness:
  "decided_mode (route_workflow \<lparr>facts = [\<lparr>fact_category = DatabaseMigration, path_backed = True,
       fact_source = ModelAdvisory\<rparr>, \<lparr>fact_category = Deployment, path_backed = False,
       fact_source = UserStated\<rparr>], preference = PreferAuto, critical_downgrade_approval = None\<rparr>) = Quick"
proof -
  let ?i = "\<lparr>facts = [\<lparr>fact_category = DatabaseMigration, path_backed = True,
       fact_source = ModelAdvisory\<rparr>, \<lparr>fact_category = Deployment, path_backed = False,
       fact_source = UserStated\<rparr>], preference = PreferAuto, critical_downgrade_approval = None\<rparr>"
  have "stated_critical ?i \<subseteq> {Deployment}" by (auto simp: stated_critical_def)
  then have "card (stated_critical ?i) \<le> 1" using card_mono [of "{Deployment}"] by simp
  with route_workflow_decision [of ?i] show ?thesis by simp
qed

text \<open>
  C28. Without a stated preference, the daemon sends a request to the full workflow exactly when one
  of the affected paths touches a critical category or the text of the request mentions at least two
  of them, whatever else is in the text or the paths.
\<close>

theorem automatic_route_is_full_iff:
  "decided_mode (route_workflow \<lparr>facts = evidence_facts (automatic_evidence request paths),
      preference = PreferAuto, critical_downgrade_approval = approval\<rparr>) = Full \<longleftrightarrow>
     (\<exists>path \<in> set paths. \<exists>c. is_critical c \<and> path_touches path c)
     \<or> 2 \<le> card {c. is_critical c \<and> request_mentions request c}"
proof -
  let ?ev = "automatic_evidence request paths"
  let ?i = "\<lparr>facts = evidence_facts ?ev, preference = PreferAuto, critical_downgrade_approval = approval\<rparr>"
  have backed: "(\<exists>f \<in> set (evidence_facts ?ev). fact_source f \<noteq> ModelAdvisory
      \<and> is_critical (fact_category f) \<and> path_backed f) \<longleftrightarrow>
      (\<exists>path \<in> set paths. \<exists>c. is_critical c \<and> path_touches path c)"
    using evidence_facts_critical(2) [of _ request paths] evidence_sources [of _ request paths]
    by fastforce
  have stated: "stated_critical ?i = {c. is_critical c \<and> (request_mentions request c
      \<or> (\<exists>path \<in> set paths. path_touches path c))}"
    using evidence_facts_critical(1) [of _ request paths] evidence_sources [of _ request paths]
    unfolding stated_critical_def by (auto; fastforce)
  show ?thesis
  proof (cases "\<exists>path \<in> set paths. \<exists>c. is_critical c \<and> path_touches path c")
    case True
    then show ?thesis by (simp add: route_mode backed)
  next
    case False
    then have "stated_critical ?i = {c. is_critical c \<and> request_mentions request c}"
      unfolding stated by blast
    with False show ?thesis by (simp add: route_mode backed)
  qed
qed

end
