(* ===== verification/Store_Tables.thy ===== *)
theory Store_Tables
  imports Workflow Task_Lease Goal Candidate Verdicts Ledger_Chain Ordered_Map
begin

text \<open>
  The tables of \<open>crates/workflow-store\<close> and the errors of its operations (\<open>lib.rs\<close>, \<open>migrations/\<close>).
  A table is an ordered map from its primary key to the columns the operations read.  A column that
  holds JSON holds the value that was serialised; reading one back runs the checks of the type's
  deserialiser, which only goals and candidate manifests have.  Columns with the time of a row are
  left out: they are written and read back, never compared by the operations modelled here.
  An operation that fails inside a transaction leaves the store as it was.  \<open>SqliteError\<close> stands for
  a constraint violation and for a missing row where the code demands one; failures of the disk or of
  SQLite itself are not modelled.  \<open>Panicked\<close> stands for a panic inside a request, which ends the
  request and leaves the tables as they are.
\<close>

datatype store_error =
    SqliteError
  | StoreReadOnly
  | AggregateConflict
  | InvalidCandidatePayload
  | MissingCandidatePayload
  | DeliveryInProgress
  | IdempotencyConflict
  | InvalidIdempotencyKey
  | SerializationError
  | TransitionFailed transition_error
  | LeaseFailed lease_error
  | LeaseNotFound
  | EvidenceFailed evidence_validation_error
  | GoalFailed goal_error
  | ReviewFailed review_validation_error
  | RequestDigestMismatch
  | LedgerFailed "unit ledger_error"
  | LedgerCheckpointFailed
  | IntegerRange
  | Panicked

text \<open>The columns \<open>aggregate_type\<close> and \<open>aggregate_id\<close> together.\<close>

datatype aggregate =
    WorkflowAggregate workflow_id
  | TaskAggregate task_id
  | GoalAggregate goal_id
  | AmendmentAggregate goal_id

text \<open>The column \<open>result_json\<close> of \<open>command_deduplication\<close>.\<close>

datatype recorded_result =
    WorkflowRecorded "workflow_event list" workflow
  | TaskRecorded "task_event list" task
  | GoalRecorded "goal_event list" goal
  | AmendmentRecorded goal

text \<open>The rows of \<open>events\<close>.\<close>

datatype logged_event =
    WorkflowLogged workflow_id workflow_event
  | TaskLogged task_id task_event
  | GoalLogged goal_id goal_event
  | AmendmentLogged goal_id u32

record file_payload =
  payload_path :: string
  payload_content :: "byte list"
  payload_executable :: bool

record candidate_row =
  candidate_owner :: workflow_id
  candidate_manifest_json :: candidate_manifest
  candidate_diff :: "byte list"
  candidate_complete :: bool
  candidate_files :: "file_payload list"

record reservation_row =
  reserved_workflow :: workflow_id
  reserved_digest :: content_digest
  reserved_journal :: "content_digest option"

record evidence_row =
  row_plan :: verification_plan_id
  row_workflow :: workflow_id
  row_candidate :: candidate_id
  row_mandatory :: bool
  row_record :: evidence_record
  row_output :: string
  row_attempts :: "(evidence_record \<times> string) list"

record store =
  read_write :: bool
  workflow_rows :: "(workflow_id, workflow) btree_map"
  task_rows :: "(task_id, workflow_id \<times> task) btree_map"
  goal_rows :: "(goal_id, project_id \<times> goal) btree_map"
  event_rows :: "logged_event list"
  dedup_rows :: "(string, aggregate \<times> recorded_result) btree_map"
  lease_rows :: "(task_id, lease \<times> bool) btree_map"
  candidate_rows :: "(candidate_id, candidate_row) btree_map"
  reservation_rows :: "(candidate_id, reservation_row) btree_map"
  plan_rows :: "(verification_plan_id, workflow_id \<times> string) btree_map"
  evidence_rows :: "(evidence_id, evidence_row) btree_map"

definition empty_store :: store where
  "empty_store = \<lparr>read_write = True, workflow_rows = [], task_rows = [], goal_rows = [],
     event_rows = [], dedup_rows = [], lease_rows = [], candidate_rows = [], reservation_rows = [],
     plan_rows = [], evidence_rows = []\<rparr>"

type_synonym 'a store_result = "store \<times> (store_error + 'a)"

definition validate_idempotency_key :: "string \<Rightarrow> store_error + unit" where
  "validate_idempotency_key key =
     (if key = [] \<or> length key > 256 then Err InvalidIdempotencyKey else Ok ())"

end
