(* ===== verification/Store_Commands.thy ===== *)
theory Store_Commands
  imports Store_Tables
begin

text \<open>
  The commands the store applies to its aggregates, each under an idempotency key: \<open>workflows.rs\<close>,
  \<open>tasks.rs\<close> and the commands of \<open>goals.rs\<close>; and the reservations that hold a workflow still while
  its candidate is delivered, from \<open>candidates.rs\<close>.  A result carries whether it is a duplicate, the
  events and the state.
\<close>

section \<open>Reservations (candidates.rs)\<close>

definition delivery_reserved :: "store \<Rightarrow> workflow_id \<Rightarrow> bool" where
  "delivery_reserved s w \<longleftrightarrow> list_ex (\<lambda>(_, r). reserved_workflow r = w) (reservation_rows s)"

text \<open>
  The columns reference the candidate and the workflow, and a workflow has at most one row.
\<close>

definition reserve_candidate_delivery ::
  "store \<Rightarrow> workflow_id \<Rightarrow> candidate_id \<Rightarrow> content_digest \<Rightarrow> bool store_result" where
  "reserve_candidate_delivery s w c digest =
     (if \<not> read_write s then (s, Err StoreReadOnly)
      else case bt_get (reservation_rows s) c of
        Some r \<Rightarrow> (s, if reserved_workflow r = w \<and> reserved_digest r = digest then Ok True
                       else Err AggregateConflict)
      | None \<Rightarrow>
          if delivery_reserved s w \<or> bt_get (candidate_rows s) c = None \<or> bt_get (workflow_rows s) w = None
          then (s, Err SqliteError)
          else (s\<lparr>reservation_rows := bt_insert c \<lparr>reserved_workflow = w, reserved_digest = digest,
                    reserved_journal = None\<rparr> (reservation_rows s)\<rparr>, Ok False))"

definition release_candidate_delivery ::
  "store \<Rightarrow> workflow_id \<Rightarrow> candidate_id \<Rightarrow> content_digest \<Rightarrow> unit store_result" where
  "release_candidate_delivery s w c digest =
     (if \<not> read_write s then (s, Err StoreReadOnly)
      else case bt_get (reservation_rows s) c of
        None \<Rightarrow> (s, Err AggregateConflict)
      | Some r \<Rightarrow> if reserved_workflow r = w \<and> reserved_digest r = digest
          then (s\<lparr>reservation_rows := bt_remove c (reservation_rows s)\<rparr>, Ok ())
          else (s, Err AggregateConflict))"

text \<open>This one does not test the mode; a read-only connection refuses the update.\<close>

definition bind_delivery_journal ::
  "store \<Rightarrow> workflow_id \<Rightarrow> candidate_id \<Rightarrow> content_digest \<Rightarrow> content_digest option \<Rightarrow>
     content_digest \<Rightarrow> unit store_result" where
  "bind_delivery_journal s w c digest expected journal =
     (if \<not> read_write s then (s, Err SqliteError)
      else case bt_get (reservation_rows s) c of
        None \<Rightarrow> (s, Err AggregateConflict)
      | Some r \<Rightarrow> if reserved_workflow r = w \<and> reserved_digest r = digest \<and> reserved_journal r = expected
          then (s\<lparr>reservation_rows := bt_set c (r\<lparr>reserved_journal := Some journal\<rparr>)
                  (reservation_rows s)\<rparr>, Ok ())
          else (s, Err AggregateConflict))"

definition delivery_journal_digest ::
  "store \<Rightarrow> workflow_id \<Rightarrow> candidate_id \<Rightarrow> content_digest option" where
  "delivery_journal_digest s w c =
     (case bt_get (reservation_rows s) c of
        None \<Rightarrow> None
      | Some r \<Rightarrow> if reserved_workflow r = w then reserved_journal r else None)"

section \<open>Workflows (workflows.rs)\<close>

definition load_workflow :: "store \<Rightarrow> workflow_id \<Rightarrow> workflow option" where
  "load_workflow s w = bt_get (workflow_rows s) w"

definition apply_workflow_command ::
  "store \<Rightarrow> workflow_id \<Rightarrow> string \<Rightarrow> workflow_command \<Rightarrow>
     (bool \<times> workflow_event list \<times> workflow) store_result" where
  "apply_workflow_command s w key command =
     (if \<not> read_write s then (s, Err StoreReadOnly)
      else case validate_idempotency_key key of Inl e \<Rightarrow> (s, Err e) | Inr _ \<Rightarrow>
      if delivery_reserved s w then (s, Err DeliveryInProgress)
      else case bt_get (dedup_rows s) key of
        Some (aggregate, result) \<Rightarrow>
          (s, if aggregate \<noteq> WorkflowAggregate w then Err IdempotencyConflict
              else case result of
                WorkflowRecorded events state \<Rightarrow> Ok (True, events, state)
              | _ \<Rightarrow> Err SerializationError)
      | None \<Rightarrow>
          let before = (case bt_get (workflow_rows s) w of None \<Rightarrow> workflow_default | Some x \<Rightarrow> x) in
          (case workflow_apply before command of
             (state, Inl e) \<Rightarrow> (s, Err (TransitionFailed e))
           | (state, Inr events) \<Rightarrow>
               (s\<lparr>workflow_rows := bt_insert w state (workflow_rows s),
                  event_rows := event_rows s @ map (WorkflowLogged w) events,
                  dedup_rows := bt_insert key (WorkflowAggregate w, WorkflowRecorded events state)
                    (dedup_rows s)\<rparr>,
                Ok (False, events, state))))"

text \<open>
  The insertion into \<open>command_deduplication\<close> fails when the key has been used.
\<close>

definition deliver_reserved_candidate ::
  "store \<Rightarrow> workflow_id \<Rightarrow> candidate_id \<Rightarrow> content_digest \<Rightarrow> content_digest \<Rightarrow> string \<Rightarrow>
     (bool \<times> workflow_event list \<times> workflow) store_result" where
  "deliver_reserved_candidate s w c digest journal key =
     (if \<not> read_write s then (s, Err StoreReadOnly)
      else case validate_idempotency_key key of Inl e \<Rightarrow> (s, Err e) | Inr _ \<Rightarrow>
      case bt_get (reservation_rows s) c of
        None \<Rightarrow> (s, Err AggregateConflict)
      | Some r \<Rightarrow>
          if reserved_journal r = None then (s, Err SqliteError)
          else if reserved_workflow r \<noteq> w \<or> reserved_digest r \<noteq> digest \<or> reserved_journal r \<noteq> Some journal
            then (s, Err AggregateConflict)
          else case bt_get (workflow_rows s) w of
            None \<Rightarrow> (s, Err SqliteError)
          | Some before \<Rightarrow>
              (case workflow_apply before Deliver of
                 (state, Inl e) \<Rightarrow> (s, Err (TransitionFailed e))
               | (state, Inr events) \<Rightarrow>
                   if bt_get (dedup_rows s) key \<noteq> None then (s, Err SqliteError)
                   else
                     (s\<lparr>workflow_rows := bt_set w state (workflow_rows s),
                        event_rows := event_rows s @ map (WorkflowLogged w) events,
                        dedup_rows := bt_insert key (WorkflowAggregate w, WorkflowRecorded events state)
                          (dedup_rows s),
                        reservation_rows := bt_remove c (reservation_rows s)\<rparr>,
                      Ok (False, events, state))))"

section \<open>Tasks (tasks.rs)\<close>

definition load_task :: "store \<Rightarrow> task_id \<Rightarrow> task option" where
  "load_task s t = map_option snd (bt_get (task_rows s) t)"

definition load_workflow_tasks :: "store \<Rightarrow> workflow_id \<Rightarrow> (task_id \<times> task) list" where
  "load_workflow_tasks s w =
     map (\<lambda>(t, _, x). (t, x)) (filter (\<lambda>(_, owner, _). owner = w) (task_rows s))"

text \<open>A new row of a task references its workflow's row.\<close>

definition apply_task_command ::
  "store \<Rightarrow> workflow_id \<Rightarrow> task_id \<Rightarrow> string \<Rightarrow> task_command \<Rightarrow> (bool \<times> task_event list \<times> task) store_result" where
  "apply_task_command s w t key command =
     (if \<not> read_write s then (s, Err StoreReadOnly)
      else case validate_idempotency_key key of Inl e \<Rightarrow> (s, Err e) | Inr _ \<Rightarrow>
      case bt_get (dedup_rows s) key of
        Some (aggregate, result) \<Rightarrow>
          (s, if aggregate \<noteq> TaskAggregate t then Err IdempotencyConflict
              else case result of
                TaskRecorded events state \<Rightarrow> Ok (True, events, state)
              | _ \<Rightarrow> Err SerializationError)
      | None \<Rightarrow>
          let row = bt_get (task_rows s) t in
          if row \<noteq> None \<and> fst (the row) \<noteq> w then (s, Err AggregateConflict)
          else
            let before = (case row of None \<Rightarrow> task_new | Some (_, x) \<Rightarrow> x) in
            (case task_apply before command of
               (state, Inl e) \<Rightarrow> (s, Err (TransitionFailed e))
             | (state, Inr events) \<Rightarrow>
                 if bt_get (workflow_rows s) w = None then (s, Err SqliteError)
                 else
                   (s\<lparr>task_rows := bt_insert t (w, state) (task_rows s),
                      event_rows := event_rows s @ map (TaskLogged t) events,
                      dedup_rows := bt_insert key (TaskAggregate t, TaskRecorded events state)
                        (dedup_rows s)\<rparr>,
                    Ok (False, events, state))))"

section \<open>Goals (goals.rs)\<close>

text \<open>A goal is read through its deserialiser, which reads its request through that one's.\<close>

definition read_goal :: "goal \<Rightarrow> store_error + goal" where
  "read_goal g =
     and_then (map_err (\<lambda>_. SerializationError) (request_try_from (goal_request g))) (\<lambda>_.
     map_err (\<lambda>_. SerializationError) (goal_try_from g))"

definition save_goal_once :: "store \<Rightarrow> goal_id \<Rightarrow> project_id \<Rightarrow> goal \<Rightarrow> bool store_result" where
  "save_goal_once s g project goal =
     (if \<not> read_write s then (s, Err StoreReadOnly)
      else case bt_get (goal_rows s) g of
        Some row \<Rightarrow> (s, if row = (project, goal) then Ok True else Err AggregateConflict)
      | None \<Rightarrow> (s\<lparr>goal_rows := bt_insert g (project, goal) (goal_rows s)\<rparr>, Ok False))"

definition load_goal :: "store \<Rightarrow> goal_id \<Rightarrow> store_error + (project_id \<times> goal) option" where
  "load_goal s g =
     (case bt_get (goal_rows s) g of
        None \<Rightarrow> Ok None
      | Some (project, goal) \<Rightarrow> and_then (read_goal goal) (\<lambda>goal. Ok (Some (project, goal))))"

definition apply_goal_command ::
  "store \<Rightarrow> goal_id \<Rightarrow> string \<Rightarrow> goal_command \<Rightarrow> (bool \<times> goal_event list \<times> goal) store_result" where
  "apply_goal_command s g key command =
     (if \<not> read_write s then (s, Err StoreReadOnly)
      else case validate_idempotency_key key of Inl e \<Rightarrow> (s, Err e) | Inr _ \<Rightarrow>
      case bt_get (dedup_rows s) key of
        Some (aggregate, result) \<Rightarrow>
          (s, if aggregate \<noteq> GoalAggregate g then Err IdempotencyConflict
              else case result of
                GoalRecorded events state \<Rightarrow> and_then (read_goal state) (\<lambda>state. Ok (True, events, state))
              | _ \<Rightarrow> Err SerializationError)
      | None \<Rightarrow>
          (case bt_get (goal_rows s) g of
             None \<Rightarrow> (s, Err SqliteError)
           | Some (project, stored) \<Rightarrow>
               (case read_goal stored of
                  Inl e \<Rightarrow> (s, Err e)
                | Inr before \<Rightarrow>
                    (case goal_apply before command of
                       (state, Inl e) \<Rightarrow> (s, Err (GoalFailed e))
                     | (state, Inr events) \<Rightarrow>
                         (s\<lparr>goal_rows := bt_set g (project, state) (goal_rows s),
                            event_rows := event_rows s @ map (GoalLogged g) events,
                            dedup_rows := bt_insert key (GoalAggregate g, GoalRecorded events state)
                              (dedup_rows s)\<rparr>,
                          Ok (False, events, state))))))"

definition append_goal_amendment ::
  "store \<Rightarrow> goal_id \<Rightarrow> string \<Rightarrow> string \<Rightarrow> workflow_timestamp \<Rightarrow> goal store_result" where
  "append_goal_amendment s g key amendment received =
     (if \<not> read_write s then (s, Err StoreReadOnly)
      else case validate_idempotency_key key of Inl e \<Rightarrow> (s, Err e) | Inr _ \<Rightarrow>
      case bt_get (dedup_rows s) key of
        Some (aggregate, result) \<Rightarrow>
          (s, if aggregate \<noteq> AmendmentAggregate g then Err IdempotencyConflict
              else case result of AmendmentRecorded goal \<Rightarrow> read_goal goal | _ \<Rightarrow> Err SerializationError)
      | None \<Rightarrow>
          (case bt_get (goal_rows s) g of
             None \<Rightarrow> (s, Err SqliteError)
           | Some (project, stored) \<Rightarrow>
               (case read_goal stored of
                  Inl e \<Rightarrow> (s, Err e)
                | Inr before \<Rightarrow>
                    (case goal_append_amendment before amendment received of
                       (goal, Inl e) \<Rightarrow> (s, Err (GoalFailed e))
                     | (goal, Inr _) \<Rightarrow>
                         if amendments (goal_request goal) = [] then (s, Err AggregateConflict)
                         else
                           (s\<lparr>goal_rows := bt_set g (project, goal) (goal_rows s),
                              event_rows := event_rows s @
                                [AmendmentLogged g (am_sequence (last (amendments (goal_request goal))))],
                              dedup_rows := bt_insert key (AmendmentAggregate g, AmendmentRecorded goal)
                                (dedup_rows s)\<rparr>,
                            Ok goal)))))"

end
