(* ===== verification/Store_Records.thy ===== *)
theory Store_Records
  imports Store_Tables
begin

text \<open>
  What the store keeps beside the aggregates: leases (\<open>leases.rs\<close>), frozen candidates with their
  exact bytes (\<open>candidates.rs\<close>), verification plans and evidence (\<open>verification.rs\<close>).  SHA-256 and the
  JSON serialiser of the payload listing are arguments; a panic is \<open>None\<close>.
\<close>

section \<open>Leases (leases.rs)\<close>

datatype lease_acquisition = LeaseAcquired lease | LeaseOccupied lease | LeaseManualReview lease

text \<open>The second column of a row tells the status \<open>uncertain\<close> from \<open>active\<close>.\<close>

definition acquire_lease ::
  "store \<Rightarrow> lease_id \<Rightarrow> task_id \<Rightarrow> session_id \<Rightarrow> i64 \<Rightarrow> i64 \<Rightarrow> action_safety \<Rightarrow>
     lease_acquisition store_result" where
  "acquire_lease s fresh task owner now duration safety =
     (if \<not> read_write s then (s, Err StoreReadOnly)
      else
        let grant =
          (case lease_acquire fresh task owner now duration safety of
             Inl e \<Rightarrow> (s, Err (LeaseFailed e))
           | Inr l \<Rightarrow>
               if bt_get (task_rows s) task = None
                 \<or> list_ex (\<lambda>(t, l', _). t \<noteq> task \<and> lease_id l' = lease_id l) (lease_rows s)
               then (s, Err SqliteError)
               else (s\<lparr>lease_rows := bt_insert task (l, False) (lease_rows s)\<rparr>, Ok (LeaseAcquired l)))
        in (case bt_get (lease_rows s) task of
              None \<Rightarrow> grant
            | Some (l, uncertain) \<Rightarrow>
                if uncertain \<or> lease_reconcile l now = ManualReviewRequired
                then (s\<lparr>lease_rows := bt_set task (l, True) (lease_rows s)\<rparr>, Ok (LeaseManualReview l))
                else if lease_reconcile l now = Active then (s, Ok (LeaseOccupied l))
                else grant))"

definition heartbeat_lease :: "store \<Rightarrow> lease_id \<Rightarrow> i64 \<Rightarrow> i64 \<Rightarrow> lease store_result" where
  "heartbeat_lease s i now duration =
     (if \<not> read_write s then (s, Err StoreReadOnly)
      else case find (\<lambda>(_, l, uncertain). lease_id l = i \<and> \<not> uncertain) (lease_rows s) of
        None \<Rightarrow> (s, Err LeaseNotFound)
      | Some (t, l, _) \<Rightarrow>
          (case lease_heartbeat l now duration of
             (_, Inl e) \<Rightarrow> (s, Err (LeaseFailed e))
           | (l, Inr _) \<Rightarrow> (s\<lparr>lease_rows := bt_set t (l, False) (lease_rows s)\<rparr>, Ok l)))"

definition release_lease :: "store \<Rightarrow> lease_id \<Rightarrow> bool store_result" where
  "release_lease s i =
     (if \<not> read_write s then (s, Err StoreReadOnly)
      else (s\<lparr>lease_rows := filter (\<lambda>(_, l, _). lease_id l \<noteq> i) (lease_rows s)\<rparr>,
            Ok (length (filter (\<lambda>(_, l, _). lease_id l = i) (lease_rows s)) = 1)))"

section \<open>Candidates (candidates.rs)\<close>

definition max_candidate_payload_bytes :: nat where
  "max_candidate_payload_bytes = 128 * 1024 * 1024"

definition payload_bytes :: "file_payload list \<Rightarrow> nat" where
  "payload_bytes ps = sum_list (map (\<lambda>p. length (payload_content p)) ps)"

text \<open>The listing that the delivery payload digest covers: path, digest in hex and executable bit.\<close>

definition payload_listing ::
  "(byte list \<Rightarrow> content_digest) \<Rightarrow> file_payload list \<Rightarrow> (string \<times> string \<times> bool) list" where
  "payload_listing sha ps =
     map (\<lambda>p. (payload_path p, digest_to_string (sha (payload_content p)), payload_executable p)) ps"

definition expected_files :: "candidate_file list \<Rightarrow> (string, content_digest \<times> bool) btree_map" where
  "expected_files fs =
     fold (\<lambda>f. bt_insert (file_path f) (the (file_digest f), executable f))
       (filter (\<lambda>f. file_kind f \<noteq> Deleted) fs) []"

definition observe_file ::
  "(byte list \<Rightarrow> content_digest) \<Rightarrow> (string, content_digest \<times> bool) btree_map \<Rightarrow> file_payload \<Rightarrow>
     store_error + (string, content_digest \<times> bool) btree_map" where
  "observe_file sha m p =
     (if bt_get m (payload_path p) \<noteq> None then Err InvalidCandidatePayload
      else Ok (bt_insert (payload_path p) (sha (payload_content p), payload_executable p) m))"

text \<open>
  A sum past the range of \<open>usize\<close> is past the limit as well.  Files of one path may be sorted either
  way; they are refused further down.  A manifest file without a digest panics unless it is deleted.
\<close>

definition validated_payload ::
  "(byte list \<Rightarrow> content_digest) \<Rightarrow> ((string \<times> string \<times> bool) list \<Rightarrow> byte list) \<Rightarrow> candidate_manifest \<Rightarrow>
     nat \<Rightarrow> file_payload list \<Rightarrow> (store_error + file_payload list) option" where
  "validated_payload sha json m diff_bytes ps =
     (if diff_bytes + payload_bytes ps > max_candidate_payload_bytes then Some (Err InvalidCandidatePayload)
      else
        let normalized = sort_key payload_path ps in
        if delivery_payload_digest m \<noteq> Some (sha (json (payload_listing sha normalized)))
        then Some (Err InvalidCandidatePayload)
        else if list_ex (\<lambda>f. file_kind f \<noteq> Deleted \<and> file_digest f = None) (files m) then None
        else
          Some (and_then (try_fold (observe_file sha) [] ps) (\<lambda>observed.
            if observed \<noteq> expected_files (files m) then Err InvalidCandidatePayload else Ok normalized)))"

definition save_candidate_once ::
  "(byte list \<Rightarrow> content_digest) \<Rightarrow> ((string \<times> string \<times> bool) list \<Rightarrow> byte list) \<Rightarrow> store \<Rightarrow> workflow_id \<Rightarrow>
     candidate_manifest \<Rightarrow> byte list \<Rightarrow> file_payload list \<Rightarrow> bool store_result option" where
  "save_candidate_once sha json s w m diff ps =
     (if \<not> read_write s then Some (s, Err StoreReadOnly)
      else if sha diff \<noteq> diff_digest m then Some (s, Err InvalidCandidatePayload)
      else case validated_payload sha json m (length diff) ps of
        None \<Rightarrow> None
      | Some (Inl e) \<Rightarrow> Some (s, Err e)
      | Some (Inr exact) \<Rightarrow>
          Some (case bt_get (candidate_rows s) (manifest_id m) of
            Some row \<Rightarrow>
              (s, if \<not> candidate_complete row then Err MissingCandidatePayload
                  else if payload_bytes (candidate_files row) > max_candidate_payload_bytes
                    then Err InvalidCandidatePayload
                  else if candidate_owner row \<noteq> w \<or> candidate_manifest_json row \<noteq> m
                    \<or> candidate_diff row \<noteq> diff \<or> candidate_files row \<noteq> exact
                    then Err AggregateConflict
                  else Ok True)
          | None \<Rightarrow>
              if bt_get (workflow_rows s) w = None then (s, Err SqliteError)
              else (s\<lparr>candidate_rows := bt_insert (manifest_id m)
                        \<lparr>candidate_owner = w, candidate_manifest_json = m, candidate_diff = diff,
                         candidate_complete = True, candidate_files = exact\<rparr> (candidate_rows s)\<rparr>,
                    Ok False)))"

record stored_candidate =
  stored_diff :: "byte list"
  stored_files :: "file_payload list option"
  stored_manifest :: candidate_manifest
  stored_workflow :: workflow_id

definition load_candidate ::
  "(byte list \<Rightarrow> content_digest) \<Rightarrow> ((string \<times> string \<times> bool) list \<Rightarrow> byte list) \<Rightarrow> store \<Rightarrow> candidate_id \<Rightarrow>
     (store_error + stored_candidate option) option" where
  "load_candidate sha json s c =
     (case bt_get (candidate_rows s) c of
        None \<Rightarrow> Some (Ok None)
      | Some row \<Rightarrow>
          if length (candidate_diff row) + payload_bytes (candidate_files row) > max_candidate_payload_bytes
          then Some (Err InvalidCandidatePayload)
          else case manifest_try_from (candidate_manifest_json row) of
            Inl _ \<Rightarrow> Some (Err SerializationError)
          | Inr m \<Rightarrow>
              if sha (candidate_diff row) \<noteq> diff_digest m then Some (Err InvalidCandidatePayload)
              else
                let found = (\<lambda>exact. Ok (Some \<lparr>stored_diff = candidate_diff row, stored_files = exact,
                      stored_manifest = m, stored_workflow = candidate_owner row\<rparr>)) in
                if \<not> candidate_complete row then Some (found None)
                else map_option (\<lambda>r. and_then r (\<lambda>exact. found (Some exact)))
                       (validated_payload sha json m (length (candidate_diff row)) (candidate_files row)))"

definition require_exact_files :: "stored_candidate \<Rightarrow> store_error + file_payload list" where
  "require_exact_files c = ok_or (stored_files c) MissingCandidatePayload"

section \<open>Verification plans and evidence (verification.rs)\<close>

definition save_verification_plan_once ::
  "store \<Rightarrow> verification_plan_id \<Rightarrow> workflow_id \<Rightarrow> string \<Rightarrow> bool store_result" where
  "save_verification_plan_once s plan w json =
     (if \<not> read_write s then (s, Err StoreReadOnly)
      else case bt_get (plan_rows s) plan of
        Some row \<Rightarrow> (s, if row \<noteq> (w, json) then Err AggregateConflict else Ok True)
      | None \<Rightarrow>
          if bt_get (workflow_rows s) w = None then (s, Err SqliteError)
          else (s\<lparr>plan_rows := bt_insert plan (w, json) (plan_rows s)\<rparr>, Ok False))"

text \<open>The latest attempt, or the first record when there was no other.\<close>

definition latest_evidence :: "evidence_row \<Rightarrow> evidence_record \<times> string" where
  "latest_evidence r =
     (if row_attempts r = [] then (row_record r, row_output r) else last (row_attempts r))"

definition save_evidence_once ::
  "(byte list \<Rightarrow> content_digest) \<Rightarrow> store \<Rightarrow> verification_plan_id \<Rightarrow> workflow_id \<Rightarrow> candidate_id \<Rightarrow>
     evidence_record \<Rightarrow> string \<Rightarrow> bool \<Rightarrow> bool store_result" where
  "save_evidence_once sha s plan w c ev output mandatory =
     (if \<not> read_write s then (s, Err StoreReadOnly)
      else case evidence_validate ev of Inl e \<Rightarrow> (s, Err (EvidenceFailed e)) | Inr _ \<Rightarrow>
      if length output > 2 * 1024 * 1024 then (s, Err AggregateConflict)
      else case bt_get (plan_rows s) plan of None \<Rightarrow> (s, Err SqliteError) | Some (plan_owner, _) \<Rightarrow>
      case bt_get (candidate_rows s) c of None \<Rightarrow> (s, Err SqliteError) | Some candidate \<Rightarrow>
      if plan_owner \<noteq> w \<or> candidate_owner candidate \<noteq> w
        \<or> candidate_digest sha (candidate_manifest_json candidate) \<noteq> evidence_candidate ev
      then (s, Err AggregateConflict)
      else case bt_get (evidence_rows s) (evidence_record_id ev) of
        Some row \<Rightarrow>
          if row_plan row \<noteq> plan \<or> row_workflow row \<noteq> w \<or> row_candidate row \<noteq> c
            \<or> row_mandatory row \<noteq> mandatory
          then (s, Err AggregateConflict)
          else if latest_evidence row = (ev, output) then (s, Ok True)
          else (s\<lparr>evidence_rows := bt_set (evidence_record_id ev)
                    (row\<lparr>row_attempts := row_attempts row @ [(ev, output)]\<rparr>) (evidence_rows s)\<rparr>,
                Ok False)
      | None \<Rightarrow>
          (s\<lparr>evidence_rows := bt_insert (evidence_record_id ev)
               \<lparr>row_plan = plan, row_workflow = w, row_candidate = c, row_mandatory = mandatory,
                row_record = ev, row_output = output, row_attempts = []\<rparr> (evidence_rows s)\<rparr>,
           Ok False))"

definition load_candidate_evidence ::
  "store \<Rightarrow> candidate_id \<Rightarrow> (evidence_record \<times> string \<times> bool) list" where
  "load_candidate_evidence s c =
     map (\<lambda>(_, r). (fst (latest_evidence r), snd (latest_evidence r), row_mandatory r))
       (filter (\<lambda>(_, r). row_candidate r = c) (evidence_rows s))"

definition evidence_exists :: "store \<Rightarrow> evidence_id \<Rightarrow> bool" where
  "evidence_exists s e \<longleftrightarrow> bt_get (evidence_rows s) e \<noteq> None"

end
