(* ===== verification/Store.thy ===== *)
theory Store
  imports Store_Commands Store_Records
begin

text \<open>
  Runs of store operations, in any order and with any arguments, from an empty store: and what the
  operations keep of the tables.
\<close>

section \<open>Runs\<close>

datatype store_call =
    Reserve workflow_id candidate_id content_digest
  | ReleaseReservation workflow_id candidate_id content_digest
  | BindJournal workflow_id candidate_id content_digest "content_digest option" content_digest
  | WorkflowStep workflow_id string workflow_command
  | DeliverStep workflow_id candidate_id content_digest content_digest string
  | TaskStep workflow_id task_id string task_command
  | SaveGoal goal_id project_id goal
  | GoalStep goal_id string goal_command
  | AmendStep goal_id string string workflow_timestamp
  | AcquireLease lease_id task_id session_id i64 i64 action_safety
  | HeartbeatLease lease_id i64 i64
  | ReleaseLease lease_id
  | SaveCandidate workflow_id candidate_manifest "byte list" "file_payload list"
  | SavePlan verification_plan_id workflow_id string
  | SaveEvidence verification_plan_id workflow_id candidate_id evidence_record string bool

text \<open>A panic leaves the store as it was: the transaction is dropped.\<close>

fun store_step ::
  "(byte list \<Rightarrow> content_digest) \<Rightarrow> ((string \<times> string \<times> bool) list \<Rightarrow> byte list) \<Rightarrow> store \<Rightarrow> store_call \<Rightarrow> store" where
  "store_step sha json s (Reserve w c d) = fst (reserve_candidate_delivery s w c d)"
| "store_step sha json s (ReleaseReservation w c d) = fst (release_candidate_delivery s w c d)"
| "store_step sha json s (BindJournal w c d e j) = fst (bind_delivery_journal s w c d e j)"
| "store_step sha json s (WorkflowStep w key c) = fst (apply_workflow_command s w key c)"
| "store_step sha json s (DeliverStep w c d j key) = fst (deliver_reserved_candidate s w c d j key)"
| "store_step sha json s (TaskStep w t key c) = fst (apply_task_command s w t key c)"
| "store_step sha json s (SaveGoal g p goal) = fst (save_goal_once s g p goal)"
| "store_step sha json s (GoalStep g key c) = fst (apply_goal_command s g key c)"
| "store_step sha json s (AmendStep g key t n) = fst (append_goal_amendment s g key t n)"
| "store_step sha json s (AcquireLease i t owner n d a) = fst (acquire_lease s i t owner n d a)"
| "store_step sha json s (HeartbeatLease i n d) = fst (heartbeat_lease s i n d)"
| "store_step sha json s (ReleaseLease i) = fst (release_lease s i)"
| "store_step sha json s (SaveCandidate w m diff ps) =
     (case save_candidate_once sha json s w m diff ps of None \<Rightarrow> s | Some r \<Rightarrow> fst r)"
| "store_step sha json s (SavePlan p w j) = fst (save_verification_plan_once s p w j)"
| "store_step sha json s (SaveEvidence p w c e out m) = fst (save_evidence_once sha s p w c e out m)"

definition run_store ::
  "(byte list \<Rightarrow> content_digest) \<Rightarrow> ((string \<times> string \<times> bool) list \<Rightarrow> byte list) \<Rightarrow> store \<Rightarrow> store_call list \<Rightarrow> store" where
  "run_store sha json s xs = foldl (store_step sha json) s xs"

lemmas store_operation_defs =
  reserve_candidate_delivery_def release_candidate_delivery_def bind_delivery_journal_def
  apply_workflow_command_def deliver_reserved_candidate_def apply_task_command_def
  save_goal_once_def apply_goal_command_def append_goal_amendment_def acquire_lease_def
  heartbeat_lease_def release_lease_def save_candidate_once_def save_verification_plan_once_def
  save_evidence_once_def

section \<open>What the operations leave alone\<close>

definition workflow_log :: "store \<Rightarrow> workflow_id \<Rightarrow> workflow_event list" where
  "workflow_log s w = List.map_filter (\<lambda>e. case e of
     WorkflowLogged v x \<Rightarrow> if v = w then Some x else None | _ \<Rightarrow> None) (event_rows s)"

text \<open>The part of the store that workflow commands work on.\<close>

definition workflow_part ::
  "store \<Rightarrow> bool \<times> (workflow_id, workflow) btree_map \<times> (workflow_id \<Rightarrow> workflow_event list)" where
  "workflow_part s = (read_write s, workflow_rows s, workflow_log s)"

fun on_workflows :: "store_call \<Rightarrow> bool" where
  "on_workflows (WorkflowStep w key c) \<longleftrightarrow> True"
| "on_workflows (DeliverStep w c d j key) \<longleftrightarrow> True"
| "on_workflows _ \<longleftrightarrow> False"

lemma map_filter_append: "List.map_filter f (xs @ ys) = List.map_filter f xs @ List.map_filter f ys"
  by (simp add: List.map_filter_def)

lemma map_filter_none: "(\<And>x. x \<in> set xs \<Longrightarrow> f x = None) \<Longrightarrow> List.map_filter f xs = []"
  by (simp add: List.map_filter_def filter_empty_conv)

lemma workflow_log_append:
  "workflow_log (s\<lparr>event_rows := event_rows s @ es\<rparr>) w = workflow_log s w @ List.map_filter (\<lambda>e. case e of
     WorkflowLogged v x \<Rightarrow> if v = w then Some x else None | _ \<Rightarrow> None) es"
  by (simp add: workflow_log_def map_filter_append)

lemma workflow_log_other:
  "workflow_log (s\<lparr>event_rows := event_rows s @ map (TaskLogged t) ts\<rparr>) = workflow_log s"
  "workflow_log (s\<lparr>event_rows := event_rows s @ map (GoalLogged g) gs\<rparr>) = workflow_log s"
  "workflow_log (s\<lparr>event_rows := event_rows s @ [AmendmentLogged g n]\<rparr>) = workflow_log s"
  by (rule ext, auto simp: workflow_log_append intro!: map_filter_none)+

lemma workflow_part_cong:
  "read_write s' = read_write s \<Longrightarrow> workflow_rows s' = workflow_rows s \<Longrightarrow> event_rows s' = event_rows s \<Longrightarrow>
   workflow_part s' = workflow_part s"
  by (simp add: workflow_part_def workflow_log_def fun_eq_iff)

lemma workflow_part_events:
  assumes "read_write s' = read_write s" "workflow_rows s' = workflow_rows s"
    "event_rows s' = event_rows s @ es" "\<And>e. e \<in> set es \<Longrightarrow> \<forall>v x. e \<noteq> WorkflowLogged v x"
  shows "workflow_part s' = workflow_part s"
proof -
  have "List.map_filter (\<lambda>e. case e of WorkflowLogged v x \<Rightarrow> if v = w then Some x else None | _ \<Rightarrow> None) es = []" for w
    using assms(4) by (intro map_filter_none) (auto split: logged_event.splits)
  with assms show ?thesis by (simp add: workflow_part_def workflow_log_def map_filter_append fun_eq_iff)
qed

lemma other_steps_part: "\<not> on_workflows x \<Longrightarrow> workflow_part (store_step sha json s x) = workflow_part s"
proof (cases x)
  case (TaskStep w t key c)
  have "\<exists>es. event_rows (fst (apply_task_command s w t key c)) = event_rows s @ map (TaskLogged t) es
      \<and> read_write (fst (apply_task_command s w t key c)) = read_write s
      \<and> workflow_rows (fst (apply_task_command s w t key c)) = workflow_rows s"
    by (auto simp: apply_task_command_def Let_def split: sum.splits option.splits prod.splits
        intro: exI [of _ "[]"])
  then show ?thesis using TaskStep by (auto intro: workflow_part_events)
next
  case (GoalStep g key c)
  have "\<exists>es. event_rows (fst (apply_goal_command s g key c)) = event_rows s @ map (GoalLogged g) es
      \<and> read_write (fst (apply_goal_command s g key c)) = read_write s
      \<and> workflow_rows (fst (apply_goal_command s g key c)) = workflow_rows s"
    by (auto simp: apply_goal_command_def Let_def split: sum.splits option.splits prod.splits
        intro: exI [of _ "[]"])
  then show ?thesis using GoalStep by (auto intro: workflow_part_events)
next
  case (AmendStep g key t n)
  have "\<exists>es. event_rows (fst (append_goal_amendment s g key t n)) = event_rows s @ map (AmendmentLogged g) es
      \<and> read_write (fst (append_goal_amendment s g key t n)) = read_write s
      \<and> workflow_rows (fst (append_goal_amendment s g key t n)) = workflow_rows s"
    by (auto simp: append_goal_amendment_def Let_def split: sum.splits option.splits prod.splits
        intro: exI [of _ "[]"] exI [of _ "[_]"])
  then show ?thesis using AmendStep by (auto intro: workflow_part_events)
qed (auto simp: store_operation_defs Let_def intro!: workflow_part_cong
      split: sum.splits option.splits prod.splits if_splits)

section \<open>Stored workflows are runs\<close>

definition is_run :: "workflow_command list \<Rightarrow> workflow \<Rightarrow> workflow_event list \<Rightarrow> bool" where
  "is_run cs st log \<longleftrightarrow> run_accepted workflow_apply workflow_default cs = cs
     \<and> st = run_state workflow_apply workflow_default cs
     \<and> log = run_events workflow_apply workflow_default cs"

text \<open>The workflow commands of a run that the store carried out, in order: those it answered as new.\<close>

fun carried_out :: "store \<Rightarrow> store_call \<Rightarrow> workflow_id \<Rightarrow> workflow_command list" where
  "carried_out s (WorkflowStep v key c) w =
     (case snd (apply_workflow_command s v key c) of
        Inr (False, _) \<Rightarrow> if v = w then [c] else []
      | _ \<Rightarrow> [])"
| "carried_out s (DeliverStep v c d j key) w =
     (case snd (deliver_reserved_candidate s v c d j key) of
        Inr (False, _) \<Rightarrow> if v = w then [Deliver] else []
      | _ \<Rightarrow> [])"
| "carried_out s _ w = []"

fun carried_out_run ::
  "(byte list \<Rightarrow> content_digest) \<Rightarrow> ((string \<times> string \<times> bool) list \<Rightarrow> byte list) \<Rightarrow> store \<Rightarrow>
     store_call list \<Rightarrow> workflow_id \<Rightarrow> workflow_command list" where
  "carried_out_run sha json s [] w = []"
| "carried_out_run sha json s (x # xs) w =
     carried_out s x w @ carried_out_run sha json (store_step sha json s x) xs w"

definition row_or_default :: "store \<Rightarrow> workflow_id \<Rightarrow> workflow" where
  "row_or_default s w = (case bt_get (workflow_rows s) w of None \<Rightarrow> workflow_default | Some st \<Rightarrow> st)"

definition stored_runs :: "(workflow_id \<Rightarrow> workflow_command list) \<Rightarrow> store \<Rightarrow> bool" where
  "stored_runs C s \<longleftrightarrow> bt_wf (workflow_rows s)
     \<and> (\<forall>w. is_run (C w) (row_or_default s w) (workflow_log s w))"

lemma is_run_step:
  "is_run cs st log \<Longrightarrow> workflow_apply st c = (st', Inr events) \<Longrightarrow> is_run (cs @ [c]) st' (log @ events)"
  by (auto simp: is_run_def run_state_append run_events_append run_accepted_append)

lemma map_filter_logged:
  "List.map_filter (\<lambda>e. case e of WorkflowLogged v x \<Rightarrow> if v = w then Some x else None | _ \<Rightarrow> None)
     (map (WorkflowLogged v) events) = (if v = w then events else [])"
  by (induction events) (auto simp: List.map_filter_def)

lemma stored_runs_update:
  assumes runs: "stored_runs C s"
    and step: "workflow_apply (row_or_default s w) c = (st, Inr events)"
    and rows: "bt_wf (workflow_rows s')" "bt_get (workflow_rows s') = (bt_get (workflow_rows s))(w \<mapsto> st)"
    and events: "event_rows s' = event_rows s @ map (WorkflowLogged w) events"
  shows "stored_runs (\<lambda>v. C v @ (if w = v then [c] else [])) s'"
  unfolding stored_runs_def
proof (intro conjI allI)
  show "bt_wf (workflow_rows s')" by (rule rows)
  fix v
  from runs have run: "is_run (C v) (row_or_default s v) (workflow_log s v)"
    unfolding stored_runs_def by blast
  have log: "workflow_log s' v = workflow_log s v @ (if w = v then events else [])"
    by (simp add: workflow_log_def events map_filter_append map_filter_logged)
  have row: "row_or_default s' v = (if w = v then st else row_or_default s v)"
    by (simp add: row_or_default_def rows(2))
  show "is_run (C v @ (if w = v then [c] else [])) (row_or_default s' v) (workflow_log s' v)"
    using run is_run_step [OF run, of c st events] step by (cases "w = v") (simp_all add: log row)
qed

lemma apply_workflow_outcome:
  "(fst (apply_workflow_command s w key c) = s \<and> carried_out s (WorkflowStep w key c) = (\<lambda>v. []))
   \<or> (\<exists>st events. read_write s \<and> bt_get (dedup_rows s) key = None \<and> \<not> delivery_reserved s w
      \<and> workflow_apply (row_or_default s w) c = (st, Inr events)
      \<and> apply_workflow_command s w key c =
        (s\<lparr>workflow_rows := bt_insert w st (workflow_rows s),
           event_rows := event_rows s @ map (WorkflowLogged w) events,
           dedup_rows := bt_insert key (WorkflowAggregate w, WorkflowRecorded events st) (dedup_rows s)\<rparr>,
         Ok (False, events, st)))"
proof -
  have "fst (apply_workflow_command s w key c) = s
      \<and> (\<forall>r. snd (apply_workflow_command s w key c) \<noteq> Inr (False, r))
    \<or> (\<exists>st events. read_write s \<and> bt_get (dedup_rows s) key = None \<and> \<not> delivery_reserved s w
      \<and> workflow_apply (row_or_default s w) c = (st, Inr events)
      \<and> apply_workflow_command s w key c =
        (s\<lparr>workflow_rows := bt_insert w st (workflow_rows s),
           event_rows := event_rows s @ map (WorkflowLogged w) events,
           dedup_rows := bt_insert key (WorkflowAggregate w, WorkflowRecorded events st) (dedup_rows s)\<rparr>,
         Ok (False, events, st)))"
    by (simp add: apply_workflow_command_def row_or_default_def Let_def
        split: sum.split option.split prod.split recorded_result.split)
  then show ?thesis
    by (elim disjE) (auto simp: fun_eq_iff split: sum.split bool.split)
qed

lemmas apply_workflow_cases = apply_workflow_outcome [THEN disjE, case_names same applied]

lemma deliver_outcome:
  "(fst (deliver_reserved_candidate s w c d j key) = s
      \<and> carried_out s (DeliverStep w c d j key) = (\<lambda>v. []))
   \<or> (\<exists>r st events. read_write s \<and> bt_get (dedup_rows s) key = None
      \<and> bt_get (reservation_rows s) c = Some r \<and> reserved_workflow r = w
      \<and> bt_get (workflow_rows s) w = Some (row_or_default s w)
      \<and> workflow_apply (row_or_default s w) Deliver = (st, Inr events)
      \<and> deliver_reserved_candidate s w c d j key =
        (s\<lparr>workflow_rows := bt_set w st (workflow_rows s),
           event_rows := event_rows s @ map (WorkflowLogged w) events,
           dedup_rows := bt_insert key (WorkflowAggregate w, WorkflowRecorded events st) (dedup_rows s),
           reservation_rows := bt_remove c (reservation_rows s)\<rparr>,
         Ok (False, events, st)))"
  by (auto simp: deliver_reserved_candidate_def row_or_default_def simp del: workflow_apply.simps
      split: sum.splits option.splits prod.splits if_splits)

lemmas deliver_cases = deliver_outcome [THEN disjE, case_names same applied]

lemma stored_runs_part: "workflow_part s' = workflow_part s \<Longrightarrow> stored_runs C s \<Longrightarrow> stored_runs C s'"
  by (simp add: stored_runs_def workflow_part_def row_or_default_def)

lemma on_workflows_cases:
  "on_workflows x \<longleftrightarrow> (\<exists>w key c. x = WorkflowStep w key c) \<or> (\<exists>w c d j key. x = DeliverStep w c d j key)"
  by (cases x) auto

lemma stored_runs_workflow:
  assumes "stored_runs C s"
  shows "stored_runs (\<lambda>v. C v @ carried_out s (WorkflowStep w key c) v)
    (fst (apply_workflow_command s w key c))"
proof (cases rule: apply_workflow_cases [of s w key c])
  case same
  with assms show ?thesis by simp
next
  case applied
  then obtain st events where step: "workflow_apply (row_or_default s w) c = (st, Inr events)"
    and result: "apply_workflow_command s w key c =
      (s\<lparr>workflow_rows := bt_insert w st (workflow_rows s),
         event_rows := event_rows s @ map (WorkflowLogged w) events,
         dedup_rows := bt_insert key (WorkflowAggregate w, WorkflowRecorded events st) (dedup_rows s)\<rparr>,
       Ok (False, events, st))" by blast
  have "bt_wf (workflow_rows s)" using assms by (simp add: stored_runs_def)
  then show ?thesis unfolding carried_out.simps result
    using stored_runs_update [OF assms step, of "fst (apply_workflow_command s w key c)"]
    by (simp add: result bt_wf_insert bt_get_insert)
qed

lemma stored_runs_deliver:
  assumes "stored_runs C s"
  shows "stored_runs (\<lambda>v. C v @ carried_out s (DeliverStep w c d j key) v)
    (fst (deliver_reserved_candidate s w c d j key))"
proof (cases rule: deliver_cases [of s w c d j key])
  case same
  with assms show ?thesis by simp
next
  case applied
  then obtain st events where row: "bt_get (workflow_rows s) w = Some (row_or_default s w)"
    and step: "workflow_apply (row_or_default s w) Deliver = (st, Inr events)"
    and result: "deliver_reserved_candidate s w c d j key =
      (s\<lparr>workflow_rows := bt_set w st (workflow_rows s),
         event_rows := event_rows s @ map (WorkflowLogged w) events,
         dedup_rows := bt_insert key (WorkflowAggregate w, WorkflowRecorded events st) (dedup_rows s),
         reservation_rows := bt_remove c (reservation_rows s)\<rparr>,
       Ok (False, events, st))" by blast
  have "bt_wf (workflow_rows s)" using assms by (simp add: stored_runs_def)
  then show ?thesis unfolding carried_out.simps result
    using stored_runs_update [OF assms step, of "fst (deliver_reserved_candidate s w c d j key)"]
    by (simp add: result bt_get_set [OF row])
qed

lemma stored_runs_step:
  "stored_runs C s \<Longrightarrow> stored_runs (\<lambda>v. C v @ carried_out s x v) (store_step sha json s x)"
proof (cases "on_workflows x")
  case True
  assume "stored_runs C s"
  with True stored_runs_workflow stored_runs_deliver show ?thesis
    by (auto simp: on_workflows_cases simp del: carried_out.simps)
next
  case False
  assume runs: "stored_runs C s"
  from False have "carried_out s x v = []" for v by (cases x) auto
  then show ?thesis using stored_runs_part [OF other_steps_part [OF False] runs] by simp
qed

lemma stored_runs_empty: "stored_runs (\<lambda>w. []) empty_store"
  by (simp add: stored_runs_def empty_store_def is_run_def workflow_log_def row_or_default_def
      List.map_filter_def)

lemma stored_runs_run:
  "stored_runs C s \<Longrightarrow> stored_runs (\<lambda>v. C v @ carried_out_run sha json s xs v) (run_store sha json s xs)"
proof (induction xs arbitrary: s C)
  case (Cons x xs)
  from Cons.IH [OF stored_runs_step [OF Cons.prems, of x]] show ?case
    by (simp add: run_store_def)
qed (simp add: run_store_def)

end
