(* ===== verification/Store_Guarantees.thy ===== *)
theory Store_Guarantees
  imports Store
begin

text \<open>
  What callers of the store rely on: an idempotency key is used for one command, a reserved workflow
  stands still, an unexpired lease keeps others out, a saved candidate is read back exactly.
\<close>

section \<open>Rows that stay\<close>

text \<open>A table that steps only ever add rows to: what it holds, it holds from then on.\<close>

locale append_only =
  fixes step :: "'s \<Rightarrow> 'x \<Rightarrow> 's"
    and table :: "'s \<Rightarrow> ('k::linorder, 'v) btree_map"
  assumes step_grows: "table (step s x) = table s
    \<or> (\<exists>k v. bt_get (table s) k = None \<and> table (step s x) = bt_insert k v (table s))"
begin

lemma step_wf: "bt_wf (table s) \<Longrightarrow> bt_wf (table (step s x))"
  using step_grows [of s x] by (auto simp: bt_wf_insert)

lemma step_kept: "bt_wf (table s) \<Longrightarrow> bt_get (table s) k = Some v \<Longrightarrow> bt_get (table (step s x)) k = Some v"
  using step_grows [of s x] by (auto simp: bt_get_insert)

lemma run_wf: "bt_wf (table s) \<Longrightarrow> bt_wf (table (foldl step s xs))"
  by (induction xs arbitrary: s) (simp_all add: step_wf)

lemma run_kept:
  "bt_wf (table s) \<Longrightarrow> bt_get (table s) k = Some v \<Longrightarrow> bt_get (table (foldl step s xs)) k = Some v"
  by (induction xs arbitrary: s) (simp_all add: step_wf step_kept)

end

interpretation dedup: append_only "store_step sha json" dedup_rows for sha json
proof
  fix s x
  show "dedup_rows (store_step sha json s x) = dedup_rows s
    \<or> (\<exists>k v. bt_get (dedup_rows s) k = None
         \<and> dedup_rows (store_step sha json s x) = bt_insert k v (dedup_rows s))"
    by (cases x) (auto simp: store_operation_defs Let_def
        simp del: workflow_apply.simps split_paired_Ex split_paired_All
        split: sum.splits option.splits prod.splits if_splits)
qed

interpretation candidates: append_only "store_step sha json" candidate_rows for sha json
proof
  fix s x
  show "candidate_rows (store_step sha json s x) = candidate_rows s
    \<or> (\<exists>k v. bt_get (candidate_rows s) k = None
         \<and> candidate_rows (store_step sha json s x) = bt_insert k v (candidate_rows s))"
    by (cases x) (auto simp: store_operation_defs Let_def
        simp del: workflow_apply.simps split_paired_Ex split_paired_All
        split: sum.splits option.splits prod.splits if_splits)
qed

lemma mode_step: "read_write (store_step sha json s x) = read_write s"
  by (cases x) (auto simp: store_operation_defs Let_def simp del: workflow_apply.simps
      split: sum.splits option.splits prod.splits if_splits)

lemma mode_run: "read_write (run_store sha json s xs) = read_write s"
  unfolding run_store_def by (induction xs arbitrary: s) (simp_all add: mode_step)

section \<open>A small history\<close>

text \<open>A store in which a workflow and one of its tasks exist, and a candidate with a single file.\<close>

definition sample_calls :: "store_call list" where
  "sample_calls = [WorkflowStep (Id 1) ''a'' CompleteIntake, WorkflowStep (Id 1) ''b'' (Route Quick),
     TaskStep (Id 1) (Id 2) ''c'' DependenciesSatisfied, WorkflowStep (Id 1) ''a'' Deliver,
     WorkflowStep (Id 1) ''d'' Deliver]"

definition sample_store :: store where
  "sample_store = run_store (\<lambda>_. 0) (\<lambda>_. []) empty_store sample_calls"

definition sample_file :: file_payload where
  "sample_file = \<lparr>payload_path = ''a'', payload_content = [7], payload_executable = True\<rparr>"

definition sample_frozen :: candidate_manifest where
  "sample_frozen = \<lparr>manifest_id = Id 7, base_revision = None,
     files = [\<lparr>executable = True, file_path = ''a'', file_digest = Some 0, file_kind = Added\<rparr>],
     diff_digest = 0, dependency_state_digest = 0, configuration_digest = 0, environment_digest = 0,
     delivery_payload_digest = Some 0, manifest_evidence = []\<rparr>"

lemma sample_store_parts:
  "read_write sample_store" "candidate_rows sample_store = []" "reservation_rows sample_store = []"
  "lease_rows sample_store = []" "bt_get (workflow_rows sample_store) (Id 1) \<noteq> None"
  "bt_get (task_rows sample_store) (Id 2) \<noteq> None"
  by code_simp+

lemma sample_save:
  "save_candidate_once (\<lambda>_. 0) (\<lambda>_. []) sample_store (Id 1) sample_frozen [] [sample_file] =
     Some (sample_store\<lparr>candidate_rows := [(Id 7, \<lparr>candidate_owner = Id 1,
       candidate_manifest_json = sample_frozen, candidate_diff = [], candidate_complete = True,
       candidate_files = [sample_file]\<rparr>)]\<rparr>, Ok False)"
  using sample_store_parts
  by (simp add: save_candidate_once_def validated_payload_def expected_files_def observe_file_def
      sample_frozen_def sample_file_def payload_bytes_def max_candidate_payload_bytes_def sort_key_def
      payload_listing_def)

lemma sample_frozen_valid: "manifest_try_from sample_frozen = Ok sample_frozen"
  by (simp add: manifest_try_from_def manifest_new_Ok_iff sample_frozen_def
      with_delivery_payload_digest_def sort_key_def)

definition sample_saved :: store where
  "sample_saved = fst (the (save_candidate_once (\<lambda>_. 0) (\<lambda>_. []) sample_store (Id 1) sample_frozen []
     [sample_file]))"

lemma sample_saved_save:
  "save_candidate_once (\<lambda>_. 0) (\<lambda>_. []) (run_store (\<lambda>_. 0) (\<lambda>_. []) empty_store sample_calls) (Id 1)
     sample_frozen [] [sample_file] = Some (sample_saved, Ok False)"
  using sample_save unfolding sample_saved_def sample_store_def by simp

section \<open>Stored workflows\<close>

text \<open>
  C22. Whatever calls the store has served, in whatever order, a stored workflow is exactly the state
  machine run over the commands on it that the store answered as new, all of them accepted, and its
  logged events are the events of that run; in particular no stored workflow awaits or has finished
  its delivery unless an approval with the mandatory gates passed and the verification of its
  candidate were carried out.
\<close>

theorem stored_workflows_are_runs:
  assumes "s = run_store sha json empty_store xs" and "load_workflow s w = Some st"
    and "cs = carried_out_run sha json empty_store xs w"
  shows "run_accepted workflow_apply workflow_default cs = cs
    \<and> st = run_state workflow_apply workflow_default cs
    \<and> workflow_log s w = run_events workflow_apply workflow_default cs
    \<and> (wf_state st \<in> {Delivery, Completed} \<longrightarrow>
         VerificationPassed \<in> set cs \<and> Approve True \<in> set cs)"
proof -
  from stored_runs_run [OF stored_runs_empty, of sha json xs]
  have "is_run cs (row_or_default s w) (workflow_log s w)"
    unfolding stored_runs_def assms(1,3) by simp
  with assms(2) have run: "is_run cs st (workflow_log s w)"
    by (simp add: row_or_default_def load_workflow_def)
  moreover have "VerificationPassed \<in> set cs \<and> Approve True \<in> set cs"
    if "wf_state st \<in> {Delivery, Completed}"
    using run that run_gates_passed [of cs] by (simp add: is_run_def)
  ultimately show ?thesis by (simp add: is_run_def)
qed

theorem stored_workflows_are_runs_witness:
  "run_accepted workflow_apply workflow_default (carried_out_run (\<lambda>_. 0) (\<lambda>_. []) empty_store sample_calls (Id 1))
     = [CompleteIntake, Route Quick]
   \<and> map_option wf_state (load_workflow sample_store (Id 1)) = Some QuickExecution"
proof -
  have "load_workflow sample_store (Id 1) \<noteq> None"
    using sample_store_parts(5) by (simp add: load_workflow_def)
  then obtain st where st: "load_workflow sample_store (Id 1) = Some st" by blast
  have cs: "carried_out_run (\<lambda>_. 0) (\<lambda>_. []) empty_store sample_calls (Id 1) = [CompleteIntake, Route Quick]"
    by code_simp
  have "wf_state (run_state workflow_apply workflow_default [CompleteIntake, Route Quick]) = QuickExecution"
    by code_simp
  with stored_workflows_are_runs [OF sample_store_def st refl] cs st show ?thesis
    by (metis option.map(2))
qed

section \<open>Idempotency keys\<close>

lemma applied_command_is_recorded:
  assumes "bt_wf (dedup_rows s)"
    and "apply_workflow_command s w key c = (s1, Ok (d, events, st))"
  shows "bt_get (dedup_rows s1) key = Some (WorkflowAggregate w, WorkflowRecorded events st)
    \<and> read_write s1 \<and> validate_idempotency_key key = Ok () \<and> bt_wf (dedup_rows s1)"
  using assms by (auto simp: apply_workflow_command_def Let_def bt_get_insert bt_wf_insert
      split: if_splits sum.splits option.splits prod.splits recorded_result.splits)

text \<open>
  C23. A workflow command is carried out once per idempotency key: once the store has answered it
  under a key, then after any further calls a command sent again under that key, to the same
  workflow, changes nothing and is answered with the recorded events and state as a duplicate (or
  refused while a delivery of the workflow is reserved), and under another workflow it is refused.
\<close>

theorem commands_apply_once:
  assumes "apply_workflow_command (run_store sha json empty_store xs) w key c
      = (s1, Ok (d, events, st))"
    and "s2 = run_store sha json s1 ys"
  shows "apply_workflow_command s2 w key c'
      = (s2, if delivery_reserved s2 w then Err DeliveryInProgress else Ok (True, events, st))
    \<and> (v \<noteq> w \<longrightarrow> fst (apply_workflow_command s2 v key c') = s2
         \<and> snd (apply_workflow_command s2 v key c') \<in> {Err DeliveryInProgress, Err IdempotencyConflict})"
proof -
  have "bt_wf (dedup_rows (run_store sha json empty_store xs))"
    unfolding run_store_def by (rule dedup.run_wf) (simp add: empty_store_def)
  note recorded = applied_command_is_recorded [OF this assms(1)]
  then have "bt_get (dedup_rows s2) key = Some (WorkflowAggregate w, WorkflowRecorded events st)"
    unfolding assms(2) run_store_def by (intro dedup.run_kept) simp_all
  with recorded mode_run [of sha json s1 ys] show ?thesis
    by (simp add: apply_workflow_command_def assms(2))
qed

theorem commands_apply_once_witness:
  "\<exists>events st. apply_workflow_command sample_store (Id 1) ''a'' Deliver
       = (sample_store, Ok (True, events, st))"
proof -
  let ?run = "run_store (\<lambda>_. 0) (\<lambda>_. [])"
  obtain s1 r where r: "apply_workflow_command (?run empty_store []) (Id 1) ''a'' CompleteIntake = (s1, r)"
    by (metis surj_pair)
  have "\<not> isl (snd (apply_workflow_command (?run empty_store []) (Id 1) ''a'' CompleteIntake))"
    by code_simp
  with r obtain d events st where
    first: "apply_workflow_command (?run empty_store []) (Id 1) ''a'' CompleteIntake = (s1, Ok (d, events, st))"
    by (cases r) auto
  have s2: "sample_store = ?run s1 (tl sample_calls)"
    using first by (simp add: sample_store_def run_store_def sample_calls_def)
  have "\<not> delivery_reserved sample_store (Id 1)" by code_simp
  with commands_apply_once [OF first s2, of Deliver] show ?thesis by auto
qed

section \<open>Reservations\<close>

text \<open>The calls that end a reservation of the workflow.\<close>

fun ends_reservation :: "workflow_id \<Rightarrow> store_call \<Rightarrow> bool" where
  "ends_reservation w (ReleaseReservation v c d) \<longleftrightarrow> v = w"
| "ends_reservation w (DeliverStep v c d j key) \<longleftrightarrow> v = w"
| "ends_reservation w _ \<longleftrightarrow> False"

lemma reserved_iff:
  "bt_wf (reservation_rows s) \<Longrightarrow>
   delivery_reserved s w \<longleftrightarrow> (\<exists>c r. bt_get (reservation_rows s) c = Some r \<and> reserved_workflow r = w)"
  by (auto simp: delivery_reserved_def list_ex_iff bt_get_Some_iff)

lemma reservation_step:
  "reservation_rows (store_step sha json s x) = reservation_rows s
   \<or> (\<exists>c r. bt_get (reservation_rows s) c = None
        \<and> reservation_rows (store_step sha json s x) = bt_insert c r (reservation_rows s))
   \<or> (\<exists>c r j. bt_get (reservation_rows s) c = Some r
        \<and> reservation_rows (store_step sha json s x) = bt_set c (r\<lparr>reserved_journal := j\<rparr>) (reservation_rows s))
   \<or> (\<exists>c r. bt_get (reservation_rows s) c = Some r \<and> ends_reservation (reserved_workflow r) x
        \<and> reservation_rows (store_step sha json s x) = bt_remove c (reservation_rows s))"
  by (cases x; (auto simp: store_operation_defs Let_def simp del: workflow_apply.simps
      split: sum.splits option.splits prod.splits if_splits; blast))

lemma reservation_step_wf:
  "bt_wf (reservation_rows s) \<Longrightarrow> bt_wf (reservation_rows (store_step sha json s x))"
  using reservation_step [of sha json s x] by (elim disjE exE conjE) (simp_all add: bt_wf_insert bt_remove_wf)

lemma reserved_kept:
  assumes wf: "bt_wf (reservation_rows s)" and "delivery_reserved s w" and "\<not> ends_reservation w x"
  shows "delivery_reserved (store_step sha json s x) w"
proof -
  from assms obtain c r where r: "bt_get (reservation_rows s) c = Some r" "reserved_workflow r = w"
    by (auto simp: reserved_iff)
  have "\<exists>r'. bt_get (reservation_rows (store_step sha json s x)) c = Some r' \<and> reserved_workflow r' = w"
    using reservation_step [of sha json s x]
    by (elim disjE exE conjE) (use r assms(3) in
        \<open>auto simp: wf bt_get_insert bt_get_set bt_get_remove\<close>)
  then show ?thesis using reserved_iff [OF reservation_step_wf [OF wf]] by blast
qed

lemma reserved_workflow_step:
  assumes "delivery_reserved s w" and "\<not> ends_reservation w x" and wf: "bt_wf (workflow_rows s)"
  shows "load_workflow (store_step sha json s x) w = load_workflow s w"
proof (cases "on_workflows x")
  case False
  from other_steps_part [OF False] show ?thesis by (simp add: workflow_part_def load_workflow_def)
next
  case True
  then consider v key c where "x = WorkflowStep v key c" | v c d j key where "x = DeliverStep v c d j key"
    by (auto simp: on_workflows_cases)
  then show ?thesis
  proof cases
    case (1 v key c)
    have "load_workflow (fst (apply_workflow_command s v key c)) w = load_workflow s w"
      by (cases rule: apply_workflow_cases [of s v key c])
        (use assms(1) in \<open>auto simp: load_workflow_def bt_get_insert [OF wf]\<close>)
    with 1 show ?thesis by simp
  next
    case (2 v c d j key)
    with assms(2) have "v \<noteq> w" by simp
    then have "load_workflow (fst (deliver_reserved_candidate s v c d j key)) w = load_workflow s w"
      by (cases rule: deliver_cases [of s v c d j key])
        (auto simp: load_workflow_def bt_get_set simp del: workflow_apply.simps)
    with 2 show ?thesis by simp
  qed
qed

lemma workflow_rows_wf: "bt_wf (workflow_rows (run_store sha json empty_store xs))"
  using stored_runs_run [OF stored_runs_empty, of sha json xs] by (simp add: stored_runs_def)

lemma reservation_rows_wf: "bt_wf (reservation_rows (run_store sha json empty_store xs))"
proof -
  have "bt_wf (reservation_rows (run_store sha json s xs))" if "bt_wf (reservation_rows s)" for s
    unfolding run_store_def using that
    by (induction xs arbitrary: s) (simp_all add: reservation_step_wf)
  then show ?thesis by (simp add: empty_store_def)
qed

lemma run_store_append: "run_store sha json s (xs @ ys) = run_store sha json (run_store sha json s xs) ys"
  by (simp add: run_store_def)

text \<open>
  C24. While the delivery of its candidate is reserved a workflow stands still: after any calls but
  the release of its reservation and its delivery, it is still reserved, its stored state is what it
  was, and every command on it is answered with an error, also under a key it was carried out with
  before.
\<close>

theorem reserved_workflow_is_frozen:
  assumes "s = run_store sha json empty_store xs" and "delivery_reserved s w"
    and "\<And>y. y \<in> set ys \<Longrightarrow> \<not> ends_reservation w y"
  shows "delivery_reserved (run_store sha json s ys) w
    \<and> load_workflow (run_store sha json s ys) w = load_workflow s w
    \<and> (\<exists>e. apply_workflow_command (run_store sha json s ys) w key c = (run_store sha json s ys, Err e))"
proof -
  have "delivery_reserved (run_store sha json s ys) w
    \<and> load_workflow (run_store sha json s ys) w = load_workflow s w"
    using assms(3)
  proof (induction ys rule: rev_induct)
    case Nil
    with assms(2) show ?case by (simp add: run_store_def)
  next
    case (snoc y ys)
    let ?t = "run_store sha json s ys"
    have wf: "bt_wf (reservation_rows ?t)" "bt_wf (workflow_rows ?t)"
      unfolding assms(1) run_store_append [symmetric] by (rule reservation_rows_wf workflow_rows_wf)+
    have step: "run_store sha json s (ys @ [y]) = store_step sha json ?t y"
      by (simp add: run_store_def)
    from snoc have "delivery_reserved ?t w" "\<not> ends_reservation w y"
      "load_workflow ?t w = load_workflow s w" by simp_all
    then show ?case
      unfolding step using reserved_kept [OF wf(1)] reserved_workflow_step [OF _ _ wf(2)] by simp
  qed
  then show ?thesis by (auto simp: apply_workflow_command_def split: sum.splits)
qed

text \<open>The sample candidate, saved, submitted to its workflow and reserved.\<close>

definition sample_reserved_calls :: "store_call list" where
  "sample_reserved_calls = sample_calls @
     [SaveCandidate (Id 1) sample_frozen [] [sample_file], Reserve (Id 1) (Id 7) 0]"

lemma sample_reserved: "delivery_reserved (run_store (\<lambda>_. 0) (\<lambda>_. []) empty_store sample_reserved_calls) (Id 1)"
  unfolding sample_reserved_calls_def run_store_append sample_store_def [symmetric]
  using sample_store_parts
  by (simp add: run_store_def sample_save reserve_candidate_delivery_def bt_get_def delivery_reserved_def)

theorem reserved_workflow_is_frozen_witness:
  "delivery_reserved (run_store (\<lambda>_. 0) (\<lambda>_. []) (run_store (\<lambda>_. 0) (\<lambda>_. []) empty_store sample_reserved_calls)
     [WorkflowStep (Id 1) ''e'' Pause, ReleaseReservation (Id 2) (Id 7) 0]) (Id 1)"
proof -
  have "\<not> ends_reservation (Id 1) y"
    if "y \<in> set [WorkflowStep (Id 1) ''e'' Pause, ReleaseReservation (Id 2) (Id 7) 0]" for y
    using that by auto
  from reserved_workflow_is_frozen [OF refl sample_reserved this] show ?thesis by blast
qed

end
