(* ===== verification/Store_Contents.thy ===== *)
theory Store_Contents
  imports Store_Guarantees
begin

text \<open>
  What is kept beside the aggregates: the lease of a task excludes other holders until it runs out,
  and the candidate that was saved is the one that is loaded, byte for byte, from then on.
\<close>

section \<open>Leases\<close>

text \<open>
  The calls of the holder and of the others between which a lease is not lost: it is not released,
  and others ask for it no later than its expiry at that point.
\<close>

fun keeps_lease :: "store \<Rightarrow> task_id \<Rightarrow> lease_id \<Rightarrow> store_call \<Rightarrow> bool" where
  "keeps_lease s t i (ReleaseLease j) \<longleftrightarrow> j \<noteq> i"
| "keeps_lease s t i (AcquireLease fresh u owner now d a) \<longleftrightarrow> (u = t \<longrightarrow>
     (case bt_get (lease_rows s) t of None \<Rightarrow> True | Some (l, _) \<Rightarrow> now \<le> expires_at_unix_millis l))"
| "keeps_lease s t i _ \<longleftrightarrow> True"

fun lease_held ::
  "(byte list \<Rightarrow> content_digest) \<Rightarrow> ((string \<times> string \<times> bool) list \<Rightarrow> byte list) \<Rightarrow> store \<Rightarrow> task_id \<Rightarrow>
     lease_id \<Rightarrow> store_call list \<Rightarrow> bool" where
  "lease_held sha json s t i [] \<longleftrightarrow> True"
| "lease_held sha json s t i (x # xs) \<longleftrightarrow>
     keeps_lease s t i x \<and> lease_held sha json (store_step sha json s x) t i xs"

definition leases_wf :: "store \<Rightarrow> bool" where
  "leases_wf s \<longleftrightarrow> bt_wf (lease_rows s)"

lemma filter_row_get:
  "bt_wf m \<Longrightarrow> bt_get m k = Some v \<Longrightarrow> P (k, v) \<Longrightarrow> bt_get (filter P m) k = Some v"
  using bt_retain_get_Some [of m "\<lambda>k v. P (k, v)" k v] by (simp add: bt_retain_def)

lemma filter_row_wf: "bt_wf m \<Longrightarrow> bt_wf (filter P m)"
  using bt_retain_wf [of m "\<lambda>k v. P (k, v)"] by (simp add: bt_retain_def)

lemma leases_step_wf: "leases_wf s \<Longrightarrow> leases_wf (store_step sha json s x)"
  by (cases x) (auto simp: leases_wf_def store_operation_defs Let_def bt_wf_insert filter_row_wf
      simp del: workflow_apply.simps split: sum.splits option.splits prod.splits if_splits)

definition same_holder :: "lease \<Rightarrow> lease \<Rightarrow> bool" where
  "same_holder l l' \<longleftrightarrow> (\<exists>e. l' = l\<lparr>expires_at_unix_millis := e\<rparr>)"

lemma same_holder_refl: "same_holder l l"
  unfolding same_holder_def by (rule exI [of _ "expires_at_unix_millis l"]) simp

lemma same_holder_heartbeat:
  "same_holder l l' \<Longrightarrow> lease_heartbeat l' now d = (l2, r) \<Longrightarrow> same_holder l l2"
  by (auto simp: same_holder_def lease_heartbeat_def split: if_splits option.splits)

lemma same_holder_id: "same_holder l l' \<Longrightarrow> lease_id l' = lease_id l"
  by (auto simp: same_holder_def)

lemma unexpired_active: "now \<le> expires_at_unix_millis l \<Longrightarrow> lease_reconcile l now = Active"
  by (simp add: lease_reconcile_def)

lemma other_acquire_row:
  assumes "bt_wf (lease_rows s)" and "u \<noteq> t"
  shows "bt_get (lease_rows (fst (acquire_lease s fresh u owner now d a))) t = bt_get (lease_rows s) t"
  using assms by (auto simp: acquire_lease_def Let_def bt_get_insert bt_get_set
      split: sum.split option.split)

lemma heartbeat_row:
  assumes wf: "bt_wf (lease_rows s)" and row: "bt_get (lease_rows s) t = Some (l', False)"
    and l: "same_holder l l'"
  shows "\<exists>l2. bt_get (lease_rows (fst (heartbeat_lease s i now d))) t = Some (l2, False) \<and> same_holder l l2"
proof (cases "find (\<lambda>(_, l, uncertain). lease_id l = i \<and> \<not> uncertain) (lease_rows s)")
  case None
  with row l show ?thesis by (auto simp: heartbeat_lease_def)
next
  case (Some r)
  obtain u k b where r: "r = (u, k, b)" by (cases r)
  from Some r have "(u, k, b) \<in> set (lease_rows s)" by (metis find_Some_iff nth_mem)
  with wf have u: "bt_get (lease_rows s) u = Some (k, b)" by (simp add: bt_get_Some_iff)
  obtain k2 res where beat: "lease_heartbeat k now d = (k2, res)" by (cases "lease_heartbeat k now d")
  show ?thesis
  proof (cases "read_write s \<and> (\<exists>x. res = Inr x)")
    case False
    with Some r beat row l show ?thesis by (auto simp: heartbeat_lease_def split: sum.split)
  next
    case True
    then have rows: "lease_rows (fst (heartbeat_lease s i now d)) = bt_set u (k2, False) (lease_rows s)"
      using Some r beat by (auto simp: heartbeat_lease_def)
    show ?thesis
      using u row l same_holder_heartbeat [OF _ beat] unfolding rows bt_get_set [OF u] by auto
  qed
qed

lemma lease_step:
  assumes wf: "leases_wf s" and row: "bt_get (lease_rows s) t = Some (l', False)"
    and l: "same_holder l l'" and keeps: "keeps_lease s t (lease_id l) x"
  shows "\<exists>l2. bt_get (lease_rows (store_step sha json s x)) t = Some (l2, False) \<and> same_holder l l2"
proof (cases x)
  case (AcquireLease fresh u owner now d a)
  show ?thesis
  proof (cases "u = t")
    case True
    with AcquireLease keeps row have "lease_reconcile l' now = Active" by (simp add: unexpired_active)
    with True AcquireLease row l show ?thesis by (simp add: acquire_lease_def Let_def)
  next
    case False
    with AcquireLease row l wf show ?thesis by (simp add: other_acquire_row leases_wf_def)
  qed
next
  case (HeartbeatLease i now d)
  with heartbeat_row [of s t l' l i now d] wf row l show ?thesis by (simp add: leases_wf_def)
next
  case (ReleaseLease i)
  with row l keeps wf show ?thesis
    by (auto simp: release_lease_def leases_wf_def same_holder_id intro!: exI [of _ l'] filter_row_get)
qed (use row l in \<open>auto simp: store_operation_defs Let_def simp del: workflow_apply.simps
      split: sum.splits option.splits prod.splits if_splits\<close>)

lemma lease_run:
  assumes "leases_wf s" and "bt_get (lease_rows s) t = Some (l', False)" and "same_holder l l'"
    and "lease_held sha json s t (lease_id l) xs"
  shows "\<exists>l2. bt_get (lease_rows (run_store sha json s xs)) t = Some (l2, False) \<and> same_holder l l2"
  using assms
proof (induction xs arbitrary: s l')
  case Nil
  then show ?case by (auto simp: run_store_def)
next
  case (Cons x xs)
  from Cons.prems have keeps: "keeps_lease s t (lease_id l) x" by simp
  from lease_step [OF Cons.prems(1-3) keeps, of sha json] obtain l2 where
    l2: "bt_get (lease_rows (store_step sha json s x)) t = Some (l2, False)" "same_holder l l2" by blast
  from Cons.IH [OF leases_step_wf [OF Cons.prems(1)] l2] Cons.prems(4) show ?case
    by (simp add: run_store_def)
qed

text \<open>
  C25. A lease keeps others out: once a task's lease has been granted, then after any calls that do not
  release it and do not ask for it after its expiry, with its holder's heartbeats moving that expiry,
  a request before the expiry is answered that the lease is occupied, by the same lease of the same
  owner, and changes nothing.
\<close>

theorem lease_is_exclusive:
  assumes "s = run_store sha json empty_store xs"
    and "acquire_lease s fresh t owner now d a = (s1, Ok (LeaseAcquired l))"
    and "lease_held sha json s1 t (lease_id l) ys" and "s2 = run_store sha json s1 ys"
  shows "\<exists>l2. bt_get (lease_rows s2) t = Some (l2, False) \<and> same_holder l l2 \<and> lease_owner l2 = owner
    \<and> (later \<le> expires_at_unix_millis l2 \<longrightarrow>
         acquire_lease s2 fresh' t owner' later d' a' = (s2, Ok (LeaseOccupied l2)))"
proof -
  have "leases_wf (run_store sha json s zs)" if "leases_wf s" for s zs
    using that by (induction zs arbitrary: s) (simp_all add: run_store_def leases_step_wf)
  then have wf: "leases_wf s" unfolding assms(1) by (simp add: leases_wf_def empty_store_def)
  have granted: "bt_get (lease_rows s1) t = Some (l, False) \<and> leases_wf s1 \<and> read_write s1
    \<and> lease_owner l = owner"
    using assms(2) wf by (auto simp: acquire_lease_def Let_def leases_wf_def bt_get_insert bt_wf_insert
        lease_acquire_def ok_or_def split: if_splits sum.splits option.splits prod.splits)
  then obtain l2 where l2: "bt_get (lease_rows s2) t = Some (l2, False)" "same_holder l l2"
    using lease_run [OF _ _ same_holder_refl assms(3)] unfolding assms(4) by blast
  moreover have "read_write s2" using granted by (simp add: assms(4) mode_run)
  ultimately show ?thesis
    using granted by (intro exI [of _ l2]) (auto simp: acquire_lease_def Let_def unexpired_active same_holder_def)
qed

section \<open>Candidates\<close>

definition observed_entry :: "(byte list \<Rightarrow> content_digest) \<Rightarrow> file_payload \<Rightarrow> string \<times> content_digest \<times> bool" where
  "observed_entry sha p = (payload_path p, sha (payload_content p), payload_executable p)"

lemma observe_loop_Ok_iff:
  "bt_wf m \<Longrightarrow> try_fold (observe_file sha) m ps = Ok m' \<longleftrightarrow>
   distinct (map payload_path ps) \<and> (\<forall>p \<in> set ps. bt_get m (payload_path p) = None)
   \<and> m' = fold (\<lambda>(k, v). bt_insert k v) (map (observed_entry sha) ps) m"
proof (induction ps arbitrary: m)
  case (Cons p ps)
  show ?case
  proof (cases "bt_get m (payload_path p)")
    case None
    let ?m = "bt_insert (payload_path p) (snd (observed_entry sha p)) m"
    have step: "try_fold (observe_file sha) m (p # ps) = try_fold (observe_file sha) ?m ps"
      using None by (simp add: observe_file_def observed_entry_def)
    have folds: "fold (\<lambda>(k, v). bt_insert k v) (map (observed_entry sha) (p # ps)) m
        = fold (\<lambda>(k, v). bt_insert k v) (map (observed_entry sha) ps) ?m"
      by (simp add: observed_entry_def)
    have get: "bt_get ?m (payload_path q) = None
        \<longleftrightarrow> payload_path q \<noteq> payload_path p \<and> bt_get m (payload_path q) = None" for q
      by (simp add: bt_get_insert [OF Cons.prems])
    have "distinct (map payload_path (p # ps)) \<and> (\<forall>q \<in> set (p # ps). bt_get m (payload_path q) = None)
        \<longleftrightarrow> distinct (map payload_path ps)
          \<and> (\<forall>q \<in> set ps. payload_path q \<noteq> payload_path p \<and> bt_get m (payload_path q) = None)"
      using None by (auto simp: image_iff)
    then show ?thesis
      unfolding step folds Cons.IH [OF bt_wf_insert [OF Cons.prems]] get by blast
  qed (simp add: observe_file_def)
qed auto

lemma observe_loop_sorted:
  assumes "try_fold (observe_file sha) [] ps = Ok m"
  shows "try_fold (observe_file sha) [] (sort_key payload_path ps) = Ok m"
proof -
  let ?qs = "sort_key payload_path ps"
  let ?es = "map (observed_entry sha) ps" and ?fs = "map (observed_entry sha) ?qs"
  have ps: "distinct (map payload_path ps)" and m: "m = fold (\<lambda>(k, v). bt_insert k v) ?es []"
    using assms observe_loop_Ok_iff [OF bt_wf_Nil, of sha ps m] by simp_all
  have mset: "mset (map payload_path ?qs) = mset (map payload_path ps)" by (simp add: mset_map)
  then have qs: "distinct (map payload_path ?qs)" using ps mset_eq_imp_distinct_iff by blast
  have keys: "map fst (map (observed_entry sha) xs) = map payload_path xs" for xs
    by (simp add: observed_entry_def o_def)
  have "map_of (rev (map (observed_entry sha) xs)) k = Some v \<longleftrightarrow> (k, v) \<in> observed_entry sha ` set xs"
    if "distinct (map payload_path xs)" for xs k v
  proof -
    have "distinct (map fst (rev (map (observed_entry sha) xs)))"
      using that keys [of xs] by (metis distinct_rev rev_map)
    then show ?thesis by (simp add: map_of_eq_Some_iff)
  qed
  with ps qs have "map_of (rev ?es) = map_of (rev ?fs)"
    by (intro ext option_eqI) simp
  then have "fold (\<lambda>(k, v). bt_insert k v) ?es [] = fold (\<lambda>(k, v). bt_insert k v) ?fs []"
    by (intro btree.entries_ext btree.good_collect) (simp_all add: btree.get_collect)
  with qs m show ?thesis using observe_loop_Ok_iff [OF bt_wf_Nil, of sha ?qs m] by simp
qed

lemma payload_bytes_sort [simp]: "payload_bytes (sort_key f ps) = payload_bytes ps"
  using sum_mset_sum_list [of "map (\<lambda>p. length (payload_content p)) (sort_key f ps)"]
    sum_mset_sum_list [of "map (\<lambda>p. length (payload_content p)) ps"]
  by (simp add: payload_bytes_def)

lemma sort_key_again [simp]: "sort_key f (sort_key f xs) = sort_key f xs"
  by (rule sort_key_id_if_sorted) simp

text \<open>What was accepted is accepted again in the order it is kept in.\<close>

lemma validated_payload_again:
  assumes "validated_payload sha json m n ps = Some (Ok exact)"
  shows "exact = sort_key payload_path ps \<and> n + payload_bytes exact \<le> max_candidate_payload_bytes
    \<and> validated_payload sha json m n exact = Some (Ok exact)"
proof -
  have parts: "n + payload_bytes ps \<le> max_candidate_payload_bytes"
    "delivery_payload_digest m = Some (sha (json (payload_listing sha (sort_key payload_path ps))))"
    "\<not> list_ex (\<lambda>f. file_kind f \<noteq> Deleted \<and> file_digest f = None) (files m)"
    "try_fold (observe_file sha) [] ps = Ok (expected_files (files m))"
    "exact = sort_key payload_path ps"
    using assms by (simp_all add: validated_payload_def Let_def split: if_splits)
  from parts(1-3) observe_loop_sorted [OF parts(4)] show ?thesis
    unfolding parts(5) by (simp add: validated_payload_def)
qed

lemma saved_candidate_row:
  assumes "save_candidate_once sha json s w m diff ps = Some (s1, Ok seen)" and "bt_wf (candidate_rows s)"
  shows "sha diff = diff_digest m
    \<and> (\<exists>exact. validated_payload sha json m (length diff) ps = Some (Ok exact)
       \<and> bt_get (candidate_rows s1) (manifest_id m) = Some \<lparr>candidate_owner = w,
           candidate_manifest_json = m, candidate_diff = diff, candidate_complete = True,
           candidate_files = exact\<rparr>)
    \<and> bt_wf (candidate_rows s1)"
  using assms by (auto simp: save_candidate_once_def bt_get_insert bt_wf_insert
      split: if_splits option.splits sum.splits)

text \<open>
  C26. A saved candidate is loaded exactly: once it was saved, then after any further calls it is found
  under its identifier with the same manifest, diff and owner and the same files in path order; and
  their bytes are the ones the manifest pins, through the digest of the diff, of every file that is
  not deleted and of the listing of the payload.
\<close>

theorem saved_candidate_loads_exactly:
  assumes "save_candidate_once sha json (run_store sha json empty_store xs) w m diff ps = Some (s1, Ok seen)"
    and "manifest_try_from m = Ok m"
  defines "exact \<equiv> sort_key payload_path ps"
  shows "load_candidate sha json (run_store sha json s1 ys) (manifest_id m) =
      Some (Ok (Some \<lparr>stored_diff = diff, stored_files = Some exact, stored_manifest = m,
        stored_workflow = w\<rparr>))
    \<and> sha diff = diff_digest m
    \<and> delivery_payload_digest m = Some (sha (json (payload_listing sha exact)))
    \<and> try_fold (observe_file sha) [] exact = Ok (expected_files (files m))"
proof -
  have "bt_wf (candidate_rows (run_store sha json empty_store xs))"
    unfolding run_store_def by (rule candidates.run_wf) (simp add: empty_store_def)
  from saved_candidate_row [OF assms(1) this] obtain exact' where
    digest: "sha diff = diff_digest m" and
    valid: "validated_payload sha json m (length diff) ps = Some (Ok exact')" and
    row: "bt_get (candidate_rows s1) (manifest_id m) = Some \<lparr>candidate_owner = w,
       candidate_manifest_json = m, candidate_diff = diff, candidate_complete = True,
       candidate_files = exact'\<rparr>" and wf: "bt_wf (candidate_rows s1)" by blast
  have exact': "exact' = exact" using validated_payload_again [OF valid] by (simp add: exact_def)
  have bytes: "length diff + payload_bytes exact \<le> max_candidate_payload_bytes"
    and again: "validated_payload sha json m (length diff) exact = Some (Ok exact)"
    using validated_payload_again [OF valid] unfolding exact' by blast+
  from candidates.run_kept [OF wf row] have
    "bt_get (candidate_rows (run_store sha json s1 ys)) (manifest_id m) = Some \<lparr>candidate_owner = w,
       candidate_manifest_json = m, candidate_diff = diff, candidate_complete = True,
       candidate_files = exact\<rparr>" unfolding exact' run_store_def .
  with again bytes digest assms(2) have "load_candidate sha json (run_store sha json s1 ys) (manifest_id m) =
      Some (Ok (Some \<lparr>stored_diff = diff, stored_files = Some exact, stored_manifest = m,
        stored_workflow = w\<rparr>))" by (simp add: load_candidate_def Let_def)
  with again digest show ?thesis
    by (auto simp: validated_payload_def Let_def split: if_splits)
qed

section \<open>At a concrete store\<close>

theorem saved_candidate_loads_exactly_witness:
  "load_candidate (\<lambda>_. 0) (\<lambda>_. []) (run_store (\<lambda>_. 0) (\<lambda>_. []) sample_saved
       [ReleaseReservation (Id 1) (Id 7) 0, WorkflowStep (Id 1) ''e'' Pause]) (Id 7) =
     Some (Ok (Some \<lparr>stored_diff = [], stored_files = Some [sample_file],
       stored_manifest = sample_frozen, stored_workflow = Id 1\<rparr>))"
proof -
  have "manifest_id sample_frozen = Id 7" by (simp add: sample_frozen_def)
  moreover have "sort_key payload_path [sample_file] = [sample_file]" by (simp add: sort_key_def)
  ultimately show ?thesis
    using saved_candidate_loads_exactly [OF sample_saved_save sample_frozen_valid] by metis
qed

definition sample_lease :: lease where
  "sample_lease = \<lparr>lease_id = Id 5, lease_task_id = Id 2, lease_owner = Id 6,
     acquired_at_unix_millis = 1000, expires_at_unix_millis = 1050, lease_safety = NonIdempotent\<rparr>"

definition sample_granted :: store where
  "sample_granted = sample_store\<lparr>lease_rows := [(Id 2, sample_lease, False)]\<rparr>"

lemma sample_lease_granted:
  "acquire_lease (run_store (\<lambda>_. 0) (\<lambda>_. []) empty_store sample_calls)
     (Id 5) (Id 2) (Id 6) 1000 50 NonIdempotent = (sample_granted, Ok (LeaseAcquired sample_lease))"
  using sample_store_parts unfolding sample_store_def [symmetric] sample_granted_def
  by (auto simp: acquire_lease_def lease_acquire_def checked_add_i64_def in_i64_def Let_def
      sample_lease_def)

definition sample_lease_calls :: "store_call list" where
  "sample_lease_calls = [HeartbeatLease (Id 5) 1040 60, AcquireLease (Id 9) (Id 2) (Id 8) 1060 10 Idempotent]"

lemma sample_heartbeat:
  "store_step (\<lambda>_. 0) (\<lambda>_. []) sample_granted (HeartbeatLease (Id 5) 1040 60) =
     sample_granted\<lparr>lease_rows := [(Id 2, sample_lease\<lparr>expires_at_unix_millis := 1100\<rparr>, False)]\<rparr>"
  using sample_store_parts(1)
  by (simp add: sample_granted_def heartbeat_lease_def lease_heartbeat_def checked_add_i64_def
      in_i64_def sample_lease_def)

lemma sample_lease_kept:
  "lease_held (\<lambda>_. 0) (\<lambda>_. []) sample_granted (Id 2) (lease_id sample_lease) sample_lease_calls"
  "bt_get (lease_rows (run_store (\<lambda>_. 0) (\<lambda>_. []) sample_granted sample_lease_calls)) (Id 2) =
     Some (sample_lease\<lparr>expires_at_unix_millis := 1100\<rparr>, False)"
  using sample_store_parts(1)
  by (simp_all add: sample_lease_calls_def run_store_def sample_heartbeat del: store_step.simps(11))
    (simp_all add: sample_granted_def bt_get_def acquire_lease_def Let_def lease_reconcile_def)

theorem lease_is_exclusive_witness:
  "snd (acquire_lease (run_store (\<lambda>_. 0) (\<lambda>_. []) sample_granted sample_lease_calls)
      (Id 9) (Id 2) (Id 8) 1090 10 Idempotent)
    = Ok (LeaseOccupied (sample_lease\<lparr>expires_at_unix_millis := 1100\<rparr>))"
  using lease_is_exclusive [OF refl sample_lease_granted sample_lease_kept(1) refl,
      of 1090 "Id 9" "Id 8" 10 Idempotent] sample_lease_kept(2) by auto

end
