(* ===== verification/Receipt.thy ===== *)
theory Receipt
  imports Request Architecture Candidate Verdicts
begin

text \<open>
  The receipt of an arbitration with its canonical digest (\<open>receipt.rs\<close>) and the versioned
  envelope of protocol payloads (\<open>protocol.rs\<close>).
\<close>

section \<open>Receipts (receipt.rs)\<close>

record arbitration_receipt =
  receipt_verdict :: content_digest
  receipt_candidate_digest :: content_digest
  receipt_candidate :: candidate_id
  receipt_evidence :: "evidence_id list"
  finalized_at :: workflow_timestamp
  functional_review :: "content_digest option"
  receipt_id :: receipt_id
  receipt_request :: content_digest
  security_review :: "content_digest option"
  receipt_workflow :: workflow_id

definition receipt_domain :: string where
  "receipt_domain = ''opencode-workflow/arbitration-receipt/v1''"

definition write_optional_digest :: "hasher \<Rightarrow> content_digest option \<Rightarrow> hasher" where
  "write_optional_digest h x =
     (let h = write_bool h (x \<noteq> None) in case x of Some d \<Rightarrow> write_digest h d | None \<Rightarrow> h)"

definition receipt_stream :: "(workflow_timestamp \<Rightarrow> string) \<Rightarrow> arbitration_receipt \<Rightarrow> hasher" where
  "receipt_stream rfc3339 r =
     (let h = write_bytes (canonical_hasher receipt_domain) (id_bytes (receipt_id r));
          h = write_bytes h (id_bytes (receipt_workflow r));
          h = write_bytes h (id_bytes (receipt_candidate r));
          h = write_digest h (receipt_request r);
          h = write_digest h (receipt_candidate_digest r);
          h = write_optional_digest h (functional_review r);
          h = write_optional_digest h (security_review r);
          h = write_digest h (receipt_verdict r);
          h = write_str h (rfc3339 (finalized_at r));
          h = write_u64 h (of_nat (length (receipt_evidence r)))
      in write_all (\<lambda>h e. write_bytes h (id_bytes e)) h (receipt_evidence r))"

definition receipt_digest ::
  "(byte list \<Rightarrow> content_digest) \<Rightarrow> (workflow_timestamp \<Rightarrow> string) \<Rightarrow> arbitration_receipt \<Rightarrow>
     content_digest" where
  "receipt_digest sha rfc3339 r = sha (receipt_stream rfc3339 r)"

definition optional_digest_item :: "content_digest option \<Rightarrow> byte list" where
  "optional_digest_item x = write_optional_digest [] x"

lemma write_optional_digest_item: "write_optional_digest h x = h @ optional_digest_item x"
  by (simp add: write_optional_digest_def optional_digest_item_def write_bool_def write_digest_item
      Let_def split: option.split)

lemma optional_digest_item_inject:
  "optional_digest_item x @ r = optional_digest_item y @ r' \<longleftrightarrow> x = y \<and> r = r'"
  by (auto simp: optional_digest_item_def write_optional_digest_def write_bool_def write_digest_item
      digest_item_inject split: option.splits)

lemma receipt_stream_items:
  "receipt_stream rfc3339 r = str_item receipt_domain @ id_item (receipt_id r)
     @ id_item (receipt_workflow r) @ id_item (receipt_candidate r) @ digest_item (receipt_request r)
     @ digest_item (receipt_candidate_digest r) @ optional_digest_item (functional_review r)
     @ optional_digest_item (security_review r) @ digest_item (receipt_verdict r)
     @ str_item (rfc3339 (finalized_at r)) @ be_u64 (of_nat (length (receipt_evidence r)))
     @ concat (map id_item (receipt_evidence r))"
  by (simp add: receipt_stream_def Let_def canonical_hasher_def write_str_item write_id_item
      write_digest_item write_optional_digest_item write_u64_def foldl_append_items [where enc = id_item])

text \<open>Equal streams are equal receipts, up to what the text of the instant tells.\<close>

lemma receipt_stream_inject:
  assumes eq: "receipt_stream rfc3339 r = receipt_stream rfc3339 s"
    and fits: "fits (rfc3339 (finalized_at r))" "fits (rfc3339 (finalized_at s))"
      "fits (receipt_evidence r)" "fits (receipt_evidence s)"
    and inj: "rfc3339 (finalized_at r) = rfc3339 (finalized_at s) \<Longrightarrow> finalized_at r = finalized_at s"
  shows "r = s"
proof -
  from eq have fields: "receipt_id r = receipt_id s" "receipt_workflow r = receipt_workflow s"
    "receipt_candidate r = receipt_candidate s" "receipt_request r = receipt_request s"
    "receipt_candidate_digest r = receipt_candidate_digest s"
    "functional_review r = functional_review s" "security_review r = security_review s"
    "receipt_verdict r = receipt_verdict s"
    "rfc3339 (finalized_at r) = rfc3339 (finalized_at s)"
    "length (receipt_evidence r) = length (receipt_evidence s)"
    and items: "concat (map id_item (receipt_evidence r)) @ [] = concat (map id_item (receipt_evidence s)) @ []"
    using fits unfolding receipt_stream_items
    by (simp_all add: id_item_inject digest_item_inject optional_digest_item_inject
        str_item_inject item_u64_inject of_nat_u64_inject fits_def)
  have "receipt_evidence r = receipt_evidence s"
    using concat_inject [where enc = id_item, OF _ fields(10) items] by (simp add: id_item_inject)
  with fields inj show ?thesis by (simp add: arbitration_receipt.equality)
qed

section \<open>The protocol envelope (protocol.rs)\<close>

datatype protocol_payload =
    RequestPayload request_record
  | ArchitecturePayload architecture_plan
  | CandidatePayload candidate_manifest
  | EvidencePayload evidence_record
  | VerdictPayload arbiter_verdict

record protocol_envelope =
  envelope_version :: u16
  envelope_payload :: protocol_payload

datatype protocol_error = UnsupportedVersion u16

definition protocol_version :: u16 where "protocol_version = 1"

definition envelope_new :: "protocol_payload \<Rightarrow> protocol_envelope" where
  "envelope_new payload = \<lparr>envelope_version = protocol_version, envelope_payload = payload\<rparr>"

definition envelope_try_from :: "protocol_envelope \<Rightarrow> protocol_error + protocol_envelope" where
  "envelope_try_from e =
     (if envelope_version e \<noteq> protocol_version then Err (UnsupportedVersion (envelope_version e))
      else Ok \<lparr>envelope_version = envelope_version e, envelope_payload = envelope_payload e\<rparr>)"

lemma envelope_try_from_Ok_iff: "envelope_try_from e = Ok e' \<longleftrightarrow> envelope_version e = 1 \<and> e' = e"
  by (auto simp: envelope_try_from_def protocol_version_def)

end
