(* ===== verification/Essentiality.thy ===== *)
theory Essentiality
  imports Ordered_Map Cycle_Digest
begin

text \<open>
  The essentiality constraint of the daemon (\<open>crates/workflowd/src/essentiality.rs\<close>): a proposed
  change is allowed when every required alternative was looked at and none of them would do.
\<close>

datatype alternative_check =
    ExistingImplementation
  | StandardLibrary
  | NativePlatformCapability
  | InstalledDependency

text \<open>The derived order is that of the declaration.\<close>

fun check_rank :: "alternative_check \<Rightarrow> nat" where
  "check_rank ExistingImplementation = 0"
| "check_rank StandardLibrary = 1"
| "check_rank NativePlatformCapability = 2"
| "check_rank InstalledDependency = 3"

lemma check_rank_inject [simp]: "check_rank a = check_rank b \<longleftrightarrow> a = b"
  by (cases a; cases b) simp_all

instantiation alternative_check :: linorder
begin

definition less_eq_alternative_check :: "alternative_check \<Rightarrow> alternative_check \<Rightarrow> bool" where
  "less_eq_alternative_check a b \<longleftrightarrow> check_rank a \<le> check_rank b"

definition less_alternative_check :: "alternative_check \<Rightarrow> alternative_check \<Rightarrow> bool" where
  "less_alternative_check a b \<longleftrightarrow> check_rank a < check_rank b"

instance
  by standard (auto simp: less_eq_alternative_check_def less_alternative_check_def dest: antisym)

end

datatype proposed_change_kind = NewAbstraction | NewCode | NewDependency

record alternative_evidence =
  alternative_check :: alternative_check
  alternative_source :: string
  viable :: bool

record change_proposal =
  alternatives :: "alternative_evidence list"
  change_kind :: proposed_change_kind
  preserves_accessibility :: bool
  preserves_safety :: bool
  proposal_rationale :: string
  proposal_summary :: string
  proposal_task :: task_id

record essentiality_policy =
  required_checks :: "alternative_check list"
  require_accessibility_preservation :: bool
  require_safety_preservation :: bool

datatype essentiality_decision = ChangeAllowed content_digest | ChangeRejected "string list"

definition essentiality_default :: essentiality_policy where
  "essentiality_default = \<lparr>required_checks = [ExistingImplementation, StandardLibrary,
     NativePlatformCapability, InstalledDependency], require_accessibility_preservation = True,
     require_safety_preservation = True\<rparr>"

definition essentiality_digest ::
  "(byte list \<Rightarrow> content_digest) \<Rightarrow> (essentiality_policy \<Rightarrow> byte list) \<Rightarrow> essentiality_policy \<Rightarrow>
     content_digest" where
  "essentiality_digest sha json p = sha (json p)"

text \<open>The \<open>Debug\<close> text of a check, in lower case.\<close>

fun check_text :: "alternative_check \<Rightarrow> string" where
  "check_text ExistingImplementation = ''existingimplementation''"
| "check_text StandardLibrary = ''standardlibrary''"
| "check_text NativePlatformCapability = ''nativeplatformcapability''"
| "check_text InstalledDependency = ''installeddependency''"

text \<open>Of several pieces of evidence for one check the last is kept.\<close>

definition evidence_by_check ::
  "alternative_evidence list \<Rightarrow> (alternative_check, alternative_evidence) btree_map" where
  "evidence_by_check items = index_by alternative_check items []"

definition check_reason ::
  "(alternative_check, alternative_evidence) btree_map \<Rightarrow> alternative_check \<Rightarrow> string option" where
  "check_reason evidence check =
     (case bt_get evidence check of
        None \<Rightarrow> Some (''missing '' @ check_text check @ '' evidence'')
      | Some item \<Rightarrow>
          if blank (alternative_source item) then Some (''empty '' @ check_text check @ '' evidence'')
          else if viable item then Some (''viable '' @ check_text check @ '' alternative exists'')
          else None)"

definition essentiality_reasons :: "essentiality_policy \<Rightarrow> change_proposal \<Rightarrow> string list" where
  "essentiality_reasons p proposal =
     (let reasons = (if blank (proposal_summary proposal) \<or> blank (proposal_rationale proposal)
            then bs_insert ''summary and rationale must be explicit'' [] else []);
          reasons = (if require_safety_preservation p \<and> \<not> preserves_safety proposal
            then bs_insert ''safety requirements cannot be removed by essentiality'' reasons else reasons);
          reasons = (if require_accessibility_preservation p \<and> \<not> preserves_accessibility proposal
            then bs_insert ''accessibility requirements cannot be removed by essentiality'' reasons
            else reasons);
          evidence = evidence_by_check (alternatives proposal)
      in fold (\<lambda>check reasons. case check_reason evidence check of
           None \<Rightarrow> reasons | Some r \<Rightarrow> bs_insert r reasons) (required_checks p) reasons)"

definition essentiality_evaluate ::
  "(byte list \<Rightarrow> content_digest) \<Rightarrow> (essentiality_policy \<Rightarrow> byte list) \<Rightarrow> essentiality_policy \<Rightarrow>
     change_proposal \<Rightarrow> essentiality_decision" where
  "essentiality_evaluate sha json p proposal =
     (let reasons = essentiality_reasons p proposal
      in if reasons = [] then ChangeAllowed (essentiality_digest sha json p) else ChangeRejected reasons)"

section \<open>What is allowed\<close>

lemma index_by_last:
  "bt_wf m \<Longrightarrow> bt_get (index_by key xs m) k =
     (case find (\<lambda>x. key x = k) (rev xs) of Some x \<Rightarrow> Some x | None \<Rightarrow> bt_get m k)"
proof (induction xs arbitrary: m)
  case (Cons x xs)
  have "bt_get (index_by key (x # xs) m) k =
      (case find (\<lambda>y. key y = k) (rev xs) of Some y \<Rightarrow> Some y | None \<Rightarrow> bt_get (bt_insert (key x) x m) k)"
    using Cons.IH [OF bt_wf_insert [OF Cons.prems]] by (simp add: index_by_def)
  moreover have "find (\<lambda>y. key y = k) (rev xs @ [x]) = (case find (\<lambda>y. key y = k) (rev xs) of
      Some y \<Rightarrow> Some y | None \<Rightarrow> if key x = k then Some x else None)" for xs
  proof -
    have "find P (ys @ [x]) = (case find P ys of Some y \<Rightarrow> Some y | None \<Rightarrow> if P x then Some x else None)"
      for P ys by (induction ys) auto
    then show ?thesis .
  qed
  ultimately show ?case by (auto simp: bt_get_insert [OF Cons.prems] split: option.split)
qed (simp add: index_by_def)

lemma fold_reasons_set:
  "set (fold (\<lambda>c rs. case f c of None \<Rightarrow> rs | Some r \<Rightarrow> bs_insert r rs) cs rs)
     = set rs \<union> {r. \<exists>c \<in> set cs. f c = Some r}"
  by (induction cs arbitrary: rs) (auto simp: set_insort_insert split: option.splits)

lemma no_reasons: "{r. \<exists>c \<in> set cs. f c = Some r} = {} \<longleftrightarrow> (\<forall>c \<in> set cs. f c = None)"
  by (auto, metis option.exhaust)

lemma bs_insert_nonempty: "bs_insert x xs \<noteq> []"
  using set_insort_insert [of x xs] by auto

text \<open>The evidence that counts for a check: the last one given.\<close>

definition final_evidence :: "change_proposal \<Rightarrow> alternative_check \<Rightarrow> alternative_evidence option" where
  "final_evidence proposal check = find (\<lambda>e. alternative_check e = check) (rev (alternatives proposal))"

lemma evidence_by_check_get: "bt_get (evidence_by_check (alternatives p)) c = final_evidence p c"
  by (simp add: evidence_by_check_def index_by_last final_evidence_def split: option.split)

text \<open>
  C12. A proposed change is allowed exactly when it is explained, keeps the safety and accessibility
  the policy demands, and for each required alternative the last piece of evidence given names its
  source and finds the alternative not viable; the decision then carries the digest of the policy, and
  no other one.
\<close>

theorem essentiality_allows_iff:
  "essentiality_evaluate sha json p proposal = ChangeAllowed d \<longleftrightarrow> d = sha (json p)
     \<and> \<not> blank (proposal_summary proposal) \<and> \<not> blank (proposal_rationale proposal)
     \<and> (require_safety_preservation p \<longrightarrow> preserves_safety proposal)
     \<and> (require_accessibility_preservation p \<longrightarrow> preserves_accessibility proposal)
     \<and> (\<forall>c \<in> set (required_checks p). \<exists>e. final_evidence proposal c = Some e
          \<and> \<not> blank (alternative_source e) \<and> \<not> viable e)"
proof -
  let ?ev = "evidence_by_check (alternatives proposal)"
  have check: "check_reason ?ev c = None \<longleftrightarrow> (\<exists>e. final_evidence proposal c = Some e
      \<and> \<not> blank (alternative_source e) \<and> \<not> viable e)" for c
    by (simp add: check_reason_def evidence_by_check_get split: option.split)
  have "essentiality_evaluate sha json p proposal = ChangeAllowed d \<longleftrightarrow>
      d = sha (json p) \<and> set (essentiality_reasons p proposal) = {}"
    by (auto simp: essentiality_evaluate_def essentiality_digest_def Let_def)
  also have "set (essentiality_reasons p proposal) = {} \<longleftrightarrow> \<not> blank (proposal_summary proposal) \<and> \<not> blank (proposal_rationale proposal)
     \<and> (require_safety_preservation p \<longrightarrow> preserves_safety proposal)
     \<and> (require_accessibility_preservation p \<longrightarrow> preserves_accessibility proposal)
     \<and> (\<forall>c \<in> set (required_checks p). check_reason ?ev c = None)"
    unfolding essentiality_reasons_def Let_def fold_reasons_set Un_empty no_reasons
    by (auto simp: bs_insert_nonempty)
  finally show ?thesis by (simp add: check)
qed

definition sample_proposal :: change_proposal where
  "sample_proposal = \<lparr>alternatives = [\<lparr>alternative_check = StandardLibrary, alternative_source = ''std'', viable = False\<rparr>],
     change_kind = NewCode, preserves_accessibility = True, preserves_safety = True,
     proposal_rationale = ''r'', proposal_summary = ''s'', proposal_task = Id 1\<rparr>"

theorem essentiality_allows_iff_witness:
  "essentiality_evaluate (\<lambda>_. 5) (\<lambda>_. []) (essentiality_default\<lparr>required_checks := [StandardLibrary]\<rparr>)
     sample_proposal = ChangeAllowed 5"
proof -
  have "\<not> blank ''r'' \<and> \<not> blank ''s'' \<and> \<not> blank ''std''" by code_simp
  then show ?thesis
    unfolding essentiality_allows_iff by (simp add: sample_proposal_def final_evidence_def essentiality_default_def)
qed

end
