(* ===== verification/Utf8.thy ===== *)
theory Utf8
  imports Cycle_Text
begin

text \<open>
  UTF-8 as Rust's \<open>std::str::from_utf8\<close> and \<open>String::from_utf8_lossy\<close> read it.  A lead byte names the
  ranges of the bytes that follow it; the longest part of a broken sequence becomes one U+FFFD.
\<close>

section \<open>Sequences\<close>

definition utf8_ranges :: "byte \<Rightarrow> (byte \<times> byte) list option" where
  "utf8_ranges b =
     (let next = (0x80, 0xBF) in
      if b < 0x80 then Some []
      else if 0xC2 \<le> b \<and> b \<le> 0xDF then Some [next]
      else if b = 0xE0 then Some [(0xA0, 0xBF), next]
      else if b = 0xED then Some [(0x80, 0x9F), next]
      else if 0xE1 \<le> b \<and> b \<le> 0xEF then Some [next, next]
      else if b = 0xF0 then Some [(0x90, 0xBF), next, next]
      else if 0xF1 \<le> b \<and> b \<le> 0xF3 then Some [next, next, next]
      else if b = 0xF4 then Some [(0x80, 0x8F), next, next]
      else None)"

text \<open>How many of the bytes fit the ranges, and whether all ranges were met.\<close>

fun utf8_follow :: "(byte \<times> byte) list \<Rightarrow> byte list \<Rightarrow> nat \<times> bool" where
  "utf8_follow [] bs = (0, True)"
| "utf8_follow (_ # _) [] = (0, False)"
| "utf8_follow ((lo, hi) # rs) (b # bs) =
     (if lo \<le> b \<and> b \<le> hi then map_prod Suc id (utf8_follow rs bs) else (0, False))"

function utf8_valid :: "byte list \<Rightarrow> bool" where
  "utf8_valid [] = True"
| "utf8_valid (b # bs) =
     (case utf8_ranges b of
        None \<Rightarrow> False
      | Some rs \<Rightarrow> snd (utf8_follow rs bs) \<and> utf8_valid (drop (fst (utf8_follow rs bs)) bs))"
  by pat_completeness auto
termination by (relation "measure length") auto

definition replacement :: "byte list" where
  "replacement = [0xEF, 0xBF, 0xBD]"

function from_utf8_lossy :: "byte list \<Rightarrow> byte list" where
  "from_utf8_lossy [] = []"
| "from_utf8_lossy (b # bs) =
     (case utf8_ranges b of
        None \<Rightarrow> replacement @ from_utf8_lossy bs
      | Some rs \<Rightarrow>
          (if snd (utf8_follow rs bs) then b # take (fst (utf8_follow rs bs)) bs else replacement)
          @ from_utf8_lossy (drop (fst (utf8_follow rs bs)) bs))"
  by pat_completeness auto
termination by (relation "measure length") auto

definition string_of_bytes :: "byte list \<Rightarrow> string" where
  "string_of_bytes bs = map (\<lambda>b. char_of (unat b)) bs"

lemma string_of_as_bytes [simp]: "string_of_bytes (as_bytes s) = s"
proof -
  have "char_of (unat (of_char c :: byte)) = c" for c
  proof -
    have "unat (of_char c :: byte) = of_char c" by (cases c) (simp add: of_char_def unat_of_nat)
    then show ?thesis by simp
  qed
  then show ?thesis by (simp add: string_of_bytes_def as_bytes_def o_def)
qed

section \<open>Lossy decoding repairs what is broken and nothing else\<close>

lemma utf8_follow_take:
  "snd (utf8_follow rs bs) \<Longrightarrow>
   utf8_follow rs (take (fst (utf8_follow rs bs)) bs @ tail) = (fst (utf8_follow rs bs), True)"
  by (induction rs bs rule: utf8_follow.induct) (auto simp: map_prod_def split: prod.splits)

lemma utf8_follow_bound: "fst (utf8_follow rs bs) \<le> length bs"
  by (induction rs bs rule: utf8_follow.induct) auto

lemma utf8_valid_one:
  assumes "utf8_ranges b = Some rs" and "utf8_follow rs bs = (n, True)"
  shows "utf8_valid (b # take n bs @ tail) = utf8_valid tail"
proof -
  have "utf8_follow rs (take n bs @ tail) = (n, True)"
    using utf8_follow_take [of rs bs tail] assms(2) by simp
  moreover have "n \<le> length bs" using utf8_follow_bound [of rs bs] assms(2) by simp
  ultimately show ?thesis using assms(1) by simp
qed

lemma utf8_valid_replacement: "utf8_valid (replacement @ tail) = utf8_valid tail"
  by (simp add: replacement_def utf8_ranges_def Let_def)

lemma from_utf8_lossy_valid: "utf8_valid (from_utf8_lossy bs)"
proof (induction bs rule: from_utf8_lossy.induct)
  case (2 b bs)
  show ?case
  proof (cases "utf8_ranges b")
    case None
    with 2 show ?thesis by (simp add: utf8_valid_replacement)
  next
    case (Some rs)
    obtain n ok where f: "utf8_follow rs bs = (n, ok)" by (cases "utf8_follow rs bs")
    with 2(2) [OF Some] have "utf8_valid (from_utf8_lossy (drop n bs))" by simp
    with Some f show ?thesis
      by (cases ok) (simp_all add: utf8_valid_replacement utf8_valid_one del: utf8_valid.simps)
  qed
qed simp

lemma from_utf8_lossy_id: "utf8_valid bs \<Longrightarrow> from_utf8_lossy bs = bs"
  by (induction bs rule: from_utf8_lossy.induct) (auto split: option.splits if_splits)

lemma from_utf8_lossy_id_iff: "from_utf8_lossy bs = bs \<longleftrightarrow> utf8_valid bs"
  using from_utf8_lossy_id from_utf8_lossy_valid [of bs] by auto

lemma ascii_valid: "list_all (\<lambda>b. b < 0x80) bs \<Longrightarrow> utf8_valid bs"
  by (induction bs) (simp_all add: utf8_ranges_def)

end
