(* ===== verification/Verification_Plan.thy ===== *)
theory Verification_Plan
  imports Architecture Verdicts Ledger_Event Utf8
begin

text \<open>
  Which checks a candidate has to pass: \<open>verification/plan.rs\<close> of \<open>crates/workflowd\<close>.  The project's
  files, its \<open>package.json\<close> as \<open>serde_json\<close> reads it and the word splitting of the package \<open>shlex\<close>
  come in as a record; new identifiers come from a sequence.
\<close>

section \<open>Gates and plans\<close>

datatype verification_risk = InternalInspection | ProjectCode

datatype verification_executor =
    CandidateIntegrity
  | CommandExecutor "string list" string
  | SecretScan
  | Unavailable string

record verification_gate =
  gate_executor :: verification_executor
  gate_id :: evidence_id
  gate_kind :: evidence_kind
  gate_mandatory :: bool
  gate_name :: string
  precondition :: string
  gate_risk :: verification_risk
  timeout_seconds :: u64

record verification_plan =
  plan_gates :: "verification_gate list"
  plan_identity :: verification_plan_id

datatype verification_plan_error = InvalidCommand | InvalidGate | InvalidProjectConfiguration | PlanIo

definition default_timeout_seconds :: u64 where "default_timeout_seconds = 600"

definition contains_any :: "string \<Rightarrow> string list \<Rightarrow> bool" where
  "contains_any value candidates = list_ex (\<lambda>c. contains_str c value) candidates"

section \<open>Commands\<close>

function trim_end_exe :: "string \<Rightarrow> string" where
  "trim_end_exe s = (if suffix ''.exe'' s then trim_end_exe (take (length s - 4) s) else s)"
  by pat_completeness auto
termination
  by (relation "measure length") (auto simp: suffix_def)

declare trim_end_exe.simps [simp del]

definition slashes :: "string \<Rightarrow> string" where
  "slashes s = map (\<lambda>c. if c = CHR 0x5C then CHR ''/'' else c) s"

definition executable_name :: "string \<Rightarrow> string" where
  "executable_name program =
     to_ascii_lowercase (trim_end_exe (last (split_on (CHR ''/'') (slashes program))))"

definition line_breaking :: "string \<Rightarrow> bool" where
  "line_breaking s \<longleftrightarrow> list_ex (\<lambda>c. c \<in> {CHR 0x00, CHR 0x0A, CHR 0x0D}) s"

definition shell_operators :: "string list" where
  "shell_operators = [''&&'', ''||'', '';'', ''|'', ''<'', ''>'']"

definition forbidden_programs :: "string list" where
  "forbidden_programs =
     [''cmd'', ''del'', ''git'', ''powershell'', ''pwsh'', ''rm'', ''sh'', ''shutdown'']"

definition forbidden_arguments :: "string list" where
  "forbidden_arguments = [''deploy'', ''destroy'', ''drop'', ''publish'', ''push'', ''reset'']"

definition validate_command :: "string \<Rightarrow> string list \<Rightarrow> verification_plan_error + unit" where
  "validate_command program arguments =
     (if blank program \<or> line_breaking program
        \<or> list_ex (\<lambda>a. line_breaking a \<or> a \<in> set shell_operators) arguments
      then Err InvalidCommand
      else if executable_name program \<in> set forbidden_programs
        \<or> list_ex (\<lambda>a. to_ascii_lowercase a \<in> set forbidden_arguments) arguments
      then Err InvalidCommand
      else Ok ())"

text \<open>The first row whose markers the text contains; both parts of the name are kept.\<close>

definition command_classes :: "(string list \<times> string \<times> evidence_kind) list" where
  "command_classes =
     [([''a11y'', ''accessibility'', ''axe''], ''accessibility:'', Browser),
      ([''playwright'', ''cypress'', ''test:e2e'', ''test:browser'', '' e2e''], ''browser:'', Browser),
      ([''database'', ''migration'', ''postgres'', ''mysql'', '' db'', '':db'', ''db:''], ''database:'', Database),
      ([''package:verify'', ''test:package'', ''artifact:verify''], ''package:'', Package),
      ([''security'', ''audit'', ''vulnerab'', ''secret'', ''license''], ''security:'', Security),
      ([''lint'', ''clippy'', ''format'', '' fmt''], ''lint:'', Lint),
      ([''build'', ''compile'', ''typecheck'', '' check''], ''build:'', Build),
      ([''test''], ''test:'', Test)]"

definition classify :: "string \<Rightarrow> string \<times> evidence_kind" where
  "classify command =
     (case find (\<lambda>(markers, _). contains_any (to_ascii_lowercase command) markers) command_classes of
        Some (_, label, kind) \<Rightarrow> (label @ command, kind)
      | None \<Rightarrow> (''command:'' @ command, CommandRun))"

section \<open>Validation\<close>

definition check_gate ::
  "evidence_id list \<times> string list \<Rightarrow> verification_gate \<Rightarrow>
     verification_plan_error + evidence_id list \<times> string list" where
  "check_gate seen g =
     (if gate_id g \<in> set (fst seen) \<or> gate_name g \<in> set (snd seen) \<or> blank (gate_name g)
        \<or> blank (precondition g) \<or> timeout_seconds g = 0 \<or> timeout_seconds g > 7200
      then Err InvalidGate
      else and_then (case gate_executor g of
          CommandExecutor arguments program \<Rightarrow> validate_command program arguments
        | _ \<Rightarrow> Ok ()) (\<lambda>_. Ok (bs_insert (gate_id g) (fst seen), bs_insert (gate_name g) (snd seen))))"

definition plan_validate ::
  "verification_plan_id \<Rightarrow> verification_gate list \<Rightarrow> verification_plan_error + verification_plan" where
  "plan_validate i gs =
     (if gs = [] \<or> length gs > 256 then Err InvalidGate
      else and_then (try_fold check_gate ([], []) gs) (\<lambda>_. Ok \<lparr>plan_gates = gs, plan_identity = i\<rparr>))"

definition plan_evidence_ids :: "verification_plan \<Rightarrow> evidence_id list" where
  "plan_evidence_ids p = map gate_id (plan_gates p)"

section \<open>Discovery\<close>

text \<open>
  \<open>project_file\<close> is \<open>is_file\<close> below the repository; \<open>package_bytes\<close> the reading of \<open>package.json\<close>;
  \<open>string_scripts\<close> the names in \<open>scripts\<close> with a string value, or nothing when the text is no JSON;
  \<open>new_evidence\<close> the identifiers in the order the gates are made.
\<close>

record project_view =
  project_file :: "string \<Rightarrow> bool"
  package_bytes :: "byte list option"
  string_scripts :: "byte list \<Rightarrow> string list option"
  shlex_split :: "string \<Rightarrow> string list option"
  new_evidence :: "nat \<Rightarrow> evidence_id"

type_synonym discovery = "verification_gate list \<times> string list"

definition invocation_key :: "string list \<Rightarrow> string" where
  "invocation_key ws = join_with (CHR 0x1F) ws"

definition add_command ::
  "project_view \<Rightarrow> bool \<Rightarrow> discovery \<Rightarrow> string \<Rightarrow> verification_plan_error + discovery" where
  "add_command V mandatory = (\<lambda>(gs, invocations) command.
     and_then (ok_or (shlex_split V command) InvalidCommand) (\<lambda>ws.
     case ws of [] \<Rightarrow> Err InvalidCommand | program # arguments \<Rightarrow>
     and_then (validate_command program arguments) (\<lambda>_.
     if invocation_key ws \<in> set invocations then Ok (gs, invocations)
     else Ok (gs @ [\<lparr>gate_executor = CommandExecutor arguments program,
         gate_id = new_evidence V (length gs), gate_kind = snd (classify command),
         gate_mandatory = mandatory, gate_name = fst (classify command),
         precondition = ''The project command is configured and the candidate worktree is isolated.'',
         gate_risk = ProjectCode, timeout_seconds = default_timeout_seconds\<rparr>],
       bs_insert (invocation_key ws) invocations))))"

definition script_names :: "string list" where
  "script_names =
     [''format:check'', ''lint'', ''typecheck'', ''check'', ''build'', ''test'', ''test:integration'',
      ''test:database'', ''test:db'', ''db:test'', ''test:e2e'', ''e2e'', ''test:browser'', ''test:a11y'',
      ''test:accessibility'', ''a11y'', ''accessibility'', ''security'', ''audit'', ''audit:dependencies'',
      ''license:check'', ''licenses'', ''test:package'', ''package:verify'']"

definition package_manager :: "project_view \<Rightarrow> string" where
  "package_manager V =
     (if project_file V ''bun.lock'' \<or> project_file V ''bun.lockb'' then ''bun''
      else if project_file V ''pnpm-lock.yaml'' then ''pnpm''
      else if project_file V ''yarn.lock'' then ''yarn''
      else ''npm'')"

definition discover_package_scripts ::
  "project_view \<Rightarrow> discovery \<Rightarrow> verification_plan_error + discovery" where
  "discover_package_scripts V s =
     (if \<not> project_file V ''package.json'' then Ok s
      else and_then (ok_or (package_bytes V) PlanIo) (\<lambda>bytes.
        if length bytes > 4 * 1024 * 1024 then Err InvalidProjectConfiguration
        else and_then (ok_or (string_scripts V bytes) InvalidProjectConfiguration) (\<lambda>scripts.
          try_fold (add_command V True) s
            (map (\<lambda>name. package_manager V @ '' run '' @ name)
              (filter (\<lambda>name. name \<in> set scripts) script_names)))))"

definition cargo_commands :: "string list" where
  "cargo_commands =
     [''cargo fmt --check'', ''cargo clippy --all-targets --all-features -- -D warnings'',
      ''cargo test --all-features'']"

definition discover_cargo :: "project_view \<Rightarrow> discovery \<Rightarrow> verification_plan_error + discovery" where
  "discover_cargo V s =
     (if \<not> project_file V ''Cargo.toml'' then Ok s else try_fold (add_command V True) s cargo_commands)"

definition unavailable ::
  "project_view \<Rightarrow> verification_gate list \<Rightarrow> string \<Rightarrow> evidence_kind \<Rightarrow> string \<Rightarrow> verification_gate" where
  "unavailable V gs name kind reason =
     \<lparr>gate_executor = Unavailable reason, gate_id = new_evidence V (length gs), gate_kind = kind,
      gate_mandatory = True, gate_name = name, precondition = reason, gate_risk = InternalInspection,
      timeout_seconds = 1\<rparr>"

definition database_scope :: "string \<Rightarrow> bool" where
  "database_scope s \<longleftrightarrow> suffix ''.sql'' s
     \<or> contains_any s [''database'', ''migrations'', ''schema'', ''/db'', ''db/'']"

definition user_interface_scope :: "string \<Rightarrow> bool" where
  "user_interface_scope s \<longleftrightarrow>
     list_ex (\<lambda>x. suffix x s) [''.css'', ''.html'', ''.jsx'', ''.svelte'', ''.tsx'', ''.vue'']
     \<or> contains_any s [''components'', ''frontend'', ''pages'', ''ui/'']"

definition dependency_scope :: "string \<Rightarrow> bool" where
  "dependency_scope s \<longleftrightarrow>
     list_ex (\<lambda>x. suffix x s)
       [''bun.lock'', ''bun.lockb'', ''cargo.lock'', ''cargo.toml'', ''composer.json'', ''composer.lock'',
        ''go.mod'', ''go.sum'', ''package-lock.json'', ''package.json'', ''pnpm-lock.yaml'', ''poetry.lock'',
        ''pom.xml'', ''pyproject.toml'', ''requirements.txt'', ''yarn.lock'']"

definition packaging_scope :: "string \<Rightarrow> bool" where
  "packaging_scope s \<longleftrightarrow> dependency_scope s
     \<or> contains_any s [''installer'', ''packaging'', ''release'', ''distribution'', ''dockerfile'']"

text \<open>One demand of the touched scopes: a gate that meets it, or one that is never available.\<close>

definition demand_gate ::
  "project_view \<Rightarrow> bool \<Rightarrow> (verification_gate \<Rightarrow> bool) \<Rightarrow> string \<Rightarrow> evidence_kind \<Rightarrow> string \<Rightarrow>
     verification_gate list \<Rightarrow> verification_gate list" where
  "demand_gate V touched meets name kind reason gs =
     (if touched \<and> \<not> list_ex meets gs then gs @ [unavailable V gs name kind reason] else gs)"

definition audit_gate :: "verification_gate \<Rightarrow> bool" where
  "audit_gate g \<longleftrightarrow> gate_kind g = Security
     \<and> contains_any (gate_name g) [''audit'', ''security'', ''vulnerab''] \<and> gate_executor g \<noteq> SecretScan"

definition license_gate :: "verification_gate \<Rightarrow> bool" where
  "license_gate g \<longleftrightarrow> gate_kind g = Security \<and> contains_str ''license'' (gate_name g)"

definition internal_gates :: "project_view \<Rightarrow> verification_gate list \<Rightarrow> verification_gate list" where
  "internal_gates V gs =
     [\<lparr>gate_executor = SecretScan, gate_id = new_evidence V (length gs), gate_kind = Security,
       gate_mandatory = True, gate_name = ''security:changed-content-secret-scan'',
       precondition = ''A frozen candidate exists.'', gate_risk = InternalInspection,
       timeout_seconds = 120\<rparr>,
      \<lparr>gate_executor = CandidateIntegrity, gate_id = new_evidence V (length gs + 1), gate_kind = Inspection,
       gate_mandatory = True, gate_name = ''candidate:immutable-bytes'',
       precondition = ''The frozen candidate and exact diff are available.'',
       gate_risk = InternalInspection, timeout_seconds = 120\<rparr>]"

definition plan_scopes :: "architecture_plan \<Rightarrow> string list" where
  "plan_scopes a = map (\<lambda>s. slashes (to_ascii_lowercase s)) (concat (map planned_scopes (plan_tasks a)))"

text \<open>
  The demands in the order of the code: the scopes that raise it, the gates that meet it, and the
  gate made when there is none.
\<close>

definition scope_demands ::
  "((string \<Rightarrow> bool) \<times> (verification_gate \<Rightarrow> bool) \<times> string \<times> evidence_kind \<times> string) list" where
  "scope_demands =
     [(database_scope, \<lambda>g. gate_kind g = Database, ''database:real-integration'', Database,
       ''Persistence changes require a project-native real or disposable database check.''),
      (user_interface_scope, \<lambda>g. gate_kind g = Browser, ''browser:affected-user-flow'', Browser,
       ''User-interface changes require a project-native browser flow.''),
      (user_interface_scope, \<lambda>g. prefix ''accessibility:'' (gate_name g),
       ''accessibility:affected-user-flow'', Browser,
       ''User-interface changes require a project-native accessibility check.''),
      (dependency_scope, audit_gate, ''security:dependency-vulnerability'', Security,
       ''Dependency changes require a project-native vulnerability audit.''),
      (dependency_scope, license_gate, ''security:dependency-license'', Security,
       ''Dependency changes require a project-native license policy check.''),
      (packaging_scope, \<lambda>g. gate_kind g = Package, ''package:production-artifact'', Package,
       ''Packaging changes require a project-native production artifact and installation check.'')]"

definition scope_gates ::
  "project_view \<Rightarrow> string list \<Rightarrow> verification_gate list \<Rightarrow> verification_gate list" where
  "scope_gates V scopes gs =
     fold (\<lambda>(raised, meets, name, kind, reason) gs.
         demand_gate V (list_ex raised scopes) meets name kind reason gs) scope_demands gs"

definition discover_for ::
  "project_view \<Rightarrow> architecture_plan \<Rightarrow> verification_plan_id \<Rightarrow>
     verification_plan_error + verification_plan" where
  "discover_for V a i =
     and_then (try_fold (add_command V True) ([], []) (concat (map verification_commands (plan_tasks a)))) (\<lambda>s.
     and_then (discover_package_scripts V s) (\<lambda>s.
     and_then (discover_cargo V s) (\<lambda>(gs, _).
     plan_validate i (scope_gates V (plan_scopes a) (gs @ internal_gates V gs)))))"

section \<open>What the commands leave\<close>

definition gate_invocation :: "verification_gate \<Rightarrow> string option" where
  "gate_invocation g =
     (case gate_executor g of CommandExecutor a p \<Rightarrow> Some (invocation_key (p # a)) | _ \<Rightarrow> None)"

text \<open>The invocations seen are those of the gates, and every gate is mandatory.\<close>

definition discovery_ok :: "discovery \<Rightarrow> bool" where
  "discovery_ok s \<longleftrightarrow> Some ` set (snd s) = gate_invocation ` set (fst s)
     \<and> list_all gate_mandatory (fst s)"

definition script_command :: "project_view \<Rightarrow> string \<Rightarrow> bool" where
  "script_command V c \<longleftrightarrow> (\<exists>bytes scripts name. project_file V ''package.json'' \<and> package_bytes V = Some bytes
     \<and> string_scripts V bytes = Some scripts \<and> name \<in> set scripts \<and> name \<in> set script_names
     \<and> c = package_manager V @ '' run '' @ name)"

lemma add_command_Ok:
  assumes "add_command V m (gs, seen) c = Ok s'"
  obtains program arguments where "shlex_split V c = Some (program # arguments)"
    and "validate_command program arguments = Ok ()"
    and "s' = (if invocation_key (program # arguments) \<in> set seen then (gs, seen)
      else (gs @ [\<lparr>gate_executor = CommandExecutor arguments program,
         gate_id = new_evidence V (length gs), gate_kind = snd (classify c),
         gate_mandatory = m, gate_name = fst (classify c),
         precondition = ''The project command is configured and the candidate worktree is isolated.'',
         gate_risk = ProjectCode, timeout_seconds = default_timeout_seconds\<rparr>],
       bs_insert (invocation_key (program # arguments)) seen))"
proof -
  obtain ws where ws: "shlex_split V c = Some ws"
    using assms by (cases "shlex_split V c") (simp_all add: add_command_def)
  obtain program arguments where w: "ws = program # arguments"
    using assms ws by (cases ws) (simp_all add: add_command_def)
  show thesis
    using assms ws unfolding w
    by (intro that) (auto simp: add_command_def split: if_splits)
qed

lemma add_command_step:
  assumes "add_command V True s c = Ok s'" and "discovery_ok s"
  shows "discovery_ok s' \<and> set (fst s) \<subseteq> set (fst s') \<and> set (snd s) \<subseteq> set (snd s')
    \<and> (\<exists>ws. shlex_split V c = Some ws \<and> ws \<noteq> [] \<and> invocation_key ws \<in> set (snd s'))"
proof -
  obtain gs seen where s: "s = (gs, seen)" by (cases s)
  from assms(1) obtain program arguments where w: "shlex_split V c = Some (program # arguments)"
    and s': "s' = (if invocation_key (program # arguments) \<in> set seen then (gs, seen)
      else (gs @ [\<lparr>gate_executor = CommandExecutor arguments program,
         gate_id = new_evidence V (length gs), gate_kind = snd (classify c),
         gate_mandatory = True, gate_name = fst (classify c),
         precondition = ''The project command is configured and the candidate worktree is isolated.'',
         gate_risk = ProjectCode, timeout_seconds = default_timeout_seconds\<rparr>],
       bs_insert (invocation_key (program # arguments)) seen))"
    unfolding s by (rule add_command_Ok)
  show ?thesis
    using assms(2) unfolding s s' w
    by (auto simp: discovery_ok_def gate_invocation_def set_insort_insert)
qed

lemma add_commands:
  assumes "try_fold (add_command V True) s cs = Ok s'" and "discovery_ok s"
  shows "discovery_ok s' \<and> set (fst s) \<subseteq> set (fst s') \<and> set (snd s) \<subseteq> set (snd s')
    \<and> (\<forall>c \<in> set cs. \<exists>ws. shlex_split V c = Some ws \<and> ws \<noteq> [] \<and> invocation_key ws \<in> set (snd s'))"
  using assms
proof (induction cs arbitrary: s)
  case (Cons c cs)
  from Cons.prems(1) obtain t where t: "add_command V True s c = Ok t"
    and rest: "try_fold (add_command V True) t cs = Ok s'" by auto
  note step = add_command_step [OF t Cons.prems(2)]
  from Cons.IH [OF rest] step show ?case by (auto dest: subsetD)
qed simp

lemma discover_scripts_step:
  assumes "discover_package_scripts V s = Ok s'" and "discovery_ok s"
  shows "discovery_ok s' \<and> set (snd s) \<subseteq> set (snd s')
    \<and> (\<forall>c. script_command V c \<longrightarrow> (\<exists>ws. shlex_split V c = Some ws \<and> ws \<noteq> [] \<and> invocation_key ws \<in> set (snd s')))"
  using assms
  by (auto simp: discover_package_scripts_def script_command_def split: if_splits dest!: add_commands)

lemma discover_cargo_step:
  assumes "discover_cargo V s = Ok s'" and "discovery_ok s"
  shows "discovery_ok s' \<and> set (snd s) \<subseteq> set (snd s')
    \<and> (project_file V ''Cargo.toml'' \<longrightarrow>
        (\<forall>c \<in> set cargo_commands. \<exists>ws. shlex_split V c = Some ws \<and> ws \<noteq> [] \<and> invocation_key ws \<in> set (snd s')))"
  using assms by (auto simp: discover_cargo_def split: if_splits dest!: add_commands)

text \<open>Every command that a plan is to run: of the tasks, of \<open>package.json\<close>, of Cargo.\<close>

definition wanted :: "project_view \<Rightarrow> architecture_plan \<Rightarrow> string \<Rightarrow> bool" where
  "wanted V a c \<longleftrightarrow> c \<in> set (concat (map verification_commands (plan_tasks a))) \<or> script_command V c
     \<or> project_file V ''Cargo.toml'' \<and> c \<in> set cargo_commands"

lemma discover_for_parts:
  assumes "discover_for V a i = Ok p"
  obtains gs invocations where "discovery_ok (gs, invocations)"
    and "\<And>c. wanted V a c \<Longrightarrow> \<exists>ws. shlex_split V c = Some ws \<and> ws \<noteq> [] \<and> invocation_key ws \<in> set invocations"
    and "plan_validate i (scope_gates V (plan_scopes a) (gs @ internal_gates V gs)) = Ok p"
proof -
  from assms obtain s t u where s: "try_fold (add_command V True) ([], [])
        (concat (map verification_commands (plan_tasks a))) = Ok s"
    and t: "discover_package_scripts V s = Ok t" and u: "discover_cargo V t = Ok u"
    and v: "plan_validate i (scope_gates V (plan_scopes a) (fst u @ internal_gates V (fst u))) = Ok p"
    by (auto simp: discover_for_def)
  have "discovery_ok ([], [])" by (simp add: discovery_ok_def)
  note 1 = add_commands [OF s this]
  note 2 = discover_scripts_step [OF t conjunct1 [OF 1]]
  note 3 = discover_cargo_step [OF u conjunct1 [OF 2]]
  have sub: "set (snd s) \<subseteq> set (snd u)" "set (snd t) \<subseteq> set (snd u)" using 2 3 by auto
  show thesis
  proof (rule that [of "fst u" "snd u"])
    show "discovery_ok (fst u, snd u)" using 3 by simp
    show "\<exists>ws. shlex_split V c = Some ws \<and> ws \<noteq> [] \<and> invocation_key ws \<in> set (snd u)" if "wanted V a c" for c
      using that unfolding wanted_def
    proof (elim disjE)
      assume "c \<in> set (concat (map verification_commands (plan_tasks a)))"
      with 1 sub(1) show ?thesis by (meson subsetD)
    next
      assume "script_command V c"
      with 2 sub(2) show ?thesis by (meson subsetD)
    next
      assume "project_file V ''Cargo.toml'' \<and> c \<in> set cargo_commands"
      with 3 show ?thesis by blast
    qed
  qed (rule v)
qed













lemma plan_validate_gates: "plan_validate i gs = Ok p \<Longrightarrow> plan_gates p = gs \<and> plan_identity p = i"
  by (auto simp: plan_validate_def split: if_splits)


lemma check_gates_sound:
  assumes "try_fold check_gate s gs = Ok t"
  shows "distinct (map gate_id gs) \<and> distinct (map gate_name gs)
    \<and> set (map gate_id gs) \<inter> set (fst s) = {} \<and> set (map gate_name gs) \<inter> set (snd s) = {}
    \<and> (\<forall>g \<in> set gs. case gate_executor g of CommandExecutor a p \<Rightarrow> validate_command p a = Ok () | _ \<Rightarrow> True)"
  using assms
proof (induction gs arbitrary: s)
  case (Cons g gs)
  from Cons.prems obtain u where u: "check_gate s g = Ok u" and rest: "try_fold check_gate u gs = Ok t"
    by auto
  from u have "fst u = bs_insert (gate_id g) (fst s)" "snd u = bs_insert (gate_name g) (snd s)"
    and new: "gate_id g \<notin> set (fst s)" "gate_name g \<notin> set (snd s)"
    and command: "case gate_executor g of CommandExecutor a p \<Rightarrow> validate_command p a = Ok () | _ \<Rightarrow> True"
    by (auto simp: check_gate_def split: if_splits verification_executor.splits)
  with Cons.IH [OF rest] show ?case by (auto simp: set_insort_insert)
qed simp

section \<open>What the texts say\<close>

text \<open>
  A lower-case text with slashes, spelled in letters of any case and with any slashes; the scopes and
  names below are given that way.
\<close>

definition spelled :: "string \<Rightarrow> string \<Rightarrow> bool" where
  "spelled v x \<longleftrightarrow> list_all2 (\<lambda>c d. c = d
     \<or> 97 \<le> (of_char d :: nat) \<and> (of_char d :: nat) \<le> 122 \<and> of_char c + 32 = (of_char d :: nat)
     \<or> c = CHR 0x5C \<and> d = CHR ''/'') v x"



definition plain_text :: "string \<Rightarrow> bool" where
  "plain_text x \<longleftrightarrow> list_all (\<lambda>c. ascii_lower c = c \<and> c \<noteq> CHR 0x5C) x"


lemma spelled_char:
  assumes "ascii_lower d = d" and "d \<noteq> CHR 0x5C" and "c = d
     \<or> 97 \<le> (of_char d :: nat) \<and> (of_char d :: nat) \<le> 122 \<and> of_char c + 32 = (of_char d :: nat)
     \<or> c = CHR 0x5C \<and> d = CHR ''/''"
  shows "(if ascii_lower c = CHR 0x5C then CHR ''/'' else ascii_lower c) = d"
  using assms(3)
proof (elim disjE conjE)
  assume range: "97 \<le> (of_char d :: nat)" "(of_char d :: nat) \<le> 122" and c: "of_char c + 32 = (of_char d :: nat)"
  then have "65 \<le> (of_char c :: nat)" "(of_char c :: nat) \<le> 90" by linarith+
  then have "ascii_lower c = char_of (of_char d :: nat)" by (simp only: ascii_lower_def Let_def c) simp
  with assms(2) show ?thesis by simp
qed (use assms in \<open>simp_all add: ascii_lower_def\<close>)

lemma spelled_same:
  assumes "spelled v x" and "plain_text x"
  shows "slashes (to_ascii_lowercase v) = x"
  using assms unfolding spelled_def
proof (induction v x rule: list_all2_induct)
  case (Cons c v d x)
  from Cons.prems have d: "ascii_lower d = d" "d \<noteq> CHR 0x5C" "plain_text x" by (simp_all add: plain_text_def)
  from spelled_char [OF d(1,2) Cons.hyps(1)] Cons.IH [OF d(3)]
  show ?case by (simp add: slashes_def to_ascii_lowercase_def)
qed (simp add: slashes_def to_ascii_lowercase_def)



















text \<open>The name of a program under a directory and with endings is that of the program.\<close>

lemma trim_end_exe_replicate:
  assumes "\<not> suffix ''.exe'' s"
  shows "trim_end_exe (s @ concat (replicate n ''.exe'')) = s"
proof (induction n)
  case 0
  with assms show ?case by (simp add: trim_end_exe.simps [of s])
next
  case (Suc n)
  have "concat (replicate (Suc n) ''.exe'') = concat (replicate n ''.exe'') @ ''.exe''"
    by (induction n) simp_all
  then have "s @ concat (replicate (Suc n) ''.exe'') = (s @ concat (replicate n ''.exe'')) @ ''.exe''" by simp
  then show ?case
    using Suc trim_end_exe.simps [of "(s @ concat (replicate n ''.exe'')) @ ''.exe''"] by (simp add: suffix_def)
qed

lemma forbidden_plain:
  "list_all (\<lambda>x. plain_text x \<and> \<not> suffix ''.exe'' x \<and> CHR ''/'' \<notin> set x) forbidden_programs"
  by code_simp

lemma forbidden_arguments_plain:
  "list_all (\<lambda>x. plain_text x \<and> CHR ''/'' \<notin> set x) forbidden_arguments"
  by code_simp

lemma slashes_id: "CHR 0x5C \<notin> set s \<Longrightarrow> slashes s = s"
  unfolding slashes_def by (rule map_idI) auto

lemma spelled_no_slash:
  assumes "spelled v x" and "plain_text x" and "CHR ''/'' \<notin> set x"
  shows "CHR ''/'' \<notin> set v" "CHR 0x5C \<notin> set v" "to_ascii_lowercase v = x"
proof -
  have lower: "ascii_lower c = CHR ''/'' \<longleftrightarrow> c = CHR ''/''" "c = CHR 0x5C \<Longrightarrow> ascii_lower c = CHR 0x5C" for c
  proof -
    have "(of_char (ascii_lower c) :: nat) = (if 65 \<le> (of_char c :: nat) \<and> (of_char c :: nat) \<le> 90
        then of_char c + 32 else of_char c)"
      by (auto simp: ascii_lower_def Let_def)
    moreover have "ascii_lower c = CHR ''/'' \<longleftrightarrow> (of_char (ascii_lower c) :: nat) = 47"
      "c = CHR ''/'' \<longleftrightarrow> (of_char c :: nat) = 47"
      using of_char_eq_iff [where ?'a = nat, of _ "CHR ''/''"] by simp_all
    ultimately show "ascii_lower c = CHR ''/'' \<longleftrightarrow> c = CHR ''/''" by auto
  qed (simp add: ascii_lower_def)
  have "slashes (to_ascii_lowercase v) = x" by (rule spelled_same [OF assms(1,2)])
  then have "set x = (\<lambda>c. if ascii_lower c = CHR 0x5C then CHR ''/'' else ascii_lower c) ` set v"
    by (auto simp: slashes_def to_ascii_lowercase_def)
  then have "(if ascii_lower c = CHR 0x5C then CHR ''/'' else ascii_lower c) \<in> set x" if "c \<in> set v" for c
    using that by blast
  with assms(3) have chars: "\<forall>c \<in> set v. ascii_lower c \<noteq> CHR 0x5C \<and> ascii_lower c \<noteq> CHR ''/''"
    by metis
  then show "CHR ''/'' \<notin> set v" "CHR 0x5C \<notin> set v" using lower by metis+
  have "slashes (to_ascii_lowercase v) = to_ascii_lowercase v"
    by (rule slashes_id) (use chars in \<open>auto simp: to_ascii_lowercase_def\<close>)
  with spelled_same [OF assms(1,2)] show "to_ascii_lowercase v = x" by simp
qed

lemma spelled_argument: "spelled x word \<Longrightarrow> word \<in> set forbidden_arguments \<Longrightarrow> to_ascii_lowercase x = word"
  using forbidden_arguments_plain spelled_no_slash(3) by (auto simp: list_all_iff)

lemma executable_name_spelled:
  assumes "directory = [] \<or> last directory \<in> {CHR ''/'', CHR 0x5C}" and "spelled base name"
    and "name \<in> set forbidden_programs"
  shows "executable_name (directory @ base @ concat (replicate n ''.exe'')) = name"
proof -
  have name: "plain_text name" "\<not> suffix ''.exe'' name" "CHR ''/'' \<notin> set name"
    using assms(3) forbidden_plain by (auto simp: list_all_iff)
  note base = spelled_no_slash [OF assms(2) name(1,3)]
  have "\<not> suffix ''.exe'' base"
  proof
    assume "suffix ''.exe'' base"
    then have "suffix (to_ascii_lowercase ''.exe'') (to_ascii_lowercase base)"
      by (auto simp: suffix_def to_ascii_lowercase_def)
    moreover have "to_ascii_lowercase ''.exe'' = ''.exe''" by code_simp
    ultimately show False using base(3) name(2) by simp
  qed
  note trim = trim_end_exe_replicate [OF this, of n]
  let ?file = "base @ concat (replicate n ''.exe'')"
  have "CHR ''/'' \<notin> set ?file" "CHR 0x5C \<notin> set ?file" using base(1,2) by auto
  then have "last (split_on (CHR ''/'') (slashes (directory @ ?file))) = ?file"
  proof (cases directory rule: rev_cases)
    case (snoc d c)
    with assms(1) have "slashes (directory @ ?file) = slashes d @ CHR ''/'' # slashes ?file"
      by (auto simp: slashes_def)
    with \<open>CHR ''/'' \<notin> set ?file\<close> slashes_id [OF \<open>CHR 0x5C \<notin> set ?file\<close>] show ?thesis
      by (simp add: split_on_append_sep split_on_single)
  qed (simp add: slashes_id split_on_single)
  then show ?thesis by (simp add: executable_name_def trim base(3))
qed

section \<open>Properties\<close>


text \<open>
  C10. No gate of a plan runs a forbidden program: not under any directory, with slashes of either kind,
  not in letters of another case, and not with any number of \<open>.exe\<close> behind it (in this spelling: see
  \<open>upper_case_ending_passes\<close>).  None of its arguments is an operator of the shell or, in letters of any
  case, a word that publishes, deploys or destroys.
\<close>

theorem planned_commands_are_safe:
  assumes "discover_for V a i = Ok p" and "g \<in> set (plan_gates p)"
    and "gate_executor g = CommandExecutor arguments program"
  shows "(\<forall>directory base n name. program = directory @ base @ concat (replicate n ''.exe'')
        \<and> (directory = [] \<or> last directory \<in> {CHR ''/'', CHR 0x5C}) \<and> spelled base name
        \<longrightarrow> name \<notin> {''cmd'', ''del'', ''git'', ''powershell'', ''pwsh'', ''rm'', ''sh'', ''shutdown''})
    \<and> (\<forall>x \<in> set arguments. x \<notin> {''&&'', ''||'', '';'', ''|'', ''<'', ''>''}
        \<and> (\<forall>word \<in> {''deploy'', ''destroy'', ''drop'', ''publish'', ''push'', ''reset''}. \<not> spelled x word))"
proof -
  from assms(1) obtain gs where "plan_validate i gs = Ok p" by (rule discover_for_parts)
  then obtain t where "try_fold check_gate ([], []) (plan_gates p) = Ok t"
    using plan_validate_gates [of i gs p] by (auto simp: plan_validate_def split: if_splits)
  from check_gates_sound [OF this] assms(2,3) have "validate_command program arguments = Ok ()" by fastforce
  then have program: "executable_name program \<notin> set forbidden_programs"
    and arguments: "\<forall>x \<in> set arguments. x \<notin> set shell_operators \<and> to_ascii_lowercase x \<notin> set forbidden_arguments"
    by (auto simp: validate_command_def list_ex_iff split: if_splits)
  have "name \<notin> set forbidden_programs"
    if "program = directory @ base @ concat (replicate n ''.exe'')"
      "directory = [] \<or> last directory \<in> {CHR ''/'', CHR 0x5C}" "spelled base name" for directory base n name
    using executable_name_spelled [OF that(2,3), of n] program that(1) by metis
  moreover have "\<not> spelled x word" if "x \<in> set arguments" "word \<in> set forbidden_arguments" for x word
    using arguments that spelled_argument by metis
  ultimately show ?thesis using arguments
    by (auto simp: forbidden_programs_def forbidden_arguments_def shell_operators_def)
qed

section \<open>Where the checks fall short\<close>

text \<open>
  The ending \<open>.exe\<close> is cut off before the name is made lower case, so \<open>RM.EXE\<close> is not \<open>rm\<close>.
\<close>

theorem upper_case_ending_passes:
  "validate_command ''rm.exe'' arguments = Err InvalidCommand \<and> validate_command ''RM.EXE'' [] = Ok ()"
proof
  have "\<not> blank ''rm.exe'' \<and> \<not> line_breaking ''rm.exe'' \<and> executable_name ''rm.exe'' \<in> set forbidden_programs"
    by code_simp
  then show "validate_command ''rm.exe'' arguments = Err InvalidCommand"
    by (simp add: validate_command_def)
  show "validate_command ''RM.EXE'' [] = Ok ()" by code_simp
qed

text \<open>
  The name of a security gate starts with the word \<open>security\<close>, one of the words that the demand for
  a vulnerability audit looks for: a licence check alone meets it.
\<close>

definition sample_view :: project_view where
  "sample_view = \<lparr>project_file = \<lambda>_. False, package_bytes = None, string_scripts = \<lambda>_. None,
     shlex_split = \<lambda>s. Some (split_on (CHR '' '') s), new_evidence = \<lambda>n. Id (of_nat n)\<rparr>"

definition sample_plan :: "string \<Rightarrow> string \<Rightarrow> architecture_plan" where
  "sample_plan command scope =
     \<lparr>assumptions = [], integration_checks = [''x''], plan_request_digest = 0, requirements = [], risks = [],
      plan_tasks = [\<lparr>planned_criteria = [''x''], planned_dependencies = [], planned_id = Id 1,
        planned_objective = ''x'', planned_requirement_ids = [''r''], planned_title = ''x'',
        verification_commands = [command], planned_scopes = [scope]\<rparr>]\<rparr>"

theorem licence_check_meets_audit_demand:
  "map_err (\<lambda>_. ()) (and_then (discover_for sample_view (sample_plan ''bun run licenses'' ''go.mod'') (Id 1))
     (\<lambda>p. Ok (map gate_name (plan_gates p)))) =
   Ok [''security:bun run licenses'', ''security:changed-content-secret-scan'',
     ''candidate:immutable-bytes'', ''package:production-artifact'']"
  by code_simp

text \<open>
  Commands are compared by their words with the unit separator in between.  A command with the separator
  in a word keeps another one from being run.
\<close>

theorem separator_hides_a_command:
  "map_err (\<lambda>_. ()) (and_then (try_fold (add_command sample_view True) ([], [])
       [''x a'' @ [CHR 0x1F] @ ''b'', ''x a b'']) (\<lambda>(gs, _). Ok (map gate_executor gs))) =
   Ok [CommandExecutor [''a'' @ [CHR 0x1F] @ ''b''] ''x'']"
  by code_simp

section \<open>Witnesses\<close>

lemma sample_discovered:
  obtains p where "discover_for sample_view (sample_plan ''cargo test'' ''a.SQL'') (Id 1) = Ok p"
    and "\<exists>g \<in> set (plan_gates p). gate_executor g = CommandExecutor [''test''] ''cargo''"
proof -
  have "case discover_for sample_view (sample_plan ''cargo test'' ''a.SQL'') (Id 1) of Inl _ \<Rightarrow> False
    | Inr p \<Rightarrow> list_ex (\<lambda>g. gate_executor g = CommandExecutor [''test''] ''cargo'') (plan_gates p)"
    by code_simp
  with that show thesis by (auto simp: list_ex_iff split: sum.splits)
qed


theorem planned_commands_are_safe_witness:
  "\<exists>p. discover_for sample_view (sample_plan ''cargo test'' ''a.SQL'') (Id 1) = Ok p \<and> \<not> spelled ''test'' ''push''"
proof -
  obtain p g where p: "discover_for sample_view (sample_plan ''cargo test'' ''a.SQL'') (Id 1) = Ok p"
    and g: "g \<in> set (plan_gates p)" "gate_executor g = CommandExecutor [''test''] ''cargo''"
    by (rule sample_discovered) blast
  from planned_commands_are_safe [OF p g] p show ?thesis by auto
qed

end
