(* ===== verification/Verification_Run.thy ===== *)
theory Verification_Run
  imports Verification_Plan Store_Records
begin

text \<open>
  Running the checks on a frozen candidate: \<open>verification/secrets.rs\<close> and \<open>verification/runner.rs\<close> of
  \<open>crates/workflowd\<close>.  What the disk, the processes and the clock answer comes in as records; JSON
  receipts are read by a function of the same record.
\<close>

section \<open>Lines and pieces of text\<close>

text \<open>\<open>str::lines\<close>: a line feed ends a line, with a carriage return before it.\<close>

definition strip_cr :: "string \<Rightarrow> string" where
  "strip_cr s = (if s \<noteq> [] \<and> last s = CHR 0x0D then butlast s else s)"

definition text_lines :: "string \<Rightarrow> string list" where
  "text_lines s =
     (let ls = split_on (CHR 0x0A) s
      in map strip_cr (butlast ls) @ (if last ls = [] then [] else [last ls]))"

text \<open>What follows the first occurrence.\<close>

fun after_first :: "string \<Rightarrow> string \<Rightarrow> string option" where
  "after_first needle [] = (if needle = [] then Some [] else None)"
| "after_first needle (c # s) =
     (if prefix needle (c # s) then Some (drop (length needle) (c # s)) else after_first needle s)"

definition is_quote :: "char \<Rightarrow> bool" where
  "is_quote c \<longleftrightarrow> c = CHR 0x27 \<or> c = CHR 0x22"

definition trim_quotes :: "string \<Rightarrow> string" where
  "trim_quotes s = rev (dropWhile is_quote (rev (dropWhile is_quote s)))"

text \<open>\<open>char::is_control\<close>: the characters up to U+001F and from U+007F to U+009F.\<close>

fun has_control :: "string \<Rightarrow> bool" where
  "has_control [] = False"
| "has_control (c # s) =
     ((of_char c :: nat) < 32 \<or> (of_char c :: nat) = 127
      \<or> (c = CHR 0xC2 \<and> (case s of [] \<Rightarrow> False | d # _ \<Rightarrow> 128 \<le> (of_char d :: nat) \<and> (of_char d :: nat) < 160))
      \<or> has_control s)"

text \<open>The first \<open>n\<close> characters; a byte from 80 to BF continues the one before.\<close>

fun take_chars :: "nat \<Rightarrow> string \<Rightarrow> string" where
  "take_chars n [] = []"
| "take_chars n (c # s) =
     (if 128 \<le> (of_char c :: nat) \<and> (of_char c :: nat) < 192 then c # take_chars n s
      else if n = 0 then [] else c # take_chars (n - 1) s)"

section \<open>The secret scan (secrets.rs)\<close>

definition placeholders :: "string list" where
  "placeholders = [''changeme'', ''example'', ''placeholder'', ''redacted'']"

definition assigned_value :: "string \<Rightarrow> string option" where
  "assigned_value rest =
     (case trim_start rest of
        [] \<Rightarrow> None
      | c # rest \<Rightarrow> if c = CHR ''='' \<or> c = CHR 0x3A then Some (trim_quotes (trim rest)) else None)"

definition assignment :: "string \<Rightarrow> string \<Rightarrow> bool" where
  "assignment line name \<longleftrightarrow>
     (case after_first name line of
        None \<Rightarrow> False
      | Some rest \<Rightarrow> (case assigned_value rest of
            None \<Rightarrow> False
          | Some value \<Rightarrow> 8 \<le> length value \<and> \<not> contains_any value placeholders))"

definition secret_names :: "string list" where
  "secret_names = [''api_key'', ''apikey'', ''password'', ''secret'', ''token'']"

definition sensitive_text :: "string \<Rightarrow> bool" where
  "sensitive_text value \<longleftrightarrow> sensitive_value value
     \<or> list_ex (\<lambda>line. list_ex (assignment (to_ascii_lowercase line)) secret_names) (text_lines value)"

text \<open>The size of a file and its bytes, or the message of the error.\<close>

record repository_view =
  file_size :: "string \<Rightarrow> string + nat"
  file_bytes :: "string \<Rightarrow> string + byte list"

definition lossy_text :: "byte list \<Rightarrow> string" where
  "lossy_text bs = string_of_bytes (from_utf8_lossy bs)"

definition scan_file :: "repository_view \<Rightarrow> candidate_file \<Rightarrow> string + unit" where
  "scan_file R f =
     and_then (file_size R (file_path f)) (\<lambda>size.
     if size > 16 * 1024 * 1024 then Ok ()
     else and_then (file_bytes R (file_path f)) (\<lambda>bytes.
       if sensitive_text (lossy_text bytes)
       then Err (''credential-like content was detected in '' @ file_path f) else Ok ()))"

definition secret_scan :: "repository_view \<Rightarrow> candidate_manifest \<Rightarrow> byte list \<Rightarrow> string + unit" where
  "secret_scan R m diff =
     (if sensitive_text (lossy_text diff)
      then Err ''credential-like content was detected in the exact candidate diff''
      else try_each (scan_file R) (filter (\<lambda>f. file_kind f \<noteq> Deleted) (files m)))"

section \<open>Captured output (runner.rs)\<close>

definition retained_output_bytes :: nat where
  "retained_output_bytes = 1024 * 1024"

record stream_capture =
  capture_bytes :: u64
  capture_seen :: "byte list"
  retained :: "byte list"

text \<open>One turn of the loop for what one read returned; the hasher keeps the bytes it has seen.\<close>

definition capture_step :: "stream_capture \<Rightarrow> byte list \<Rightarrow> stream_capture" where
  "capture_step c chunk =
     \<lparr>capture_bytes = saturating_add (capture_bytes c) (of_nat (length chunk)),
      capture_seen = capture_seen c @ chunk,
      retained = retained c @ take (min (length chunk) (retained_output_bytes - length (retained c))) chunk\<rparr>"

definition capture_stream :: "byte list list \<Rightarrow> stream_capture" where
  "capture_stream chunks = foldl capture_step \<lparr>capture_bytes = 0, capture_seen = [], retained = []\<rparr> chunks"

definition capture_truncated :: "stream_capture \<Rightarrow> bool" where
  "capture_truncated c \<longleftrightarrow> capture_bytes c > of_nat retained_output_bytes"

definition output_domain :: string where
  "output_domain = ''opencode-workflow/verification-output/v1''"

definition combined_digest ::
  "(byte list \<Rightarrow> content_digest) \<Rightarrow> stream_capture \<Rightarrow> stream_capture \<Rightarrow> content_digest" where
  "combined_digest sha out err =
     sha (as_bytes output_domain @ be_u64 (capture_bytes out) @ digest_bytes (sha (capture_seen out))
       @ be_u64 (capture_bytes err) @ digest_bytes (sha (capture_seen err)))"

record command_result =
  result_exit_code :: int
  result_output :: string
  result_digest :: content_digest

text \<open>A process that ends, with its two streams or with pipes that stay open.\<close>

definition pipes_open_text :: string where
  "pipes_open_text = ''Verification process output pipes did not close after the process exited.''"

definition finish_command ::
  "(byte list \<Rightarrow> content_digest) \<Rightarrow> int \<Rightarrow> (stream_capture \<times> stream_capture) option \<Rightarrow> command_result" where
  "finish_command sha code captures =
     (case captures of
        None \<Rightarrow> \<lparr>result_exit_code = - 1, result_output = pipes_open_text,
                 result_digest = sha (as_bytes pipes_open_text)\<rparr>
      | Some (out, err) \<Rightarrow>
          \<lparr>result_exit_code = code,
           result_output = lossy_text (retained out)
             @ (if retained err = [] then [] else CHR 0x0A # ''[stderr]'' @ CHR 0x0A # lossy_text (retained err))
             @ (if capture_truncated out \<or> capture_truncated err
                then CHR 0x0A # ''[output truncated; full output digest retained]'' else []),
           result_digest = combined_digest sha out err\<rparr>)"

text \<open>Nothing stands for a command that could not be run.\<close>

definition probe_tool_version :: "command_result option \<Rightarrow> string" where
  "probe_tool_version r =
     (case r of
        None \<Rightarrow> ''version command unavailable''
      | Some r \<Rightarrow>
          if result_exit_code r \<noteq> 0 then ''version command unavailable''
          else case find (\<lambda>line. line \<noteq> []) (map trim (text_lines (result_output r))) of
              None \<Rightarrow> ''version output unavailable''
            | Some line \<Rightarrow>
                let kept = redact_value (take_chars 512 line)
                in if kept = [] then ''version output unavailable'' else kept)"

section \<open>Managed browser receipts\<close>

record browser_action =
  action_digest :: string
  operation :: string
  action_timestamp :: string
  url :: string

record browser_attestation =
  attested_candidate :: content_digest
  attested_receipt :: content_digest
  receipt_json :: string
  browser_session :: string

definition allowed_operations :: "string list" where
  "allowed_operations =
     [''open'', ''snapshot'', ''click'', ''fill'', ''press'', ''upload'', ''check'', ''screenshot'', ''logs'', ''close'']"

definition is_hex_digit :: "char \<Rightarrow> bool" where
  "is_hex_digit c \<longleftrightarrow> is_lower_hex (ascii_lower c)"

definition action_ok :: "browser_action \<Rightarrow> bool" where
  "action_ok a \<longleftrightarrow> operation a \<in> set allowed_operations
     \<and> length (action_digest a) = 64 \<and> list_all is_hex_digit (action_digest a)
     \<and> \<not> blank (action_timestamp a) \<and> length (action_timestamp a) \<le> 64
     \<and> length (url a) \<le> 4096 \<and> (prefix ''http://'' (url a) \<or> prefix ''https://'' (url a))
     \<and> \<not> has_control (url a)"

text \<open>The loop that counts how far the required operations were met in order.\<close>

definition required_position :: "string list \<Rightarrow> string list \<Rightarrow> nat" where
  "required_position required operations =
     fold (\<lambda>op n. if n < length required \<and> op = required ! n then n + 1 else n) operations 0"

text \<open>\<open>read_receipt\<close> gives the actions and the number of log lines of a receipt.\<close>

definition validate_browser_attestation ::
  "(byte list \<Rightarrow> content_digest) \<Rightarrow> (string \<Rightarrow> (browser_action list \<times> nat) option) \<Rightarrow>
     browser_attestation \<Rightarrow> content_digest \<Rightarrow> string list \<Rightarrow> (string \<times> string list \<times> content_digest) option" where
  "validate_browser_attestation sha read_receipt t candidate required =
     (if attested_candidate t \<noteq> candidate \<or> blank (browser_session t) \<or> length (browser_session t) > 256
        \<or> has_control (browser_session t) \<or> length (receipt_json t) > 2 * 1024 * 1024
        \<or> sha (as_bytes (receipt_json t)) \<noteq> attested_receipt t
      then None
      else case read_receipt (receipt_json t) of None \<Rightarrow> None | Some (actions, logs) \<Rightarrow>
      if actions = [] \<or> length actions > 1024 \<or> logs > 200 then None
      else if \<not> list_all action_ok actions then None
      else
        let operations = map operation actions in
        if last operations \<noteq> ''close'' \<or> length (filter (\<lambda>x. x = ''close'') operations) \<noteq> 1 then None
        else if required_position required operations = length required
          then Some (browser_session t, operations, attested_receipt t)
        else None)"

section \<open>Gates\<close>

definition gate_invocation_text :: "verification_gate \<Rightarrow> string" where
  "gate_invocation_text g =
     (case gate_executor g of
        CandidateIntegrity \<Rightarrow> ''candidate-integrity''
      | CommandExecutor arguments program \<Rightarrow> join_with (CHR '' '') (program # arguments)
      | SecretScan \<Rightarrow> ''changed-content-secret-scan''
      | Unavailable _ \<Rightarrow> gate_name g)"

text \<open>
  What one gate meets: the times, whether the frozen bytes still match (nothing for an error), the
  repository, and the results of the command and of its \<open>--version\<close>.
\<close>

record gate_world =
  gate_started :: workflow_timestamp
  gate_finished :: workflow_timestamp
  frozen_match :: "bool option"
  repository :: repository_view
  version_run :: "command_result option"
  command_run :: "command_result option"

text \<open>What all gates of a run share.\<close>

record run_world =
  run_sha :: "byte list \<Rightarrow> content_digest"
  package_version :: string
  read_receipt :: "string \<Rightarrow> (browser_action list \<times> nat) option"

datatype verification_run_error = CandidateChanged | EvidenceMismatch | RunIo

record gate_result =
  gate_output :: string
  gate_record :: evidence_record

definition required_operations :: "verification_gate \<Rightarrow> string list option" where
  "required_operations g =
     (case gate_executor g of
        Unavailable _ \<Rightarrow>
          if gate_name g = ''browser:affected-user-flow''
          then Some [''open'', ''check'', ''screenshot'', ''logs'', ''close'']
          else if gate_name g = ''accessibility:affected-user-flow'' then Some [''open'', ''snapshot'', ''close'']
          else None
      | _ \<Rightarrow> None)"

fun first_some :: "('a \<Rightarrow> 'b option) \<Rightarrow> 'a list \<Rightarrow> 'b option" where
  "first_some f [] = None"
| "first_some f (x # xs) = (case f x of None \<Rightarrow> first_some f xs | Some y \<Rightarrow> Some y)"

fun join_comma :: "string list \<Rightarrow> string" where
  "join_comma [] = []"
| "join_comma [s] = s"
| "join_comma (s # t # ss) = s @ '', '' @ join_comma (t # ss)"

definition managed_browser_gate ::
  "run_world \<Rightarrow> gate_world \<Rightarrow> verification_gate \<Rightarrow> candidate_manifest \<Rightarrow> browser_attestation list \<Rightarrow>
     gate_result option" where
  "managed_browser_gate W G g m attestations =
     (let digest = candidate_digest (run_sha W) m in
      case required_operations g of None \<Rightarrow> None | Some required \<Rightarrow>
      case first_some (\<lambda>t. validate_browser_attestation (run_sha W) (read_receipt W) t digest required)
        attestations of
        None \<Rightarrow> None
      | Some (session, operations, receipt) \<Rightarrow>
          let output = ''Managed browser receipt '' @ digest_to_string receipt @ '' from session '' @ session
                @ '' passed operations: '' @ join_comma operations @ ''.'';
              rec = \<lparr>evidence_record_id = gate_id g, evidence_candidate = digest, evidence_kind = gate_kind g,
                invocation = gate_invocation_text g, tool = ''opencode-cycle-managed-browser'',
                tool_version = package_version W, started_at = gate_started G, finished_at = gate_finished G,
                exit_code = Some 0, output_digest = run_sha W (as_bytes output), evidence_status = Passed,
                skip_reason = None\<rparr>
          in case evidence_validate rec of Inl _ \<Rightarrow> None
             | Inr _ \<Rightarrow> Some \<lparr>gate_output = redact_value output, gate_record = rec\<rparr>)"

text \<open>Exit code, output, its digest, status, reason to skip, tool and version.\<close>

type_synonym gate_outcome =
  "int option \<times> string \<times> content_digest \<times> evidence_status \<times> string option \<times> string \<times> string"

definition gate_outcome ::
  "run_world \<Rightarrow> gate_world \<Rightarrow> verification_gate \<Rightarrow> candidate_manifest \<Rightarrow> byte list \<Rightarrow>
     verification_run_error + gate_outcome" where
  "gate_outcome W G g m diff =
     (case gate_executor g of
        CandidateIntegrity \<Rightarrow>
          and_then (ok_or (frozen_match G) CandidateChanged) (\<lambda>same.
            let output = (if same then ''Frozen candidate bytes match the manifest.''
                  else ''Frozen candidate bytes no longer match the manifest.'')
            in Ok (Some (if same then 0 else 1), output, run_sha W (as_bytes output),
                 if same then Passed else Failed, None, ''workflow-candidate-integrity'', package_version W))
      | SecretScan \<Rightarrow>
          Ok (case secret_scan (repository G) m diff of
              Inr _ \<Rightarrow> let output = ''No credential-like content was detected in changed files.'' in
                (Some 0, output, run_sha W (as_bytes output), Passed, None, ''workflow-secret-scan'',
                 package_version W)
            | Inl message \<Rightarrow>
                (Some 1, message, run_sha W (as_bytes message), Failed, None, ''workflow-secret-scan'',
                 package_version W))
      | Unavailable reason \<Rightarrow>
          Ok (None, reason, run_sha W (as_bytes reason), Skipped, Some reason, ''unavailable'', ''unavailable'')
      | CommandExecutor arguments program \<Rightarrow>
          and_then (ok_or (command_run G) RunIo) (\<lambda>r.
            Ok (Some (result_exit_code r), result_output r, result_digest r,
              if result_exit_code r = 0 then Passed else Failed, None, program,
              probe_tool_version (version_run G))))"

definition run_gate ::
  "run_world \<Rightarrow> gate_world \<Rightarrow> verification_gate \<Rightarrow> candidate_manifest \<Rightarrow> byte list \<Rightarrow>
     verification_run_error + gate_result" where
  "run_gate W G g m diff =
     and_then (gate_outcome W G g m diff)
       (\<lambda>(code, output, digest, status, reason, tool, version).
     let rec = \<lparr>evidence_record_id = gate_id g, evidence_candidate = candidate_digest (run_sha W) m,
           evidence_kind = gate_kind g, invocation = gate_invocation_text g, tool = tool,
           tool_version = version, started_at = gate_started G, finished_at = gate_finished G,
           exit_code = code, output_digest = digest, evidence_status = status, skip_reason = reason\<rparr>
     in and_then (map_err (\<lambda>_. EvidenceMismatch) (evidence_validate rec)) (\<lambda>_.
          Ok \<lparr>gate_output = redact_value output, gate_record = rec\<rparr>))"

section \<open>The run\<close>

record verification_run =
  infrastructure_blocked :: bool
  mandatory_passed :: bool
  run_outputs :: "(evidence_id, string) btree_map"
  run_records :: "evidence_record list"

definition perform_gate ::
  "run_world \<Rightarrow> gate_world \<Rightarrow> verification_gate \<Rightarrow> candidate_manifest \<Rightarrow> byte list \<Rightarrow>
     browser_attestation list \<Rightarrow> verification_run_error + gate_result" where
  "perform_gate W G g m diff attestations =
     (case managed_browser_gate W G g m attestations of
        Some r \<Rightarrow> Ok r
      | None \<Rightarrow> run_gate W G g m diff)"

definition note_result :: "verification_gate \<Rightarrow> gate_result \<Rightarrow> verification_run \<Rightarrow> verification_run" where
  "note_result g r run =
     (let status = evidence_status (gate_record r); missed = gate_mandatory g \<and> status \<noteq> Passed in
      \<lparr>infrastructure_blocked = infrastructure_blocked run \<or> missed \<and> status = Skipped,
       mandatory_passed = mandatory_passed run \<and> \<not> missed,
       run_outputs = bt_insert (gate_id g) (gate_output r) (run_outputs run),
       run_records = run_records run @ [gate_record r]\<rparr>)"

definition run_gates ::
  "run_world \<Rightarrow> candidate_manifest \<Rightarrow> byte list \<Rightarrow> browser_attestation list \<Rightarrow>
     (verification_gate \<times> gate_world) list \<Rightarrow> verification_run \<Rightarrow> verification_run_error + verification_run" where
  "run_gates W m diff attestations gs run =
     try_fold (\<lambda>run (g, G). and_then (perform_gate W G g m diff attestations) (\<lambda>r.
       Ok (note_result g r run))) run gs"

definition empty_run :: verification_run where
  "empty_run = \<lparr>infrastructure_blocked = False, mandatory_passed = True, run_outputs = [], run_records = []\<rparr>"

text \<open>\<open>matching\<close> is the comparison with the frozen bytes before the first gate.\<close>

definition run_with_attestations ::
  "run_world \<Rightarrow> bool option \<Rightarrow> (nat \<Rightarrow> gate_world) \<Rightarrow> verification_plan \<Rightarrow> candidate_manifest \<Rightarrow> byte list \<Rightarrow>
     browser_attestation list \<Rightarrow> verification_run_error + verification_run" where
  "run_with_attestations W matching worlds p m diff attestations =
     (if set (plan_evidence_ids p) \<noteq> set (manifest_evidence m) then Err EvidenceMismatch
      else if matching \<noteq> Some True then Err CandidateChanged
      else run_gates W m diff attestations
        (zip (plan_gates p) (map worlds [0..<length (plan_gates p)])) empty_run)"

section \<open>One gate\<close>

definition record_of :: "run_world \<Rightarrow> candidate_manifest \<Rightarrow> verification_gate \<Rightarrow> gate_result \<Rightarrow> bool" where
  "record_of W m g r \<longleftrightarrow> evidence_record_id (gate_record r) = gate_id g
     \<and> evidence_candidate (gate_record r) = candidate_digest (run_sha W) m
     \<and> evidence_validate (gate_record r) = Ok () \<and> \<not> sensitive_value (gate_output r)"

lemma run_gate_record: "run_gate W G g m diff = Ok r \<Longrightarrow> record_of W m g r"
  by (auto simp: run_gate_def record_of_def Let_def redact_value_clean)

lemma managed_browser_record: "managed_browser_gate W G g m ats = Some r \<Longrightarrow> record_of W m g r"
  by (auto simp: managed_browser_gate_def record_of_def Let_def redact_value_clean
      split: option.splits sum.splits)

lemma perform_gate_record: "perform_gate W G g m diff ats = Ok r \<Longrightarrow> record_of W m g r"
  by (auto simp: perform_gate_def dest: run_gate_record managed_browser_record split: option.splits)

lemma first_some_Some: "first_some f xs = Some y \<Longrightarrow> \<exists>x \<in> set xs. f x = Some y"
  by (induction xs) (auto split: option.splits)

text \<open>The counting loop decides whether the operations were met in order.\<close>

lemma position_loop:
  "n \<le> length required \<Longrightarrow>
   fold (\<lambda>op n. if n < length required \<and> op = required ! n then n + 1 else n) ops n = length required
   \<longleftrightarrow> subseq (drop n required) ops"
proof (induction ops arbitrary: n)
  case Nil
  then show ?case by (auto dest!: list_emb_length)
next
  case (Cons op ops)
  show ?case
  proof (cases "n < length required")
    case True
    then have d: "drop n required = required ! n # drop (n + 1) required" by (simp add: Cons_nth_drop_Suc)
    show ?thesis
      using Cons.IH [of "n + 1"] Cons.IH [of n] True by (cases "op = required ! n") (simp_all add: d)
  next
    case False
    with Cons show ?thesis by simp
  qed
qed

lemma required_position_iff:
  "required_position required ops = length required \<longleftrightarrow> subseq required ops"
  using position_loop [of 0 required ops] by (simp add: required_position_def)

lemma attestation_accepted:
  assumes "validate_browser_attestation sha receipt t digest required = Some v"
  shows "attested_candidate t = digest \<and> sha (as_bytes (receipt_json t)) = attested_receipt t
    \<and> (\<exists>actions logs. receipt (receipt_json t) = Some (actions, logs) \<and> list_all action_ok actions
        \<and> subseq required (map operation actions))"
  using assms by (auto simp: validate_browser_attestation_def required_position_iff Let_def
      split: if_splits option.splits)

section \<open>The loop over the gates\<close>

definition run_reports ::
  "run_world \<Rightarrow> candidate_manifest \<Rightarrow> verification_run \<Rightarrow> (verification_gate \<times> gate_result) list \<Rightarrow>
     verification_run \<Rightarrow> bool" where
  "run_reports W m run rs run' \<longleftrightarrow> run_records run' = run_records run @ map (gate_record \<circ> snd) rs
     \<and> (\<forall>(g, r) \<in> set rs. record_of W m g r)
     \<and> mandatory_passed run' = (mandatory_passed run
         \<and> (\<forall>(g, r) \<in> set rs. gate_mandatory g \<longrightarrow> evidence_status (gate_record r) = Passed))
     \<and> infrastructure_blocked run' = (infrastructure_blocked run
         \<or> (\<exists>(g, r) \<in> set rs. gate_mandatory g \<and> evidence_status (gate_record r) = Skipped))
     \<and> run_outputs run' = fold (\<lambda>(g, r). bt_insert (gate_id g) (gate_output r)) rs (run_outputs run)"

lemma run_gates_reports:
  assumes "run_gates W m diff ats gs run = Ok run'"
  shows "\<exists>rs. map fst rs = map fst gs \<and> run_reports W m run rs run'"
  using assms
proof (induction gs arbitrary: run)
  case Nil
  then show ?case by (simp add: run_gates_def run_reports_def)
next
  case (Cons x gs)
  obtain g G where x: "x = (g, G)" by (cases x)
  from Cons.prems obtain r where r: "perform_gate W G g m diff ats = Ok r"
    and rest: "run_gates W m diff ats gs (note_result g r run) = Ok run'"
    by (auto simp: run_gates_def x)
  from Cons.IH [OF rest] obtain rs where rs: "map fst rs = map fst gs"
    "run_reports W m (note_result g r run) rs run'" by blast
  with perform_gate_record [OF r] show ?case
    by (intro exI [of _ "(g, r) # rs"]) (auto simp: x run_reports_def note_result_def Let_def)
qed

definition output_map :: "(verification_gate \<times> gate_result) list \<Rightarrow> (evidence_id, string) btree_map \<Rightarrow>
    (evidence_id, string) btree_map" where
  "output_map rs m = fold (\<lambda>(g, r). bt_insert (gate_id g) (gate_output r)) rs m"

lemma output_map_get:
  "bt_wf m \<Longrightarrow> bt_get (output_map rs m) k = Some v \<Longrightarrow>
   bt_get m k = Some v \<or> v \<in> (gate_output \<circ> snd) ` set rs"
proof (induction rs arbitrary: m)
  case (Cons x rs)
  have "bt_wf (bt_insert (gate_id (fst x)) (gate_output (snd x)) m)"
    by (rule bt_wf_insert [OF Cons.prems(1)])
  from Cons.IH [OF this] Cons.prems show ?case
    by (auto simp: output_map_def split_beta bt_get_insert split: if_splits)
qed (simp add: output_map_def)

lemma output_map_has:
  "bt_wf m \<Longrightarrow> k \<in> gate_id ` fst ` set rs \<or> bt_get m k \<noteq> None \<Longrightarrow> bt_get (output_map rs m) k \<noteq> None"
proof (induction rs arbitrary: m)
  case (Cons x rs)
  have "bt_wf (bt_insert (gate_id (fst x)) (gate_output (snd x)) m)"
    by (rule bt_wf_insert [OF Cons.prems(1)])
  from Cons.IH [OF this] Cons.prems show ?case
    by (auto simp: output_map_def split_beta bt_get_insert)
qed (simp add: output_map_def)

section \<open>What was captured\<close>

definition capture_ok :: "stream_capture \<Rightarrow> bool" where
  "capture_ok c \<longleftrightarrow> retained c = take retained_output_bytes (capture_seen c)
     \<and> unat (capture_bytes c) = min (length (capture_seen c)) (2 ^ 64 - 1)"

lemma capture_step_ok:
  assumes "capture_ok c" and "length x < 2 ^ 64"
  shows "capture_ok (capture_step c x)" and "capture_seen (capture_step c x) = capture_seen c @ x"
proof -
  have "retained (capture_step c x) = take retained_output_bytes (capture_seen c @ x)"
    using assms(1) by (simp add: capture_ok_def capture_step_def min_def)
  moreover have "unat (capture_bytes (capture_step c x)) = min (length (capture_seen c @ x)) (2 ^ 64 - 1)"
    using assms by (simp add: capture_ok_def capture_step_def unat_saturating_add unat_of_nat min_def)
  ultimately show "capture_ok (capture_step c x)"
    by (simp add: capture_ok_def capture_step_def)
  show "capture_seen (capture_step c x) = capture_seen c @ x" by (simp add: capture_step_def)
qed

lemma capture_fold:
  "capture_ok c \<Longrightarrow> \<forall>x \<in> set chunks. length x < 2 ^ 64 \<Longrightarrow>
   capture_ok (foldl capture_step c chunks)
   \<and> capture_seen (foldl capture_step c chunks) = capture_seen c @ concat chunks"
  by (induction chunks arbitrary: c) (simp_all add: capture_step_ok)

section \<open>Properties\<close>

text \<open>
  C8. A run reports one valid record per gate, in the order of the plan and bound to the candidate.  It
  passes exactly when every mandatory gate passed, it counts as blocked exactly when a mandatory gate
  was skipped, and no output that it keeps has a value the redactor would remove.
\<close>

theorem verification_run_reports:
  assumes "run_with_attestations W matching worlds p m diff ats = Ok run"
  shows "map evidence_record_id (run_records run) = plan_evidence_ids p
    \<and> (\<forall>x \<in> set (run_records run). evidence_candidate x = candidate_digest (run_sha W) m
        \<and> evidence_validate x = Ok ()
        \<and> (\<exists>out. bt_get (run_outputs run) (evidence_record_id x) = Some out \<and> \<not> sensitive_value out))
    \<and> mandatory_passed run = (\<forall>(g, x) \<in> set (zip (plan_gates p) (run_records run)).
        gate_mandatory g \<longrightarrow> evidence_status x = Passed)
    \<and> infrastructure_blocked run = (\<exists>(g, x) \<in> set (zip (plan_gates p) (run_records run)).
        gate_mandatory g \<and> evidence_status x = Skipped)"
proof -
  define gs where "gs = zip (plan_gates p) (map worlds [0..<length (plan_gates p)])"
  have "run_gates W m diff ats gs empty_run = Ok run"
    using assms by (simp add: run_with_attestations_def gs_def split: if_splits)
  from run_gates_reports [OF this] obtain rs where fst: "map fst rs = plan_gates p"
    and rep: "run_reports W m empty_run rs run" by (auto simp: gs_def)
  have records: "run_records run = map (gate_record \<circ> snd) rs"
    and each: "\<forall>(g, r) \<in> set rs. record_of W m g r"
    and outputs: "run_outputs run = output_map rs []"
    using rep by (simp_all add: run_reports_def empty_run_def output_map_def)
  have zip: "zip (plan_gates p) (run_records run) = map (\<lambda>(g, r). (g, gate_record r)) rs"
    unfolding records fst [symmetric] by (induction rs) auto
  have out: "\<exists>v. bt_get (run_outputs run) (gate_id g) = Some v \<and> \<not> sensitive_value v"
    if "(g, r) \<in> set rs" for g r
  proof -
    from that have "gate_id g \<in> gate_id ` fst ` set rs" by force
    with output_map_has [of "[]" "gate_id g" rs] obtain v
      where v: "bt_get (output_map rs []) (gate_id g) = Some v" by auto
    from output_map_get [OF _ v] each have "\<not> sensitive_value v" by (auto simp: record_of_def)
    with v show ?thesis by (simp add: outputs)
  qed
  have ids: "map evidence_record_id (run_records run) = plan_evidence_ids p"
    unfolding records plan_evidence_ids_def fst [symmetric] using each
    by (auto simp: record_of_def)
  have all: "evidence_candidate x = candidate_digest (run_sha W) m \<and> evidence_validate x = Ok ()
      \<and> (\<exists>out. bt_get (run_outputs run) (evidence_record_id x) = Some out \<and> \<not> sensitive_value out)"
    if "x \<in> set (run_records run)" for x
    using that each out by (auto simp: records record_of_def)
  have "mandatory_passed run = (\<forall>(g, x) \<in> set (zip (plan_gates p) (run_records run)).
      gate_mandatory g \<longrightarrow> evidence_status x = Passed)"
    unfolding zip using rep by (simp add: run_reports_def empty_run_def split_beta)
  moreover have "infrastructure_blocked run = (\<exists>(g, x) \<in> set (zip (plan_gates p) (run_records run)).
      gate_mandatory g \<and> evidence_status x = Skipped)"
    unfolding zip using rep by (simp add: run_reports_def empty_run_def split_beta)
  ultimately show ?thesis using ids all by blast
qed

text \<open>
  C11. A gate that no project command serves passes only with a receipt of a managed browser: its digest
  is the attested one, it was given for this candidate, and the operations the gate requires occur in
  it in their order.
\<close>

theorem unavailable_gate_needs_receipt:
  assumes "perform_gate W G g m diff ats = Ok r" and "gate_executor g = Unavailable reason"
    and "evidence_status (gate_record r) = Passed"
  shows "\<exists>t \<in> set ats. \<exists>required actions logs. required_operations g = Some required
    \<and> attested_candidate t = candidate_digest (run_sha W) m
    \<and> run_sha W (as_bytes (receipt_json t)) = attested_receipt t
    \<and> read_receipt W (receipt_json t) = Some (actions, logs)
    \<and> list_all action_ok actions \<and> subseq required (map operation actions)"
proof (cases "managed_browser_gate W G g m ats")
  case None
  with assms show ?thesis
    by (auto simp: perform_gate_def run_gate_def gate_outcome_def Let_def)
next
  case (Some x)
  then obtain required v where r: "required_operations g = Some required"
    and v: "first_some (\<lambda>t. validate_browser_attestation (run_sha W) (read_receipt W) t
      (candidate_digest (run_sha W) m) required) ats = Some v"
    by (auto simp: managed_browser_gate_def Let_def split: option.splits)
  from first_some_Some [OF v] obtain t where t: "t \<in> set ats"
    "validate_browser_attestation (run_sha W) (read_receipt W) t (candidate_digest (run_sha W) m) required
      = Some v" by blast
  from attestation_accepted [OF t(2)] t(1) r show ?thesis by blast
qed

text \<open>
  However a stream is cut into reads, the capture keeps its first mebibyte, counts its bytes, and
  calls the output truncated exactly when there was more.
\<close>

theorem capture_keeps_prefix:
  assumes "length (concat chunks) < 2 ^ 64"
  shows "retained (capture_stream chunks) = take retained_output_bytes (concat chunks)
    \<and> capture_seen (capture_stream chunks) = concat chunks
    \<and> unat (capture_bytes (capture_stream chunks)) = length (concat chunks)
    \<and> capture_truncated (capture_stream chunks) = (length (concat chunks) > retained_output_bytes)"
proof -
  have "length x < 2 ^ 64" if "x \<in> set chunks" for x
  proof -
    from that have "length x \<le> length (concat chunks)"
      by (induction chunks) (auto intro: trans_le_add2)
    with assms show ?thesis by simp
  qed
  moreover have "capture_ok \<lparr>capture_bytes = 0, capture_seen = [], retained = []\<rparr>"
    by (simp add: capture_ok_def)
  ultimately have ok: "capture_ok (capture_stream chunks)"
    and seen: "capture_seen (capture_stream chunks) = concat chunks"
    using capture_fold [of "\<lparr>capture_bytes = 0, capture_seen = [], retained = []\<rparr>" chunks]
    by (simp_all add: capture_stream_def)
  then have bytes: "unat (capture_bytes (capture_stream chunks)) = length (concat chunks)"
    using assms by (simp add: capture_ok_def min_def)
  moreover have "unat (of_nat retained_output_bytes :: u64) = retained_output_bytes"
    by (simp add: retained_output_bytes_def)
  ultimately show ?thesis
    using ok seen by (simp add: capture_ok_def capture_truncated_def word_less_nat_alt)
qed

section \<open>Where the scan falls short\<close>

text \<open>Only the first occurrence of a name in a line is looked at.\<close>

theorem second_assignment_is_missed:
  "sensitive_text ''token=hunter2hunter2'' \<and> \<not> sensitive_text ''token_kind, token=hunter2hunter2''"
  by code_simp

section \<open>Witnesses\<close>

definition sample_gate :: verification_gate where
  "sample_gate = \<lparr>gate_executor = Unavailable ''no flow'', gate_id = Id 1, gate_kind = Browser,
     gate_mandatory = True, gate_name = ''accessibility:affected-user-flow'', precondition = ''no flow'',
     gate_risk = InternalInspection, timeout_seconds = 1\<rparr>"

definition sample_action :: "string \<Rightarrow> browser_action" where
  "sample_action op = \<lparr>action_digest = replicate 64 (CHR ''a''), operation = op,
     action_timestamp = ''now'', url = ''http://localhost''\<rparr>"

definition sample_world :: run_world where
  "sample_world = \<lparr>run_sha = \<lambda>_. 0, package_version = ''1'',
     read_receipt = \<lambda>_. Some (map sample_action [''open'', ''click'', ''snapshot'', ''close''], 0)\<rparr>"

definition sample_gate_world :: gate_world where
  "sample_gate_world = \<lparr>gate_started = 1, gate_finished = 2, frozen_match = Some True,
     repository = \<lparr>file_size = \<lambda>_. Ok 0, file_bytes = \<lambda>_. Ok []\<rparr>, version_run = None, command_run = None\<rparr>"

definition sample_attestation :: browser_attestation where
  "sample_attestation = \<lparr>attested_candidate = 0, attested_receipt = 0, receipt_json = [],
     browser_session = ''s''\<rparr>"

definition sample_run_manifest :: candidate_manifest where
  "sample_run_manifest = \<lparr>manifest_id = Id 1, base_revision = None, files = [], diff_digest = 0,
     dependency_state_digest = 0, configuration_digest = 0, environment_digest = 0,
     delivery_payload_digest = None, manifest_evidence = [Id 1]\<rparr>"

lemma sample_digest: "candidate_digest (run_sha sample_world) sample_run_manifest = 0"
  by (simp add: candidate_digest_def sample_world_def)

lemma sample_actions_ok:
  "list_all action_ok (map sample_action [''open'', ''click'', ''snapshot'', ''close''])"
proof -
  have "\<not> blank ''now'' \<and> prefix ''http://'' ''http://localhost'' \<and> \<not> has_control ''http://localhost''
    \<and> is_hex_digit (CHR ''a'')" by code_simp
  then show ?thesis by (simp add: action_ok_def sample_action_def allowed_operations_def list_all_iff)
qed

lemma sample_gate_receipt:
  "first_some (\<lambda>t. validate_browser_attestation (run_sha sample_world) (read_receipt sample_world) t 0
     [''open'', ''snapshot'', ''close'']) [sample_attestation]
   = Some (''s'', [''open'', ''click'', ''snapshot'', ''close''], 0)"
proof -
  have "\<not> blank ''s'' \<and> \<not> has_control ''s''
    \<and> required_position [''open'', ''snapshot'', ''close''] [''open'', ''click'', ''snapshot'', ''close''] = 3"
    by code_simp
  then show ?thesis
    using sample_actions_ok
    by (simp add: validate_browser_attestation_def sample_world_def sample_attestation_def o_def)
      (simp add: sample_action_def)
qed

lemma sample_performed:
  obtains r where "perform_gate sample_world sample_gate_world sample_gate sample_run_manifest [] [sample_attestation]
      = Ok r" and "evidence_status (gate_record r) = Passed"
proof -
  have "required_operations sample_gate = Some [''open'', ''snapshot'', ''close'']" by code_simp
  moreover have "\<not> blank (gate_invocation_text sample_gate) \<and> \<not> blank ''opencode-cycle-managed-browser''"
    by code_simp
  ultimately show thesis
    using that by (simp add: perform_gate_def managed_browser_gate_def sample_digest sample_gate_receipt
      evidence_validate_def sample_gate_world_def Let_def del: first_some.simps)
qed

definition sample_verification_plan :: verification_plan where
  "sample_verification_plan = \<lparr>plan_gates = [sample_gate], plan_identity = Id 1\<rparr>"

lemma sample_run:
  obtains run where "run_with_attestations sample_world (Some True) (\<lambda>_. sample_gate_world)
      sample_verification_plan sample_run_manifest [] [sample_attestation] = Ok run"
    and "run_records run \<noteq> []"
proof -
  obtain r where r: "perform_gate sample_world sample_gate_world sample_gate sample_run_manifest []
      [sample_attestation] = Ok r" by (rule sample_performed)
  have "set (plan_evidence_ids sample_verification_plan) = set (manifest_evidence sample_run_manifest)"
    "plan_gates sample_verification_plan = [sample_gate]"
    by (simp_all add: plan_evidence_ids_def sample_verification_plan_def sample_gate_def sample_run_manifest_def)
  with r that show thesis
    by (simp add: run_with_attestations_def run_gates_def note_result_def Let_def)
qed

theorem verification_run_reports_witness:
  "\<exists>run. run_with_attestations sample_world (Some True) (\<lambda>_. sample_gate_world)
      sample_verification_plan sample_run_manifest [] [sample_attestation] = Ok run
    \<and> map evidence_record_id (run_records run) = [Id 1]"
proof -
  obtain run where run: "run_with_attestations sample_world (Some True) (\<lambda>_. sample_gate_world)
      sample_verification_plan sample_run_manifest [] [sample_attestation] = Ok run"
    by (rule sample_run)
  from verification_run_reports [OF run] run show ?thesis
    by (intro exI [of _ run])
      (simp add: plan_evidence_ids_def sample_verification_plan_def sample_gate_def)
qed

theorem unavailable_gate_needs_receipt_witness:
  "\<exists>t \<in> {sample_attestation}. attested_candidate t = candidate_digest (run_sha sample_world) sample_run_manifest"
proof -
  obtain r where "perform_gate sample_world sample_gate_world sample_gate sample_run_manifest []
      [sample_attestation] = Ok r" and "evidence_status (gate_record r) = Passed"
    by (rule sample_performed)
  from unavailable_gate_needs_receipt [OF this(1) _ this(2), of "''no flow''"]
  show ?thesis by (auto simp: sample_gate_def)
qed

theorem capture_keeps_prefix_witness:
  "retained (capture_stream [[1, 2], [], [3]]) = take retained_output_bytes [1, 2, 3]"
  using capture_keeps_prefix [of "[[1, 2], [], [3]]"] by simp

end
