(* ===== verification/Daemon_Tables.thy ===== *)
theory Daemon_Tables
  imports Store Receipt Essentiality Routing Verification_Run "HOL-Library.Product_Lexorder"
begin

text \<open>
  The tables of \<open>crates/workflow-store\<close> that the daemon's requests use beside the aggregates:
  requests, architecture plans and their versions, constraints, reviews, arbitrations, the ledger
  and its checkpoints (\<open>requests.rs\<close>, \<open>architecture.rs\<close>, \<open>constraints.rs\<close>, \<open>reviews.rs\<close>,
  \<open>arbitration.rs\<close>, \<open>ledger.rs\<close>).  Equal JSON texts are equal values.
\<close>

section \<open>State\<close>

text \<open>What the operations call and the sources do not define.\<close>

record ambient =
  sha256 :: "byte list \<Rightarrow> content_digest"
  rfc3339_text :: "workflow_timestamp \<Rightarrow> string"
  listing_json :: "(string \<times> string \<times> bool) list \<Rightarrow> byte list"
  event_json :: "ledger_event \<Rightarrow> unit + byte list"
  plan_json :: "architecture_plan \<Rightarrow> byte list"
  verdict_json :: "arbiter_verdict \<Rightarrow> byte list"
  review_json :: "review_verdict \<Rightarrow> byte list"
  policy_json :: "essentiality_policy \<Rightarrow> byte list"
  verify_strict :: "byte list \<Rightarrow> byte list \<Rightarrow> byte list \<Rightarrow> bool"
  is_public_key :: "byte list \<Rightarrow> bool"
  ledger_key :: checkpoint_key
  nanos_in_range :: "int \<Rightarrow> bool"
  uuid_text :: "uuid \<Rightarrow> string"
  plan_text :: "verification_plan \<Rightarrow> string"
  read_plan :: "string \<Rightarrow> verification_plan option"
  rationale_json :: "(risk_category, string list) btree_map \<Rightarrow> string"

record daemon =
  tables :: store
  request_rows :: "(workflow_id, project_id \<times> request_record \<times> string) btree_map"
  architecture_rows :: "(workflow_id, architecture_plan) btree_map"
  version_rows :: "(workflow_id \<times> nat \<times> architecture_plan) list"
  constraint_rows :: "(workflow_id \<times> string, content_digest \<times> byte list) btree_map"
  review_rows :: "(candidate_id \<times> string, review_verdict) btree_map"
  arbitration_rows :: "(candidate_id, workflow_id \<times> arbiter_verdict \<times> arbitration_receipt) btree_map"
  ledger :: ledger_chain
  checkpoint_rows :: "(u64, checkpoint) btree_map"

definition empty_daemon :: daemon where
  "empty_daemon = \<lparr>tables = empty_store, request_rows = [], architecture_rows = [], version_rows = [],
     constraint_rows = [], review_rows = [], arbitration_rows = [], ledger = empty_chain,
     checkpoint_rows = []\<rparr>"

type_synonym 'a daemon_result = "daemon \<times> (store_error + 'a)"

text \<open>The digests of plans and verdicts, over their JSON text.\<close>

definition plan_digest :: "ambient \<Rightarrow> architecture_plan \<Rightarrow> content_digest" where
  "plan_digest E p = sha256 E (plan_json E p)"

definition verdict_digest :: "ambient \<Rightarrow> arbiter_verdict \<Rightarrow> content_digest" where
  "verdict_digest E v = sha256 E (verdict_json E v)"

definition review_digest :: "ambient \<Rightarrow> review_verdict \<Rightarrow> content_digest" where
  "review_digest E v = sha256 E (review_json E v)"

definition manifest_digest :: "ambient \<Rightarrow> candidate_manifest \<Rightarrow> content_digest" where
  "manifest_digest E m = candidate_digest (sha256 E) m"

text \<open>Loading a candidate; a panic ends the request.\<close>

definition candidate_of :: "ambient \<Rightarrow> daemon \<Rightarrow> candidate_id \<Rightarrow> store_error + stored_candidate option" where
  "candidate_of E d c =
     (case load_candidate (sha256 E) (listing_json E) (tables d) c of None \<Rightarrow> Err Panicked | Some r \<Rightarrow> r)"

section \<open>Requests (requests.rs)\<close>

text \<open>Ordered by the text of the creation time and then by the identifier, both descending.\<close>

definition latest_workflow_for_project :: "daemon \<Rightarrow> project_id \<Rightarrow> workflow_id option" where
  "latest_workflow_for_project d p =
     map_option fst (fold (\<lambda>(w, q, _, created) best.
        if q \<noteq> p then best
        else case best of None \<Rightarrow> Some (w, created)
          | Some (v, text) \<Rightarrow> if created > text \<or> created = text \<and> w > v then Some (w, created) else best)
       (request_rows d) None)"

definition save_request_once ::
  "daemon \<Rightarrow> workflow_id \<Rightarrow> project_id \<Rightarrow> request_record \<Rightarrow> string \<Rightarrow> bool daemon_result" where
  "save_request_once d w p request created =
     (if \<not> read_write (tables d) then (d, Err StoreReadOnly)
      else case bt_get (request_rows d) w of
        Some (q, r, _) \<Rightarrow> (d, if q \<noteq> p \<or> r \<noteq> request then Err AggregateConflict else Ok True)
      | None \<Rightarrow> (d\<lparr>request_rows := bt_insert w (p, request, created) (request_rows d)\<rparr>, Ok False))"

definition load_request :: "daemon \<Rightarrow> workflow_id \<Rightarrow> store_error + (project_id \<times> request_record) option" where
  "load_request d w =
     (case bt_get (request_rows d) w of
        None \<Rightarrow> Ok None
      | Some (p, r, _) \<Rightarrow> and_then (map_err (\<lambda>_. SerializationError) (request_try_from r)) (\<lambda>r. Ok (Some (p, r))))"

section \<open>Architecture plans (architecture.rs)\<close>

definition load_architecture :: "daemon \<Rightarrow> workflow_id \<Rightarrow> store_error + architecture_plan option" where
  "load_architecture d w =
     (case bt_get (architecture_rows d) w of
        None \<Rightarrow> Ok None
      | Some p \<Rightarrow> (case architecture_try_from p of
            None \<Rightarrow> Err Panicked
          | Some (Inl _) \<Rightarrow> Err SerializationError
          | Some (Inr p) \<Rightarrow> Ok (Some p)))"

definition latest_revision :: "daemon \<Rightarrow> workflow_id \<Rightarrow> nat" where
  "latest_revision d w = fold (\<lambda>(v, n, _) m. if v = w then max n m else m) (version_rows d) 0"

definition save_architecture_once ::
  "ambient \<Rightarrow> daemon \<Rightarrow> workflow_id \<Rightarrow> architecture_plan \<Rightarrow> bool daemon_result" where
  "save_architecture_once E d w plan =
     (if \<not> read_write (tables d) then (d, Err StoreReadOnly)
      else case bt_get (request_rows d) w of None \<Rightarrow> (d, Err AggregateConflict) | Some (_, request, _) \<Rightarrow>
      case request_try_from request of Inl _ \<Rightarrow> (d, Err SerializationError) | Inr request \<Rightarrow>
      if request_digest (sha256 E) (rfc3339_text E) request \<noteq> plan_request_digest plan
      then (d, Err RequestDigestMismatch)
      else case bt_get (architecture_rows d) w of
        Some stored \<Rightarrow>
          if stored = plan then (d, Ok True)
          else (case load_workflow (tables d) w of None \<Rightarrow> (d, Err SqliteError) | Some state \<Rightarrow>
            if wf_state state \<noteq> Workflow.Architecture \<or> wf_cycles state = 0 then (d, Err AggregateConflict)
            else
              let revision = latest_revision d w + 1 in
              if revision \<ge> 2 ^ 32 then (d, Err SqliteError)
              else (d\<lparr>architecture_rows := bt_set w plan (architecture_rows d),
                      version_rows := version_rows d @ [(w, revision, plan)]\<rparr>, Ok False))
      | None \<Rightarrow>
          if latest_revision d w \<ge> 1 then (d, Err SqliteError)
          else (d\<lparr>architecture_rows := bt_insert w plan (architecture_rows d),
                  version_rows := version_rows d @ [(w, 1, plan)]\<rparr>, Ok False))"

definition load_architecture_versions :: "daemon \<Rightarrow> workflow_id \<Rightarrow> (nat \<times> architecture_plan) list" where
  "load_architecture_versions d w =
     sort_key fst (map snd (filter (\<lambda>(v, _). v = w) (version_rows d)))"

section \<open>Constraints (constraints.rs)\<close>

definition save_constraint_once ::
  "daemon \<Rightarrow> workflow_id \<Rightarrow> string \<Rightarrow> content_digest \<Rightarrow> byte list \<Rightarrow> bool daemon_result" where
  "save_constraint_once d w kind digest json =
     (if \<not> read_write (tables d) then (d, Err StoreReadOnly)
      else if kind = [] \<or> length kind > 64 then (d, Err AggregateConflict)
      else case bt_get (constraint_rows d) (w, kind) of
        Some row \<Rightarrow> (d, if row \<noteq> (digest, json) then Err AggregateConflict else Ok True)
      | None \<Rightarrow>
          if bt_get (request_rows d) w = None then (d, Err SqliteError)
          else (d\<lparr>constraint_rows := bt_insert (w, kind) (digest, json) (constraint_rows d)\<rparr>, Ok False))"

definition load_constraint :: "daemon \<Rightarrow> workflow_id \<Rightarrow> string \<Rightarrow> byte list option" where
  "load_constraint d w kind = map_option snd (bt_get (constraint_rows d) (w, kind))"

section \<open>Reviews (reviews.rs)\<close>

fun review_role_text :: "workflow_role \<Rightarrow> string option" where
  "review_role_text FunctionalReviewer = Some ''functional_reviewer''"
| "review_role_text SecurityArchitectureReviewer = Some ''security_architecture_reviewer''"
| "review_role_text _ = None"

definition save_review_once ::
  "ambient \<Rightarrow> daemon \<Rightarrow> workflow_id \<Rightarrow> candidate_id \<Rightarrow> review_verdict \<Rightarrow> bool daemon_result" where
  "save_review_once E d w c v =
     (if \<not> read_write (tables d) then (d, Err StoreReadOnly)
      else case review_role_text (review_role v) of None \<Rightarrow> (d, Err AggregateConflict) | Some role \<Rightarrow>
      case bt_get (review_rows d) (c, role) of
        Some stored \<Rightarrow> (d, if stored = v then Ok True else Err AggregateConflict)
      | None \<Rightarrow>
      case load_workflow (tables d) w of None \<Rightarrow> (d, Err AggregateConflict) | Some state \<Rightarrow>
      if wf_state state \<noteq> IndependentReviews \<or> wf_candidate state \<noteq> Some c then (d, Err AggregateConflict)
      else case candidate_of E d c of
        Inl e \<Rightarrow> (d, Err e) | Inr None \<Rightarrow> (d, Err AggregateConflict) | Inr (Some candidate) \<Rightarrow>
      if stored_workflow candidate \<noteq> w \<or> review_candidate v \<noteq> manifest_digest E (stored_manifest candidate)
      then (d, Err AggregateConflict)
      else case load_architecture d w of
        Inl e \<Rightarrow> (d, Err e) | Inr None \<Rightarrow> (d, Err AggregateConflict) | Inr (Some plan) \<Rightarrow>
      case review_validate v (map requirement_id (requirements plan))
          (map (\<lambda>(r, _, _). evidence_record_id r) (load_candidate_evidence (tables d) c)) of
        Inl e \<Rightarrow> (d, Err (ReviewFailed e))
      | Inr _ \<Rightarrow> (d\<lparr>review_rows := bt_insert (c, role) v (review_rows d)\<rparr>, Ok False))"

text \<open>In the order of the role's text, which is that of the keys.\<close>

definition load_reviews :: "daemon \<Rightarrow> candidate_id \<Rightarrow> review_verdict list" where
  "load_reviews d c = map snd (filter (\<lambda>((c', _), _). c' = c) (review_rows d))"

section \<open>Arbitration (arbitration.rs)\<close>

definition receipt_digest_of :: "ambient \<Rightarrow> arbitration_receipt \<Rightarrow> content_digest" where
  "receipt_digest_of E r = receipt_digest (sha256 E) (rfc3339_text E) r"

definition save_arbitration_once ::
  "ambient \<Rightarrow> daemon \<Rightarrow> workflow_id \<Rightarrow> candidate_id \<Rightarrow> arbiter_verdict \<Rightarrow> arbitration_receipt \<Rightarrow>
     bool daemon_result" where
  "save_arbitration_once E d w c v r =
     (if \<not> read_write (tables d) then (d, Err StoreReadOnly)
      else if receipt_workflow r \<noteq> w \<or> receipt_candidate r \<noteq> c
        \<or> receipt_candidate_digest r \<noteq> arbiter_candidate v \<or> receipt_verdict r \<noteq> verdict_digest E v
      then (d, Err AggregateConflict)
      else case bt_get (arbitration_rows d) c of
        Some row \<Rightarrow> (d, if row \<noteq> (w, v, r) then Err AggregateConflict else Ok True)
      | None \<Rightarrow>
          if bt_get (candidate_rows (tables d)) c = None \<or> bt_get (workflow_rows (tables d)) w = None
            \<or> list_ex (\<lambda>(_, _, _, r'). receipt_digest_of E r' = receipt_digest_of E r) (arbitration_rows d)
          then (d, Err SqliteError)
          else (d\<lparr>arbitration_rows := bt_insert c (w, v, r) (arbitration_rows d)\<rparr>, Ok False))"

definition load_arbitration ::
  "daemon \<Rightarrow> candidate_id \<Rightarrow> (workflow_id \<times> arbiter_verdict \<times> arbitration_receipt) option" where
  "load_arbitration d c = bt_get (arbitration_rows d) c"

section \<open>Verification plans (verification.rs)\<close>

text \<open>The second component is the JSON text of the plan.\<close>

definition load_verification_plan :: "daemon \<Rightarrow> verification_plan_id \<Rightarrow> (workflow_id \<times> string) option" where
  "load_verification_plan d p = bt_get (plan_rows (tables d)) p"

section \<open>The ledger (ledger.rs)\<close>

definition next_entry :: "ledger_chain \<Rightarrow> store_error + (u64 \<times> content_digest option)" where
  "next_entry c =
     (case entries c of
        [] \<Rightarrow> Ok (0, None)
      | _ # _ \<Rightarrow> and_then (ok_or (checked_add (entry_sequence (last (entries c))) 1) IntegerRange)
          (\<lambda>sequence. Ok (sequence, Some (entry_hash (last (entries c))))))"

text \<open>The sequence is stored as a signed integer; identifiers and hashes of the rows are unique.\<close>

definition append_ledger_event :: "ambient \<Rightarrow> daemon \<Rightarrow> ledger_event \<Rightarrow> ledger_entry daemon_result" where
  "append_ledger_event E d event =
     (if \<not> read_write (tables d) then (d, Err StoreReadOnly)
      else case next_entry (ledger d) of Inl e \<Rightarrow> (d, Err e) | Inr (sequence, parent) \<Rightarrow>
      case entry_new (sha256 E) (event_json E) sequence parent event of
        Inl e \<Rightarrow> (d, Err (LedgerFailed e))
      | Inr entry \<Rightarrow>
          if unat sequence \<ge> 2 ^ 63 then (d, Err IntegerRange)
          else if list_ex (\<lambda>x. event_id (entry_event x) = event_id event \<or> entry_hash x = entry_hash entry)
            (entries (ledger d)) then (d, Err SqliteError)
          else (d\<lparr>ledger := (ledger d)\<lparr>entries := entries (ledger d) @ [entry]\<rparr>\<rparr>, Ok entry))"

definition role_events :: "daemon \<Rightarrow> workflow_id \<Rightarrow> workflow_role \<Rightarrow> ledger_event list" where
  "role_events d w role = filter (\<lambda>e. event_workflow e = Some w \<and> actor_role (event_actor e) = Some role)
     (map entry_event (entries (ledger d)))"

definition load_role_session_ids ::
  "daemon \<Rightarrow> workflow_id \<Rightarrow> workflow_role \<Rightarrow> store_error + string list" where
  "load_role_session_ids d w role =
     try_fold (\<lambda>sessions e. case actor_session (event_actor e) of
         None \<Rightarrow> Ok sessions
       | Some s \<Rightarrow> if s = [] \<or> length s > 256 then Err AggregateConflict else Ok (bs_insert s sessions))
       [] (role_events d w role)"

definition is_revision :: "string \<Rightarrow> bool" where
  "is_revision r \<longleftrightarrow> (length r = 40 \<or> length r = 64) \<and> list_all is_lower_hex r"

text \<open>The first preparation of a worktree found from the end.\<close>

fun base_revision_of :: "ledger_event list \<Rightarrow> store_error + string option" where
  "base_revision_of [] = Ok None"
| "base_revision_of (e # es) =
     (if bt_get (event_metadata e) ''action'' \<noteq> Some ''execution_worktree_prepared''
      then base_revision_of es
      else case event_data e of
        GitData False revision \<Rightarrow> if is_revision revision then Ok (Some revision) else Err AggregateConflict
      | _ \<Rightarrow> Err AggregateConflict)"

definition load_worktree_base_revision :: "daemon \<Rightarrow> workflow_id \<Rightarrow> store_error + string option" where
  "load_worktree_base_revision d w =
     base_revision_of (rev (filter (\<lambda>e. event_workflow e = Some w) (map entry_event (entries (ledger d)))))"

definition save_checkpoint :: "ambient \<Rightarrow> daemon \<Rightarrow> checkpoint \<Rightarrow> unit daemon_result" where
  "save_checkpoint E d c =
     (if \<not> read_write (tables d) then (d, Err StoreReadOnly)
      else if unat (checkpoint_sequence c) \<ge> 2 ^ 63 then (d, Err IntegerRange)
      else
        let head = map_option (\<lambda>x. (checkpoint_sequence c, entry_hash x))
          (find (\<lambda>x. entry_sequence x = checkpoint_sequence c) (entries (ledger d)))
        in if checkpoint_verify_embedded (rfc3339_text E) (verify_strict E) (is_public_key E) c head
             \<noteq> CheckpointValid then (d, Err LedgerCheckpointFailed)
           else (d\<lparr>checkpoint_rows := bt_insert (checkpoint_sequence c) c (checkpoint_rows d)\<rparr>, Ok ()))"

definition load_checkpoints :: "daemon \<Rightarrow> checkpoint list" where
  "load_checkpoints d = bt_values (checkpoint_rows d)"

end
