(* ===== verification/Handler.thy ===== *)
theory Handler
  imports Daemon_Tables
begin

text \<open>
  How the daemon's request handlers are put together, and the audit record (\<open>audit.rs\<close> of
  \<open>crates/workflowd\<close>, with the observation of \<open>crates/workflow-ipc/src/audit.rs\<close>).  A handler changes the
  daemon and returns a result; each operation on the store is a transaction of its own, so what was
  done before an error stays.
\<close>

section \<open>Handlers\<close>

datatype audit_error = AuditEvent event_error | InvalidAuditTimestamp | AuditStore store_error

text \<open>Every refusal is a text in the code; those of the store and of the audit keep their cause.\<close>

datatype refusal =
    Refused string
  | StoreFailed store_error
  | AuditFailed audit_error
  | VerdictInvalid verdict_validation_error
  | RunFailed verification_run_error
  | PlanFailed verification_plan_error
  | Coded string refusal

type_synonym 'a handler = "daemon \<Rightarrow> daemon \<times> (refusal + 'a)"

definition give :: "'a \<Rightarrow> 'a handler" where
  "give a = (\<lambda>d. (d, Ok a))"

definition refuse :: "refusal \<Rightarrow> 'a handler" where
  "refuse e = (\<lambda>d. (d, Err e))"

text \<open>The second part runs on what the first one left; an error ends the handler.\<close>

definition seq :: "'a handler \<Rightarrow> ('a \<Rightarrow> 'b handler) \<Rightarrow> 'b handler" where
  "seq h k = (\<lambda>d. case h d of (d', Inl e) \<Rightarrow> (d', Err e) | (d', Inr a) \<Rightarrow> k a d')"

definition demand :: "bool \<Rightarrow> string \<Rightarrow> unit handler" where
  "demand b message = (if b then give () else refuse (Refused message))"

definition demand_some :: "'a option \<Rightarrow> string \<Rightarrow> 'a handler" where
  "demand_some x message = (case x of None \<Rightarrow> refuse (Refused message) | Some a \<Rightarrow> give a)"

definition reading :: "(daemon \<Rightarrow> store_error + 'a) \<Rightarrow> 'a handler" where
  "reading f = (\<lambda>d. (d, map_err StoreFailed (f d)))"

definition looking :: "(daemon \<Rightarrow> 'a) \<Rightarrow> 'a handler" where
  "looking f = (\<lambda>d. (d, Ok (f d)))"

definition storing :: "(daemon \<Rightarrow> 'a daemon_result) \<Rightarrow> 'a handler" where
  "storing f = (\<lambda>d. apsnd (map_err StoreFailed) (f d))"

definition on_tables :: "(store \<Rightarrow> 'a store_result) \<Rightarrow> 'a handler" where
  "on_tables f = (\<lambda>d. case f (tables d) of (s, r) \<Rightarrow> (d\<lparr>tables := s\<rparr>, map_err StoreFailed r))"

text \<open>A protocol answer gives each refusal a code.\<close>

definition coded :: "string \<Rightarrow> 'a handler \<Rightarrow> 'a handler" where
  "coded code h = (\<lambda>d. apsnd (map_err (Coded code)) (h d))"

text \<open>A loop over a list.\<close>

primrec each :: "('a \<Rightarrow> unit handler) \<Rightarrow> 'a list \<Rightarrow> unit handler" where
  "each f [] = give ()"
| "each f (x # xs) = seq (f x) (\<lambda>_. each f xs)"

text \<open>
  The clock and the fresh identifiers of one request; audits are numbered within it.
\<close>

record moment =
  moment_time :: workflow_timestamp
  moment_millis :: "nat \<Rightarrow> i64"
  fresh_event :: "nat \<Rightarrow> event_id"
  fresh_receipt :: receipt_id
  fresh_workflow :: workflow_id

definition id_text :: "ambient \<Rightarrow> 'k typed_id \<Rightarrow> string" where
  "id_text E i = uuid_text E (as_uuid i)"

definition project_of :: "ambient \<Rightarrow> string \<Rightarrow> project_id" where
  "project_of E key = project_id_from_stable_key (sha256 E) key"

section \<open>The audit (audit.rs)\<close>

datatype audit_data =
    WorkflowAudit string
  | ToolAudit content_digest string
  | PermissionAudit string string
  | GitAudit bool string
  | VerificationAudit string string

record audit_observation =
  obs_actor :: string
  obs_candidate :: "candidate_id option"
  obs_data :: audit_data
  obs_evidence :: "evidence_id list"
  obs_files :: "string list"
  obs_metadata :: "(string, string) btree_map"
  obs_model :: "model_identity option"
  obs_project :: string
  obs_role :: "workflow_role option"
  obs_session :: "string option"
  obs_task :: "task_id option"
  obs_millis :: i64
  obs_workflow :: "workflow_id option"

fun event_data_of :: "audit_data \<Rightarrow> event_data" where
  "event_data_of (WorkflowAudit action) = WorkflowData action"
| "event_data_of (ToolAudit digest name) = ToolData (digest_to_string digest) name"
| "event_data_of (PermissionAudit decision permission) = PermissionData decision permission"
| "event_data_of (GitAudit external revision) = GitData external revision"
| "event_data_of (VerificationAudit gate status) = VerificationData gate status"

text \<open>\<open>fresh\<close> is the identifier that \<open>LedgerEvent::new\<close> draws.\<close>

definition event_of :: "ambient \<Rightarrow> event_id \<Rightarrow> audit_observation \<Rightarrow> event_error + ledger_event" where
  "event_of E fresh obs =
     ledger_event_new fresh
       \<lparr>actor_id = obs_actor obs, actor_model = obs_model obs, actor_role = obs_role obs,
        actor_session = obs_session obs\<rparr>
       (obs_candidate obs) (event_data_of (obs_data obs)) (obs_evidence obs) (obs_files obs)
       (obs_metadata obs) (project_of E (obs_project obs)) (obs_task obs) (obs_millis obs * 1000000)
       (obs_workflow obs) (redactor_new [])"

definition audit_record ::
  "ambient \<Rightarrow> event_id \<Rightarrow> audit_observation \<Rightarrow> daemon \<Rightarrow> daemon \<times> (audit_error + ledger_entry)" where
  "audit_record E fresh obs d =
     (if \<not> nanos_in_range E (obs_millis obs * 1000000) then (d, Err InvalidAuditTimestamp)
      else case event_of E fresh obs of Inl e \<Rightarrow> (d, Err (AuditEvent e)) | Inr event \<Rightarrow>
      case append_ledger_event E d event of (d, Inl e) \<Rightarrow> (d, Err (AuditStore e)) | (d, Inr entry) \<Rightarrow>
      if entry_sequence entry mod 100 \<noteq> 0 then (d, Ok entry)
      else case save_checkpoint E d (checkpoint_sign (rfc3339_text E) (entry_sequence entry)
          (entry_hash entry) (event_timestamp (entry_event entry)) (ledger_key E)) of
        (d, Inl e) \<Rightarrow> (d, Err (AuditStore e))
      | (d, Inr _) \<Rightarrow> (d, Ok entry))"

definition auditing :: "ambient \<Rightarrow> event_id \<Rightarrow> audit_observation \<Rightarrow> ledger_entry handler" where
  "auditing E fresh obs = (\<lambda>d. apsnd (map_err AuditFailed) (audit_record E fresh obs d))"

text \<open>What the daemon itself observes.\<close>

definition daemon_observation ::
  "string \<Rightarrow> i64 \<Rightarrow> workflow_id \<Rightarrow> audit_data \<Rightarrow> audit_observation" where
  "daemon_observation project_key at w data =
     \<lparr>obs_actor = ''workflowd'', obs_candidate = None, obs_data = data, obs_evidence = [], obs_files = [],
      obs_metadata = [], obs_model = None, obs_project = project_key, obs_role = None,
      obs_session = None, obs_task = None, obs_millis = at, obs_workflow = Some w\<rparr>"

section \<open>What handlers keep\<close>

definition keeps :: "(daemon \<Rightarrow> bool) \<Rightarrow> 'a handler \<Rightarrow> bool" where
  "keeps P h \<longleftrightarrow> (\<forall>d. P d \<longrightarrow> P (fst (h d)))"

named_theorems keeps_intro

lemma keepsD: "keeps P h \<Longrightarrow> P d \<Longrightarrow> P (fst (h d))"
  by (simp add: keeps_def)

lemma keeps_give [keeps_intro]: "keeps P (give a)"
  by (simp add: keeps_def give_def)

lemma keeps_refuse [keeps_intro]: "keeps P (refuse e)"
  by (simp add: keeps_def refuse_def)

lemma keeps_seq [keeps_intro]:
  assumes "keeps P h" and "\<And>a. keeps P (k a)"
  shows "keeps P (seq h k)"
  unfolding keeps_def
proof (intro allI impI)
  fix d assume d: "P d"
  obtain d' r where h: "h d = (d', r)" by (cases "h d")
  with keepsD [OF assms(1) d] have "P d'" by simp
  with h assms(2) show "P (fst (seq h k d))"
    by (cases r) (simp_all add: seq_def keeps_def)
qed

lemma keeps_demand [keeps_intro]: "keeps P (demand b m)"
  by (simp add: demand_def keeps_give keeps_refuse)

lemma keeps_demand_some [keeps_intro]: "keeps P (demand_some x m)"
  by (cases x) (simp_all add: demand_some_def keeps_give keeps_refuse)

lemma keeps_reading [keeps_intro]: "keeps P (reading f)"
  by (simp add: keeps_def reading_def)

lemma keeps_looking [keeps_intro]: "keeps P (looking f)"
  by (simp add: keeps_def looking_def)

lemma keeps_coded [keeps_intro]: "keeps P h \<Longrightarrow> keeps P (coded code h)"
  by (simp add: keeps_def coded_def)

lemma keeps_if [keeps_intro]: "(b \<Longrightarrow> keeps P h) \<Longrightarrow> (\<not> b \<Longrightarrow> keeps P k) \<Longrightarrow> keeps P (if b then h else k)"
  by simp

lemma keeps_option [keeps_intro]:
  "(x = None \<Longrightarrow> keeps P h) \<Longrightarrow> (\<And>a. x = Some a \<Longrightarrow> keeps P (k a)) \<Longrightarrow>
   keeps P (case x of None \<Rightarrow> h | Some a \<Rightarrow> k a)"
  by (cases x) simp_all

lemma keeps_sum [keeps_intro]:
  "(\<And>a. x = Inl a \<Longrightarrow> keeps P (h a)) \<Longrightarrow> (\<And>a. x = Inr a \<Longrightarrow> keeps P (k a)) \<Longrightarrow>
   keeps P (case x of Inl a \<Rightarrow> h a | Inr a \<Rightarrow> k a)"
  by (cases x) simp_all

lemma keeps_prod [keeps_intro]: "(\<And>a b. keeps P (h a b)) \<Longrightarrow> keeps P (case x of (a, b) \<Rightarrow> h a b)"
  by (cases x) simp

lemma keeps_each [keeps_intro]: "(\<And>x. keeps P (f x)) \<Longrightarrow> keeps P (each f xs)"
  by (induction xs) (simp_all add: keeps_give keeps_seq)

lemma keeps_storing: "(\<And>d. P d \<Longrightarrow> P (fst (f d))) \<Longrightarrow> keeps P (storing f)"
  by (simp add: keeps_def storing_def)

lemma keeps_on_tables: "(\<And>d. P d \<Longrightarrow> P (d\<lparr>tables := fst (f (tables d))\<rparr>)) \<Longrightarrow> keeps P (on_tables f)"
  by (simp add: keeps_def on_tables_def split_beta)

lemma audit_record_state:
  "fst (audit_record E fresh obs d) = d
   \<or> (\<exists>ev. fst (audit_record E fresh obs d) = fst (append_ledger_event E d ev)
      \<or> (\<exists>c. fst (audit_record E fresh obs d) = fst (save_checkpoint E (fst (append_ledger_event E d ev)) c)))"
proof (cases "event_of E fresh obs")
  case (Inr ev)
  obtain d1 r where a: "append_ledger_event E d ev = (d1, r)" by (cases "append_ledger_event E d ev")
  show ?thesis
  proof (cases r)
    case (Inl e)
    with Inr a have "fst (audit_record E fresh obs d) = d \<or> fst (audit_record E fresh obs d) = d1"
      by (simp add: audit_record_def)
    with a show ?thesis by (metis fst_conv)
  next
    case (Inr entry)
    define c where "c = checkpoint_sign (rfc3339_text E) (entry_sequence entry) (entry_hash entry)
      (event_timestamp (entry_event entry)) (ledger_key E)"
    obtain d2 r2 where s: "save_checkpoint E d1 c = (d2, r2)" by (cases "save_checkpoint E d1 c")
    from a Inr s \<open>event_of E fresh obs = Inr ev\<close>
    have "fst (audit_record E fresh obs d) \<in> {d, d1, d2}"
      by (cases r2) (simp_all add: audit_record_def c_def [symmetric])
    with a s show ?thesis by (metis empty_iff fst_conv insert_iff)
  qed
qed (simp add: audit_record_def)

lemma keeps_auditing:
  assumes "\<And>d ev. P d \<Longrightarrow> P (fst (append_ledger_event E d ev))"
    and "\<And>d c. P d \<Longrightarrow> P (fst (save_checkpoint E d c))"
  shows "keeps P (auditing E fresh obs)"
  unfolding keeps_def auditing_def
proof (intro allI impI)
  fix d assume "P d"
  with audit_record_state [of E fresh obs d] assms have "P (fst (audit_record E fresh obs d))" by metis
  then show "P (fst (apsnd (map_err AuditFailed) (audit_record E fresh obs d)))" by simp
qed

text \<open>How a handler that succeeded went.\<close>

lemma seq_Ok_iff:
  "seq h k d = (d', Ok b) \<longleftrightarrow> (\<exists>d1 a. h d = (d1, Ok a) \<and> k a d1 = (d', Ok b))"
  by (auto simp: seq_def split: prod.splits sum.splits)

lemma demand_Ok_iff: "demand b m d = (d', Ok u) \<longleftrightarrow> b \<and> d' = d"
  by (auto simp: demand_def give_def refuse_def)

lemma demand_some_Ok_iff: "demand_some x m d = (d', Ok a) \<longleftrightarrow> x = Some a \<and> d' = d"
  by (cases x) (auto simp: demand_some_def give_def refuse_def)

lemma give_Ok_iff: "give a d = (d', Ok b) \<longleftrightarrow> d' = d \<and> b = a"
  by (auto simp: give_def)

lemma refuse_Ok_iff: "refuse e d = (d', Ok b) \<longleftrightarrow> False"
  by (simp add: refuse_def)

lemma reading_Ok_iff: "reading f d = (d', Ok a) \<longleftrightarrow> f d = Ok a \<and> d' = d"
  by (auto simp: reading_def)

lemma looking_Ok_iff: "looking f d = (d', Ok a) \<longleftrightarrow> a = f d \<and> d' = d"
  by (auto simp: looking_def)

lemma coded_Ok_iff: "coded code h d = (d', Ok a) \<longleftrightarrow> h d = (d', Ok a)"
  by (cases "h d") (simp add: coded_def)

lemmas handler_Ok_iff =
  seq_Ok_iff coded_Ok_iff demand_Ok_iff demand_some_Ok_iff give_Ok_iff refuse_Ok_iff reading_Ok_iff looking_Ok_iff

end
