(* ===== verification/Daemon_Decisions.thy ===== *)
theory Daemon_Decisions
  imports Handler
begin

text \<open>
  The requests that move a workflow on by a decision: execution reports, repairs, reviews and the
  arbitration (\<open>lifecycle.rs\<close> and \<open>repair.rs\<close> of \<open>crates/workflowd\<close>).  The name of a state in an answer is
  the state itself.
\<close>

section \<open>What every request checks\<close>

definition validate_project :: "project_id \<Rightarrow> workflow_id \<Rightarrow> unit handler" where
  "validate_project p w =
     seq (reading (\<lambda>d. load_request d w)) (\<lambda>found.
     seq (demand_some found ''workflow request does not exist'') (\<lambda>(stored, _).
     demand (p = stored) ''workflow belongs to another project''))"

definition current_workflow :: "workflow_id \<Rightarrow> workflow handler" where
  "current_workflow w =
     seq (looking (\<lambda>d. load_workflow (tables d) w)) (\<lambda>found.
     demand_some found ''workflow state does not exist'')"

text \<open>The state of the outcome, new or recorded.\<close>

definition commanding :: "workflow_id \<Rightarrow> string \<Rightarrow> workflow_command \<Rightarrow> workflow handler" where
  "commanding w key command =
     seq (on_tables (\<lambda>s. apply_workflow_command s w key command)) (\<lambda>(_, _, state). give state)"

section \<open>Execution reports\<close>

datatype execution_outcome = OutcomeBlocked | OutcomePlanDefect

definition report_execution ::
  "ambient \<Rightarrow> string \<Rightarrow> workflow_id \<Rightarrow> execution_outcome \<Rightarrow> receipt_id \<Rightarrow> workflow_state handler" where
  "report_execution E project_key w outcome report =
     seq (validate_project (project_of E project_key) w) (\<lambda>_.
     seq (current_workflow w) (\<lambda>state.
     seq (case outcome of
         OutcomeBlocked \<Rightarrow>
           seq (demand (wf_state state \<notin> {Blocked, Cancelled, Completed, Paused})
               ''workflow cannot be blocked from its current state'') (\<lambda>_. give BlockInfrastructure)
       | OutcomePlanDefect \<Rightarrow> give ReplanExecution) (\<lambda>command.
     seq (commanding w (id_text E w @ '':execution-report:'' @ id_text E report) command) (\<lambda>state.
     give (wf_state state)))))"

section \<open>Repairs (repair.rs)\<close>

datatype repair_cause = ImplementationFinding | InfrastructureFailure | PlanDefect

record repair_outcome =
  outcome_cycles :: u8
  outcome_maximum :: u8
  outcome_state :: workflow_state

definition repair_outcome_of :: "workflow \<Rightarrow> repair_outcome" where
  "repair_outcome_of w =
     \<lparr>outcome_cycles = wf_cycles w, outcome_maximum = wf_max_cycles w, outcome_state = wf_state w\<rparr>"

fun repair_target_of :: "repair_cause \<Rightarrow> repair_target" where
  "repair_target_of PlanDefect = Architecture_Target"
| "repair_target_of _ = Execution_Target"

text \<open>The \<open>Debug\<close> text of a target and the decimal text of a small number.\<close>

fun target_text :: "repair_target \<Rightarrow> string" where
  "target_text Execution_Target = ''Execution''"
| "target_text Architecture_Target = ''Architecture''"

fun decimal :: "nat \<Rightarrow> string" where
  "decimal n = (if n < 10 then [char_of (48 + n)] else decimal (n div 10) @ [char_of (48 + n mod 10)])"

declare decimal.simps [simp del]

definition candidate_key :: "ambient \<Rightarrow> workflow_id \<Rightarrow> candidate_id \<Rightarrow> string \<Rightarrow> string" where
  "candidate_key E w c what = id_text E w @ '':'' @ id_text E c @ '':'' @ what"

definition repair_route ::
  "ambient \<Rightarrow> workflow_id \<Rightarrow> candidate_id \<Rightarrow> repair_cause \<Rightarrow> repair_outcome handler" where
  "repair_route E w c cause =
     seq (looking (\<lambda>d. load_workflow (tables d) w)) (\<lambda>found.
     case found of None \<Rightarrow> refuse (StoreFailed AggregateConflict) | Some state \<Rightarrow>
     if wf_candidate state \<noteq> Some c then refuse (StoreFailed AggregateConflict)
     else if cause = InfrastructureFailure then
       seq (commanding w (candidate_key E w c ''infrastructure-retry'') RetryInfrastructure) (\<lambda>state.
       give (repair_outcome_of state))
     else
       let target = repair_target_of cause in
       seq (if wf_state state = Verification then give (VerificationRejected target)
            else if wf_state state = Arbitration then give (Reject target)
            else refuse (StoreFailed (TransitionFailed InvalidTransition))) (\<lambda>command.
       seq (commanding w (candidate_key E w c (''reject:'' @ target_text target)) command) (\<lambda>rejected.
       if wf_state rejected = Repair then
         seq (commanding w (candidate_key E w c (''begin-repair:'' @ decimal (unat (wf_cycles rejected))))
             BeginRepair) (\<lambda>repairing.
         give (repair_outcome_of repairing))
       else give (repair_outcome_of rejected))))"

section \<open>Arbitration\<close>

text \<open>The digests of the two reviews and whether both approve.\<close>

definition review_basis ::
  "ambient \<Rightarrow> workflow_mode option \<Rightarrow> content_digest \<Rightarrow> review_verdict list \<Rightarrow>
     (content_digest option \<times> content_digest option \<times> bool) handler" where
  "review_basis E mode digest reviews =
     (case mode of
        Some Full \<Rightarrow>
          seq (demand (length reviews = 2 \<and> list_all (\<lambda>v. review_candidate v = digest) reviews)
            ''both independent candidate reviews are required'') (\<lambda>_.
          seq (demand_some (find (\<lambda>v. review_role v = FunctionalReviewer) reviews)
            ''functional review is missing'') (\<lambda>functional.
          seq (demand_some (find (\<lambda>v. review_role v = SecurityArchitectureReviewer) reviews)
            ''security and architecture review is missing'') (\<lambda>security.
          give (Some (review_digest E functional), Some (review_digest E security),
            review_decision functional = ReviewApproved \<and> review_decision security = ReviewApproved))))
      | Some Quick \<Rightarrow>
          seq (demand (reviews = []) ''quick workflows cannot include independent reviews'') (\<lambda>_.
          give (None, None, True))
      | None \<Rightarrow> refuse (Refused ''workflow does not have a routing mode''))"

definition gates_missed :: "(evidence_record \<times> string \<times> bool) list \<Rightarrow> bool" where
  "gates_missed evidence = list_ex (\<lambda>(r, _, mandatory). mandatory \<and> evidence_status r \<noteq> Passed) evidence"

definition arbitration_observation ::
  "ambient \<Rightarrow> moment \<Rightarrow> string \<Rightarrow> workflow_id \<Rightarrow> candidate_id \<Rightarrow> candidate_manifest \<Rightarrow> arbiter_verdict \<Rightarrow>
     arbitration_receipt \<Rightarrow> audit_observation" where
  "arbitration_observation E M project_key w c m v r =
     (daemon_observation project_key (moment_millis M 0) w (WorkflowAudit
        (case arbiter_decision v of ArbiterApproved \<Rightarrow> ''arbitration_approved''
         | ArbiterRejected \<Rightarrow> ''arbitration_rejected'')))
     \<lparr>obs_candidate := Some c, obs_evidence := receipt_evidence r, obs_files := map file_path (files m),
      obs_metadata := [(''receipt_digest'', digest_to_string (receipt_digest_of E r))],
      obs_role := Some Arbiter\<rparr>"

text \<open>What follows once the verdict and its receipt are stored.\<close>

definition carry_out_verdict ::
  "ambient \<Rightarrow> workflow_id \<Rightarrow> candidate_id \<Rightarrow> arbiter_verdict \<Rightarrow> workflow_state handler" where
  "carry_out_verdict E w c v =
     (case arbiter_decision v of
        ArbiterApproved \<Rightarrow>
          seq (commanding w (candidate_key E w c ''approved'') (Approve True)) (\<lambda>state. give (wf_state state))
      | ArbiterRejected \<Rightarrow>
          (case arbiter_repair v of
             None \<Rightarrow> refuse (Refused ''rejected verdict lacks a repair target'')
           | Some target \<Rightarrow>
               seq (repair_route E w c (case target of Architecture_Target \<Rightarrow> PlanDefect
                 | Execution_Target \<Rightarrow> ImplementationFinding)) (\<lambda>outcome.
               give (outcome_state outcome))))"

definition submit_new_arbitration ::
  "ambient \<Rightarrow> moment \<Rightarrow> string \<Rightarrow> workflow_id \<Rightarrow> candidate_id \<Rightarrow> arbiter_verdict \<Rightarrow>
     (arbitration_receipt \<times> workflow_state) handler" where
  "submit_new_arbitration E M project_key w c v =
     seq (current_workflow w) (\<lambda>state.
     seq (demand (wf_state state = Arbitration \<and> wf_candidate state = Some c)
       ''workflow is not ready to arbitrate this candidate'') (\<lambda>_.
     seq (reading (\<lambda>d. load_request d w)) (\<lambda>found.
     seq (demand_some found ''immutable workflow request does not exist'') (\<lambda>(_, request).
     seq (reading (\<lambda>d. load_architecture d w)) (\<lambda>found.
     seq (demand_some found ''workflow architecture does not exist'') (\<lambda>plan.
     seq (reading (\<lambda>d. candidate_of E d c)) (\<lambda>found.
     seq (demand_some found ''candidate does not exist'') (\<lambda>candidate.
     let digest = manifest_digest E (stored_manifest candidate) in
     seq (demand (arbiter_candidate v = digest) ''arbiter verdict does not bind to the frozen candidate'') (\<lambda>_.
     seq (looking (\<lambda>d. load_candidate_evidence (tables d) c)) (\<lambda>evidence.
     let evidence_ids = fold bs_insert (map (\<lambda>(r, _). evidence_record_id r) evidence) [];
         required = fold bs_insert (map requirement_id (requirements plan)) [] in
     seq (case arbiter_validate v required evidence_ids of
         Inl e \<Rightarrow> refuse (VerdictInvalid e) | Inr _ \<Rightarrow> give ()) (\<lambda>_.
     seq (looking (\<lambda>d. load_reviews d c)) (\<lambda>reviews.
     seq (review_basis E (wf_mode state) digest reviews) (\<lambda>(functional, security, reviews_approved).
     seq (demand (\<not> (arbiter_decision v = ArbiterApproved \<and> (\<not> reviews_approved \<or> gates_missed evidence)))
       ''approval requirements have not passed'') (\<lambda>_.
     let receipt = \<lparr>receipt_verdict = verdict_digest E v, receipt_candidate_digest = digest,
           receipt_candidate = c, receipt_evidence = evidence_ids, finalized_at = moment_time M,
           functional_review = functional, receipt_id = fresh_receipt M,
           receipt_request = request_digest (sha256 E) (rfc3339_text E) request,
           security_review = security, receipt_workflow = w\<rparr> in
     seq (storing (\<lambda>d. save_arbitration_once E d w c v receipt)) (\<lambda>_.
     seq (carry_out_verdict E w c v) (\<lambda>next.
     seq (auditing E (fresh_event M 0)
       (arbitration_observation E M project_key w c (stored_manifest candidate) v receipt)) (\<lambda>_.
     give (receipt, next))))))))))))))))))"

definition submit_arbitration ::
  "ambient \<Rightarrow> moment \<Rightarrow> string \<Rightarrow> workflow_id \<Rightarrow> candidate_id \<Rightarrow> arbiter_verdict \<Rightarrow>
     (arbitration_receipt \<times> workflow_state) handler" where
  "submit_arbitration E M project_key w c v =
     seq (validate_project (project_of E project_key) w) (\<lambda>_.
     seq (looking (\<lambda>d. load_arbitration d c)) (\<lambda>existing.
     case existing of
       Some (owner, verdict, receipt) \<Rightarrow>
         seq (demand (owner = w \<and> verdict = v) ''candidate already has another arbitration verdict'') (\<lambda>_.
         seq (current_workflow w) (\<lambda>state.
         give (receipt, wf_state state)))
     | None \<Rightarrow> submit_new_arbitration E M project_key w c v))"

section \<open>Reviews\<close>

definition review_role_name :: "workflow_role \<Rightarrow> string handler" where
  "review_role_name role =
     (case role of
        FunctionalReviewer \<Rightarrow> give ''functional_reviewer''
      | SecurityArchitectureReviewer \<Rightarrow> give ''security_architecture_reviewer''
      | _ \<Rightarrow> refuse (Refused ''role is not an independent reviewer''))"

definition review_evidence_ids :: "review_verdict \<Rightarrow> evidence_id list" where
  "review_evidence_ids v =
     fold bs_insert (concat (map decided_evidence (review_requirements v))
       @ concat (map finding_evidence (review_findings v))) []"

definition submit_review ::
  "ambient \<Rightarrow> moment \<Rightarrow> string \<Rightarrow> workflow_id \<Rightarrow> candidate_id \<Rightarrow> review_verdict \<Rightarrow> bool handler" where
  "submit_review E M project_key w c v =
     seq (validate_project (project_of E project_key) w) (\<lambda>_.
     seq (storing (\<lambda>d. save_review_once E d w c v)) (\<lambda>duplicate.
     seq (if duplicate then give ()
          else seq (review_role_name (review_role v)) (\<lambda>name.
            seq (auditing E (fresh_event M 0)
              ((daemon_observation project_key (moment_millis M 0) w
                 (WorkflowAudit ''independent_review_finalized''))
               \<lparr>obs_candidate := Some c, obs_evidence := review_evidence_ids v,
                obs_metadata := [(''review_role'', name)], obs_role := Some (review_role v)\<rparr>)) (\<lambda>_.
            give ()))) (\<lambda>_.
     seq (looking (\<lambda>d. length (load_reviews d c) = 2)) (\<lambda>ready.
     if \<not> ready then give False
     else
       seq (current_workflow w) (\<lambda>state.
       if wf_state state \<noteq> IndependentReviews then give True
       else
         seq (commanding w (candidate_key E w c ''reviews-ready'') ReviewsReady) (\<lambda>_.
         give True))))))"

end
