(* ===== verification/Daemon_Candidates.thy ===== *)
theory Daemon_Candidates
  imports Daemon_Decisions
begin

text \<open>
  The requests around a candidate: planning its verification, freezing it, verifying it, and promoting
  it (\<open>lifecycle.rs\<close> of \<open>crates/workflowd\<close>).  Where a request lets go of the store to work on the disk it
  is two handlers, before and after, with the result of the work as an argument of the second.
\<close>

section \<open>Planning\<close>

datatype planning = PlanStored verification_plan | PlanNeeded architecture_plan

definition stored_plan :: "ambient \<Rightarrow> string \<Rightarrow> verification_plan handler" where
  "stored_plan E json = demand_some (read_plan E json) ''verification plan is malformed''"

definition executing :: "workflow \<Rightarrow> bool" where
  "executing state \<longleftrightarrow> wf_state state = Execution \<or> wf_state state = QuickExecution"

definition begin_planning ::
  "ambient \<Rightarrow> verification_plan_id \<Rightarrow> string \<Rightarrow> workflow_id \<Rightarrow> planning handler" where
  "begin_planning E i project_key w =
     seq (validate_project (project_of E project_key) w) (\<lambda>_.
     seq (looking (\<lambda>d. load_verification_plan d i)) (\<lambda>found.
     case found of
       Some (owner, json) \<Rightarrow>
         seq (demand (owner = w) ''verification plan belongs to another workflow'') (\<lambda>_.
         seq (stored_plan E json) (\<lambda>plan. give (PlanStored plan)))
     | None \<Rightarrow>
         seq (current_workflow w) (\<lambda>state.
         seq (demand (executing state) ''workflow is not ready to plan verification'') (\<lambda>_.
         seq (reading (\<lambda>d. load_architecture d w)) (\<lambda>found.
         seq (demand_some found ''workflow architecture does not exist'') (\<lambda>plan.
         give (PlanNeeded plan)))))))"

definition finish_planning ::
  "ambient \<Rightarrow> verification_plan_id \<Rightarrow> string \<Rightarrow> workflow_id \<Rightarrow> verification_plan_error + verification_plan \<Rightarrow>
     verification_plan handler" where
  "finish_planning E i project_key w discovered =
     (case discovered of Inl e \<Rightarrow> refuse (PlanFailed e) | Inr plan \<Rightarrow>
      seq (validate_project (project_of E project_key) w) (\<lambda>_.
      seq (on_tables (\<lambda>s. save_verification_plan_once s i w (plan_text E plan))) (\<lambda>_.
      give plan)))"

section \<open>Freezing\<close>

text \<open>What \<open>candidate::freeze\<close> makes of the work tree.\<close>

record frozen_candidate =
  frozen_manifest :: candidate_manifest
  frozen_diff :: "byte list"
  frozen_files :: "file_payload list"

definition validate_candidate_state :: "workflow_id \<Rightarrow> candidate_id \<Rightarrow> unit handler" where
  "validate_candidate_state w c =
     seq (current_workflow w) (\<lambda>state.
     demand (executing state \<or> wf_state state = Verification \<and> wf_candidate state = Some c)
       ''workflow is not ready to freeze this candidate'')"

definition candidate_ready ::
  "ambient \<Rightarrow> workflow_id \<Rightarrow> candidate_id \<Rightarrow> workflow handler" where
  "candidate_ready E w c =
     commanding w (id_text E w @ '':candidate:'' @ id_text E c) (CandidateReady c)"

text \<open>The answer, when the candidate was frozen before; otherwise nothing yet.\<close>

definition begin_freezing ::
  "ambient \<Rightarrow> candidate_id \<Rightarrow> evidence_id list \<Rightarrow> verification_plan_id \<Rightarrow> string \<Rightarrow> workflow_id \<Rightarrow>
     candidate_manifest option handler" where
  "begin_freezing E c evidence_ids i project_key w =
     seq (validate_project (project_of E project_key) w) (\<lambda>_.
     seq (looking (\<lambda>d. load_verification_plan d i)) (\<lambda>found.
     seq (demand_some found ''verification plan does not exist'') (\<lambda>(owner, json).
     seq (demand (owner = w) ''verification plan belongs to another workflow'') (\<lambda>_.
     seq (stored_plan E json) (\<lambda>plan.
     seq (demand (set (plan_evidence_ids plan) = set evidence_ids
         \<and> length (fold bs_insert (plan_evidence_ids plan) []) = length evidence_ids)
       ''candidate evidence identifiers do not match the verification plan'') (\<lambda>_.
     seq (reading (\<lambda>d. candidate_of E d c)) (\<lambda>found.
     case found of
       Some candidate \<Rightarrow>
         seq (demand (stored_workflow candidate = w) ''candidate belongs to another workflow'') (\<lambda>_.
         seq (reading (\<lambda>_. require_exact_files candidate)) (\<lambda>_.
         seq (current_workflow w) (\<lambda>state.
         seq (if executing state then seq (candidate_ready E w c) (\<lambda>_. give ())
              else demand (wf_state state = Verification \<and> wf_candidate state = Some c)
                ''workflow no longer accepts this candidate'') (\<lambda>_.
         give (Some (stored_manifest candidate))))))
     | None \<Rightarrow> seq (validate_candidate_state w c) (\<lambda>_. give None))))))))"

definition saving_candidate ::
  "ambient \<Rightarrow> workflow_id \<Rightarrow> frozen_candidate \<Rightarrow> bool handler" where
  "saving_candidate E w f = (\<lambda>d.
     case save_candidate_once (sha256 E) (listing_json E) (tables d) w (frozen_manifest f) (frozen_diff f)
         (frozen_files f) of
       None \<Rightarrow> (d, Err (StoreFailed Panicked))
     | Some (s, r) \<Rightarrow> (d\<lparr>tables := s\<rparr>, map_err StoreFailed r))"

definition finish_freezing ::
  "ambient \<Rightarrow> moment \<Rightarrow> candidate_id \<Rightarrow> string \<Rightarrow> workflow_id \<Rightarrow> frozen_candidate \<Rightarrow>
     candidate_manifest handler" where
  "finish_freezing E M c project_key w f =
     seq (validate_project (project_of E project_key) w) (\<lambda>_.
     seq (validate_candidate_state w c) (\<lambda>_.
     seq (saving_candidate E w f) (\<lambda>_.
     seq (candidate_ready E w c) (\<lambda>_.
     let m = frozen_manifest f in
     seq (auditing E (fresh_event M 0)
       ((daemon_observation project_key (moment_millis M 0) w (WorkflowAudit ''candidate_frozen''))
        \<lparr>obs_candidate := Some c, obs_evidence := manifest_evidence m, obs_files := map file_path (files m),
         obs_metadata := [(''candidate_digest'', digest_to_string (manifest_digest E m))]\<rparr>)) (\<lambda>_.
     give m)))))"

section \<open>Verifying\<close>

definition begin_verifying ::
  "ambient \<Rightarrow> candidate_id \<Rightarrow> verification_plan_id \<Rightarrow> string \<Rightarrow> workflow_id \<Rightarrow>
     (verification_plan \<times> stored_candidate \<times> file_payload list) handler" where
  "begin_verifying E c i project_key w =
     seq (validate_project (project_of E project_key) w) (\<lambda>_.
     seq (current_workflow w) (\<lambda>state.
     seq (demand (wf_state state = Verification \<and> wf_candidate state = Some c)
       ''workflow is not ready to verify this candidate'') (\<lambda>_.
     seq (looking (\<lambda>d. load_verification_plan d i)) (\<lambda>found.
     seq (demand_some found ''verification plan does not exist'') (\<lambda>(owner, json).
     seq (reading (\<lambda>d. candidate_of E d c)) (\<lambda>found.
     seq (demand_some found ''candidate does not exist'') (\<lambda>candidate.
     seq (demand (owner = w \<and> stored_workflow candidate = w)
       ''verification inputs belong to another workflow'') (\<lambda>_.
     seq (reading (\<lambda>_. require_exact_files candidate)) (\<lambda>exact.
     seq (stored_plan E json) (\<lambda>plan.
     give (plan, candidate, exact)))))))))))"

fun status_text :: "evidence_status \<Rightarrow> string" where
  "status_text Passed = ''passed''"
| "status_text Failed = ''failed''"
| "status_text Skipped = ''skipped''"

text \<open>One turn of the loop over the gates and their records.\<close>

definition keep_evidence ::
  "ambient \<Rightarrow> moment \<Rightarrow> verification_plan_id \<Rightarrow> workflow_id \<Rightarrow> candidate_manifest \<Rightarrow> candidate_id \<Rightarrow> string \<Rightarrow>
     verification_run \<Rightarrow> nat \<times> verification_gate \<times> evidence_record \<Rightarrow> unit handler" where
  "keep_evidence E M i w m c project_key run = (\<lambda>(n, g, x).
     seq (demand_some (bt_get (run_outputs run) (evidence_record_id x)) ''verification output is missing'')
       (\<lambda>output.
     seq (on_tables (\<lambda>s. save_evidence_once (sha256 E) s i w c x output (gate_mandatory g))) (\<lambda>_.
     seq (auditing E (fresh_event M n)
       ((daemon_observation project_key (moment_millis M n) w
           (VerificationAudit (gate_name g) (status_text (evidence_status x))))
        \<lparr>obs_candidate := Some c, obs_evidence := [evidence_record_id x],
         obs_files := map file_path (files m),
         obs_metadata := [(''output_digest'', digest_to_string (output_digest x))]\<rparr>)) (\<lambda>_.
     give ()))))"

definition conclude_verification ::
  "ambient \<Rightarrow> workflow_id \<Rightarrow> candidate_id \<Rightarrow> verification_run \<Rightarrow> workflow_state handler" where
  "conclude_verification E w c run =
     (if mandatory_passed run then
        seq (commanding w (candidate_key E w c ''verification-passed'') VerificationPassed) (\<lambda>state.
        give (wf_state state))
      else if infrastructure_blocked run then
        seq (commanding w (candidate_key E w c ''verification-blocked'') BlockInfrastructure) (\<lambda>state.
        give (wf_state state))
      else
        seq (repair_route E w c ImplementationFinding) (\<lambda>outcome. give (outcome_state outcome)))"

definition finish_verifying ::
  "ambient \<Rightarrow> moment \<Rightarrow> verification_plan_id \<Rightarrow> string \<Rightarrow> workflow_id \<Rightarrow> candidate_id \<Rightarrow> verification_plan \<Rightarrow>
     candidate_manifest \<Rightarrow> verification_run_error + verification_run \<Rightarrow>
     (verification_run \<times> workflow_state) handler" where
  "finish_verifying E M i project_key w c plan m outcome =
     (case outcome of Inl e \<Rightarrow> refuse (RunFailed e) | Inr run \<Rightarrow>
      seq (validate_project (project_of E project_key) w) (\<lambda>_.
      seq (each (keep_evidence E M i w m c project_key run)
        (enumerate 0 (zip (plan_gates plan) (run_records run)))) (\<lambda>_.
      seq (conclude_verification E w c run) (\<lambda>state.
      give (run, state)))))"

section \<open>Promotion\<close>

definition deliverable :: "workflow \<Rightarrow> candidate_id \<Rightarrow> bool" where
  "deliverable state c \<longleftrightarrow> (wf_state state = Delivery \<or> wf_state state = Completed) \<and> wf_candidate state = Some c"

text \<open>
  The keys of the request and the indexed repository are checked before: \<open>same_repository\<close>.
\<close>

definition request_text_ok :: "string \<Rightarrow> bool" where
  "request_text_ok s \<longleftrightarrow> s \<noteq> [] \<and> length s \<le> 32768 \<and> CHR 0x00 \<notin> set s"

definition begin_promoting ::
  "ambient \<Rightarrow> string \<Rightarrow> string \<Rightarrow> bool \<Rightarrow> workflow_id \<Rightarrow> candidate_id \<Rightarrow>
     (stored_candidate \<times> file_payload list \<times> content_digest option) handler" where
  "begin_promoting E project_key directory same_repository w c =
     seq (demand (request_text_ok project_key \<and> request_text_ok directory)
       ''candidate promotion request is invalid'') (\<lambda>_.
     seq (demand same_repository
       ''candidate promotion repository does not match the indexed project'') (\<lambda>_.
     seq (current_workflow w) (\<lambda>state.
     seq (demand (deliverable state c) ''workflow is not awaiting delivery of this candidate'') (\<lambda>_.
     seq (reading (\<lambda>d. candidate_of E d c)) (\<lambda>found.
     seq (demand_some found ''candidate does not exist'') (\<lambda>candidate.
     seq (looking (\<lambda>d. load_arbitration d c)) (\<lambda>found.
     seq (demand_some found ''approved arbitration does not exist'') (\<lambda>(owner, verdict, _).
     seq (demand (stored_workflow candidate = w \<and> owner = w \<and> arbiter_decision verdict = ArbiterApproved)
       ''candidate is not bound to an approved workflow'') (\<lambda>_.
     seq (reading (\<lambda>_. require_exact_files candidate)) (\<lambda>exact.
     seq (on_tables (\<lambda>s. reserve_candidate_delivery s w c (manifest_digest E (stored_manifest candidate)))) (\<lambda>_.
     seq (looking (\<lambda>d. delivery_journal_digest (tables d) w c)) (\<lambda>journal.
     give (candidate, exact, journal)))))))))))))"

text \<open>The journal of a delivery under way is bound before the files are touched.\<close>

definition bind_promotion ::
  "workflow_id \<Rightarrow> candidate_id \<Rightarrow> content_digest \<Rightarrow> content_digest option \<Rightarrow> content_digest \<Rightarrow> unit handler" where
  "bind_promotion w c digest expected journal =
     on_tables (\<lambda>s. bind_delivery_journal s w c digest expected journal)"

text \<open>A promotion that failed, with whether its journal still needs recovery.\<close>

definition fail_promoting ::
  "workflow_id \<Rightarrow> candidate_id \<Rightarrow> content_digest \<Rightarrow> string \<Rightarrow> bool \<Rightarrow> unit handler" where
  "fail_promoting w c digest message recovery_required =
     (if recovery_required then refuse (Refused message)
      else seq (on_tables (\<lambda>s. release_candidate_delivery s w c digest)) (\<lambda>_. refuse (Refused message)))"

definition finish_promoting ::
  "ambient \<Rightarrow> workflow_id \<Rightarrow> candidate_id \<Rightarrow> content_digest \<Rightarrow> content_digest \<Rightarrow> workflow_state handler" where
  "finish_promoting E w c digest journal =
     seq (current_workflow w) (\<lambda>state.
     seq (reading (\<lambda>d. candidate_of E d c)) (\<lambda>found.
     seq (demand_some found ''candidate does not exist'') (\<lambda>candidate.
     seq (demand (deliverable state c \<and> stored_workflow candidate = w
         \<and> manifest_digest E (stored_manifest candidate) = digest)
       ''candidate state changed during promotion'') (\<lambda>_.
     if wf_state state = Completed then
       seq (on_tables (\<lambda>s. release_candidate_delivery s w c digest)) (\<lambda>_. give (wf_state state))
     else
       seq (on_tables (\<lambda>s. deliver_reserved_candidate s w c digest journal (''delivery:'' @ id_text E c)))
         (\<lambda>(_, _, state). give (wf_state state))))))"

end
