(* ===== verification/Daemon_Intake.thy ===== *)
theory Daemon_Intake
  imports Daemon_Candidates Admission
begin

text \<open>
  The requests that start a workflow and accept its architecture, the user's control commands, and
  what the daemon asks the store before it admits work (\<open>lifecycle.rs\<close>, \<open>routing.rs\<close> and \<open>control.rs\<close> of
  \<open>crates/workflowd\<close>; the messages are those of \<open>crates/workflow-ipc/src/protocol.rs\<close>).
\<close>

section \<open>Recording the route (routing.rs)\<close>

fun risk_text :: "risk_category \<Rightarrow> string" where
  "risk_text Authentication = ''authentication''"
| "risk_text Authorization = ''authorization''"
| "risk_text Cryptography = ''cryptography''"
| "risk_text Secrets = ''secrets''"
| "risk_text TrustBoundary = ''trustboundary''"
| "risk_text DatabaseMigration = ''databasemigration''"
| "risk_text Persistence = ''persistence''"
| "risk_text DataIntegrity = ''dataintegrity''"
| "risk_text NewDependency = ''newdependency''"
| "risk_text PublicApi = ''publicapi''"
| "risk_text Protocol = ''protocol''"
| "risk_text Schema = ''schema''"
| "risk_text Compatibility = ''compatibility''"
| "risk_text CrossLayer = ''crosslayer''"
| "risk_text Concurrency = ''concurrency''"
| "risk_text DistributedSystem = ''distributedsystem''"
| "risk_text Packaging = ''packaging''"
| "risk_text Installation = ''installation''"
| "risk_text Update = ''update''"
| "risk_text Release = ''release''"
| "risk_text Deployment = ''deployment''"
| "risk_text LargeRefactor = ''largerefactor''"
| "risk_text HighImpact = ''highimpact''"
| "risk_text DifficultToReverse = ''difficulttoreverse''"
| "risk_text LocalizedChange = ''localizedchange''"
| "risk_text Documentation = ''documentation''"
| "risk_text TestOnly = ''testonly''"

definition category_list :: "risk_category list \<Rightarrow> string" where
  "category_list cs = (if cs = [] then [] else join_with (CHR '','') (map risk_text cs))"

fun mode_text :: "workflow_mode \<Rightarrow> string" where
  "mode_text Quick = ''quick''"
| "mode_text Full = ''full''"

definition route_metadata ::
  "ambient \<Rightarrow> routing_decision \<Rightarrow> routing_evidence \<Rightarrow> (string, string) btree_map" where
  "route_metadata E decision evidence =
     fold (\<lambda>(k, v). bt_insert k v)
       [(''mode'', mode_text (decided_mode decision)),
        (''critical_categories'', category_list (critical_categories decision)),
        (''advisory_categories'', category_list (advisory_categories decision)),
        (''rationale'', rationale_json E (rationales evidence)),
        (''critical_downgrade_approval'', case downgrade_approval decision of
           None \<Rightarrow> ''none'' | Some r \<Rightarrow> id_text E r)] []"

definition decide_and_record ::
  "ambient \<Rightarrow> moment \<Rightarrow> routing_evidence \<Rightarrow> routing_preference \<Rightarrow> receipt_id option \<Rightarrow> string \<Rightarrow>
     workflow_id \<Rightarrow> (routing_decision \<times> ledger_entry) handler" where
  "decide_and_record E M evidence pref approval project_key w =
     (let decision = route_workflow \<lparr>facts = evidence_facts evidence, preference = pref,
           critical_downgrade_approval = approval\<rparr>
      in seq (auditing E (fresh_event M 0)
          ((daemon_observation project_key (moment_millis M 0) w (WorkflowAudit ''route_selected''))
           \<lparr>obs_metadata := route_metadata E decision evidence\<rparr>)) (\<lambda>entry.
        give (decision, entry)))"

section \<open>Starting a workflow\<close>

record ipc_request =
  affected_paths :: "string list"
  ipc_downgrade_approval :: "receipt_id option"
  ipc_project_key :: string
  ipc_request_id :: u64
  ipc_preference :: routing_preference
  ipc_workflow :: "workflow_id option"
  ipc_envelope :: protocol_envelope

text \<open>\<open>Path::components\<close> of one project-relative path; the ledger has the same test.\<close>

definition safe_relative :: "string \<Rightarrow> bool" where
  "safe_relative s \<longleftrightarrow> s \<noteq> [] \<and> \<not> prefix ''/'' s \<and> list_all is_normal (path_components s)"

type_synonym accepted = "workflow_id \<times> workflow_mode \<times> protocol_envelope"

definition start_workflow ::
  "ambient \<Rightarrow> moment \<Rightarrow> ipc_request \<Rightarrow> request_record \<Rightarrow> accepted handler" where
  "start_workflow E M q record =
     (let w = (case ipc_workflow q of None \<Rightarrow> fresh_workflow M | Some w \<Rightarrow> w) in
      seq (coded ''invalid_project'' (demand (\<not> blank (ipc_project_key q) \<and> length (ipc_project_key q) \<le> 1024)
        ''project key is invalid'')) (\<lambda>_.
      seq (coded ''invalid_path'' (demand (length (affected_paths q) \<le> 10000
          \<and> list_all safe_relative (affected_paths q))
        ''affected paths must be bounded project-relative paths'')) (\<lambda>_.
      seq (coded ''request_rejected'' (storing (\<lambda>d. save_request_once d w
          (project_of E (ipc_project_key q)) record (rfc3339_text E (moment_time M))))) (\<lambda>_.
      seq (looking (\<lambda>d. load_workflow (tables d) w)) (\<lambda>found.
      seq (case found of
          None \<Rightarrow> coded ''intake_failed'' (commanding w (id_text E w @ '':complete-intake'') CompleteIntake)
        | Some state \<Rightarrow> give state) (\<lambda>state.
      seq (if wf_state state \<noteq> Workflow.Routing then give ()
           else
             let evidence = automatic_evidence (original_text record) (affected_paths q) in
             seq (coded ''routing_failed'' (decide_and_record E M evidence (ipc_preference q)
               (ipc_downgrade_approval q) (ipc_project_key q) w)) (\<lambda>(decision, _).
             seq (coded ''routing_failed''
               (commanding w (id_text E w @ '':route'') (Route (decided_mode decision)))) (\<lambda>_.
             give ()))) (\<lambda>_.
      seq (looking (\<lambda>d. case load_workflow (tables d) w of None \<Rightarrow> None | Some s \<Rightarrow> wf_mode s)) (\<lambda>mode.
      seq (coded ''routing_failed'' (demand_some mode ''workflow did not reach a routed state'')) (\<lambda>mode.
      give (w, mode, ipc_envelope q))))))))))"

section \<open>Accepting an architecture\<close>

definition accept_architecture ::
  "ambient \<Rightarrow> moment \<Rightarrow> ipc_request \<Rightarrow> architecture_plan \<Rightarrow> accepted handler" where
  "accept_architecture E M q plan =
     seq (coded ''missing_workflow'' (demand_some (ipc_workflow q)
       ''architecture submission requires a workflow identifier'')) (\<lambda>w.
     seq (coded ''architecture_rejected'' (reading (\<lambda>d. load_request d w))) (\<lambda>found.
     seq (coded ''missing_workflow'' (demand_some found ''workflow request does not exist'')) (\<lambda>(stored, _).
     seq (coded ''project_mismatch'' (demand (stored = project_of E (ipc_project_key q))
       ''workflow belongs to another project'')) (\<lambda>_.
     seq (coded ''architecture_rejected'' (storing (\<lambda>d. save_architecture_once E d w plan))) (\<lambda>_.
     let policy_digest = essentiality_digest (sha256 E) (policy_json E) essentiality_default in
     seq (coded ''constraint_failed'' (storing (\<lambda>d. save_constraint_once d w ''essentiality'' policy_digest
       (policy_json E essentiality_default)))) (\<lambda>duplicate.
     seq (if duplicate then give ()
          else coded ''constraint_failed''
            (seq (auditing E (fresh_event M 0)
              ((daemon_observation (ipc_project_key q) (moment_millis M 0) w
                 (WorkflowAudit ''essentiality_constraint_recorded''))
               \<lparr>obs_metadata := [(''constraint_digest'', digest_to_string policy_digest)]\<rparr>)) (\<lambda>_.
            give ()))) (\<lambda>_.
     seq (coded ''missing_workflow'' (current_workflow w)) (\<lambda>state.
     seq (if wf_state state = Workflow.Architecture then
            coded ''architecture_rejected''
              (seq (commanding w (id_text E w @ '':architecture-accepted:'' @ digest_to_string (plan_digest E plan))
                 ArchitectureAccepted) (\<lambda>_. give ()))
          else coded ''invalid_state''
            (demand (executing state) ''workflow is not awaiting an architecture plan'')) (\<lambda>_.
     seq (coded ''routing_failed'' (demand_some (wf_mode state) ''workflow does not have a routing mode''))
       (\<lambda>mode.
     give (w, mode, ipc_envelope q)))))))))))"

datatype ipc_response =
    Accepted workflow_mode content_digest u64 workflow_id protocol_envelope
  | Rejected u64 refusal

definition process_protocol_request ::
  "ambient \<Rightarrow> moment \<Rightarrow> ipc_request \<Rightarrow> accepted handler" where
  "process_protocol_request E M q =
     (case envelope_payload (ipc_envelope q) of
        RequestPayload r \<Rightarrow> start_workflow E M q r
      | ArchitecturePayload plan \<Rightarrow> accept_architecture E M q plan
      | _ \<Rightarrow> coded ''operation_unavailable'' (refuse (Refused
          ''the protocol payload is not accepted in the current implementation stage'')))"

fun payload_digest :: "ambient \<Rightarrow> protocol_payload \<Rightarrow> content_digest" where
  "payload_digest E (RequestPayload r) = request_digest (sha256 E) (rfc3339_text E) r"
| "payload_digest E (ArchitecturePayload p) = plan_request_digest p"
| "payload_digest E (CandidatePayload m) = manifest_digest E m"
| "payload_digest E (EvidencePayload x) = evidence_candidate x"
| "payload_digest E (VerdictPayload v) = arbiter_candidate v"

definition handle_protocol_request ::
  "ambient \<Rightarrow> moment \<Rightarrow> ipc_request \<Rightarrow> daemon \<Rightarrow> daemon \<times> ipc_response" where
  "handle_protocol_request E M q d =
     (case process_protocol_request E M q d of
        (d, Inl e) \<Rightarrow> (d, Rejected (ipc_request_id q) e)
      | (d, Inr (w, mode, envelope)) \<Rightarrow>
          (d, Accepted mode (payload_digest E (envelope_payload envelope)) (ipc_request_id q) w envelope))"

section \<open>Work trees and admission\<close>

definition validate_worktree_request ::
  "ambient \<Rightarrow> string \<Rightarrow> workflow_id \<Rightarrow> project_id handler" where
  "validate_worktree_request E project_key w =
     seq (validate_project (project_of E project_key) w) (\<lambda>_.
     seq (current_workflow w) (\<lambda>state.
     seq (demand (executing state) ''workflow is not ready for isolated execution'') (\<lambda>_.
     seq (reading (\<lambda>d. load_architecture d w)) (\<lambda>found.
     seq (demand (found \<noteq> None) ''workflow is not ready for isolated execution'') (\<lambda>_.
     give (project_of E project_key))))))"

definition admission_allowed :: "admission_operation \<Rightarrow> workflow_state \<Rightarrow> bool" where
  "admission_allowed op state \<longleftrightarrow>
     op = ReleaseSlot \<or> state \<notin> {Paused, Blocked, Completed, Cancelled}"

text \<open>The state of the workflow when the request names its project.\<close>

definition admission_eligibility ::
  "ambient \<Rightarrow> string \<Rightarrow> string \<Rightarrow> workflow_id \<Rightarrow> workflow_state option handler" where
  "admission_eligibility E project_key workspace w =
     (if \<not> (request_text_ok project_key \<and> request_text_ok workspace) then give None
      else seq (reading (\<lambda>d. load_request d w)) (\<lambda>found.
        case found of
          None \<Rightarrow> give None
        | Some (stored, _) \<Rightarrow>
            if stored \<noteq> project_of E project_key then give None
            else seq (looking (\<lambda>d. load_workflow (tables d) w)) (\<lambda>state.
              give (map_option wf_state state))))"

section \<open>Control (control.rs)\<close>

datatype control_operation =
  CancelWorkflow | PauseWorkflow | ResumeWorkflow | RetryWorkflow | WorkflowStatus | WorkflowTasks | WorkflowEvidence

datatype control_answer =
    StatusAnswer workflow_id workflow
  | TasksAnswer workflow_id "(task_id \<times> task_state) list"
  | EvidenceAnswer workflow_id "candidate_id option" "(evidence_record \<times> bool) list"
  | CommandAnswer bool workflow_state workflow_id

text \<open>The workflow named, when it belongs to the project, or the latest one of the project.\<close>

definition controlled_workflow ::
  "ambient \<Rightarrow> string \<Rightarrow> workflow_id option \<Rightarrow> workflow_id handler" where
  "controlled_workflow E project_key requested =
     (case requested of
        Some w \<Rightarrow>
          seq (reading (\<lambda>d. load_request d w)) (\<lambda>found.
          seq (demand (map_option fst found = Some (project_of E project_key))
            ''workflow does not belong to the project'') (\<lambda>_. give w))
      | None \<Rightarrow>
          seq (looking (\<lambda>d. latest_workflow_for_project d (project_of E project_key))) (\<lambda>found.
          demand_some found ''project has no workflow''))"

fun control_command :: "control_operation \<Rightarrow> workflow_state \<Rightarrow> workflow_command option" where
  "control_command PauseWorkflow s = Some Pause"
| "control_command ResumeWorkflow s = Some Resume"
| "control_command CancelWorkflow s = Some Cancel"
| "control_command RetryWorkflow s = Some (if s = Blocked then ResumeInfrastructure else RetryInfrastructure)"
| "control_command _ s = None"

text \<open>\<open>Result::or_else\<close>.\<close>

definition otherwise :: "'a handler \<Rightarrow> 'a handler \<Rightarrow> 'a handler" where
  "otherwise h k = (\<lambda>d. case h d of (d', Inl _) \<Rightarrow> k d' | (d', Inr a) \<Rightarrow> (d', Ok a))"

definition control_change ::
  "ambient \<Rightarrow> workflow_id \<Rightarrow> workflow_state \<Rightarrow> control_operation \<Rightarrow> workflow_command \<Rightarrow> receipt_id \<Rightarrow>
     control_answer handler" where
  "control_change E w state op command operation_id =
     (if op = RetryWorkflow \<and> state = Delivery then give (CommandAnswer True state w)
      else
        seq (looking (\<lambda>d. delivery_reserved (tables d) w)) (\<lambda>reserved.
        seq (demand (\<not> reserved) ''workflow candidate delivery is in progress'') (\<lambda>_.
        let key = ''control:'' @ id_text E operation_id;
            first = on_tables (\<lambda>s. apply_workflow_command s w key command) in
        seq (if op = RetryWorkflow \<and> state = Blocked
             then otherwise first (on_tables (\<lambda>s. apply_workflow_command s w key (ResumeBlocked 5)))
             else first) (\<lambda>(duplicate, _, after).
        give (CommandAnswer duplicate (wf_state after) w)))))"

definition control_execute ::
  "ambient \<Rightarrow> string \<Rightarrow> workflow_id option \<Rightarrow> control_operation \<Rightarrow> receipt_id \<Rightarrow> control_answer handler" where
  "control_execute E project_key requested op operation_id =
     seq (demand (request_text_ok project_key) ''project key is invalid'') (\<lambda>_.
     seq (controlled_workflow E project_key requested) (\<lambda>w.
     seq (current_workflow w) (\<lambda>state.
     case op of
       WorkflowStatus \<Rightarrow> give (StatusAnswer w state)
     | WorkflowTasks \<Rightarrow>
         seq (looking (\<lambda>d. load_workflow_tasks (tables d) w)) (\<lambda>ts.
         give (TasksAnswer w (map (\<lambda>(i, t). (i, Task_Lease.task_state t)) ts)))
     | WorkflowEvidence \<Rightarrow>
         seq (looking (\<lambda>d. case wf_candidate state of None \<Rightarrow> []
           | Some c \<Rightarrow> map (\<lambda>(r, _, mandatory). (r, mandatory)) (load_candidate_evidence (tables d) c))) (\<lambda>records.
         give (EvidenceAnswer w (wf_candidate state) records))
     | _ \<Rightarrow> (case control_command op (wf_state state) of
         None \<Rightarrow> refuse (StoreFailed Panicked)
       | Some command \<Rightarrow> control_change E w (wf_state state) op command operation_id))))"

end
