(* ===== verification/Daemon.thy ===== *)
theory Daemon
  imports Daemon_Intake
begin

text \<open>
  The daemon as a whole: its requests as one step function, and the locale of what every request keeps.
  A request that lets go of the store between its two halves is two calls, and the second takes any
  result of the work in between, so that a list of calls is any interleaving of requests.
\<close>

section \<open>Calls\<close>

datatype daemon_call =
    CallProtocol moment ipc_request
  | CallReport string workflow_id execution_outcome receipt_id
  | CallArbitration moment string workflow_id candidate_id arbiter_verdict
  | CallReview moment string workflow_id candidate_id review_verdict
  | CallBeginPlanning verification_plan_id string workflow_id
  | CallFinishPlanning verification_plan_id string workflow_id "verification_plan_error + verification_plan"
  | CallBeginFreezing candidate_id "evidence_id list" verification_plan_id string workflow_id
  | CallFinishFreezing moment candidate_id string workflow_id frozen_candidate
  | CallBeginVerifying candidate_id verification_plan_id string workflow_id
  | CallFinishVerifying moment verification_plan_id string workflow_id candidate_id verification_plan
      candidate_manifest "verification_run_error + verification_run"
  | CallBeginPromoting string string bool workflow_id candidate_id
  | CallBindPromotion workflow_id candidate_id content_digest "content_digest option" content_digest
  | CallFailPromoting workflow_id candidate_id content_digest string bool
  | CallFinishPromoting workflow_id candidate_id content_digest content_digest
  | CallWorktree string workflow_id
  | CallEligibility string string workflow_id
  | CallControl string "workflow_id option" control_operation receipt_id
  | CallAudit event_id audit_observation

fun daemon_step :: "ambient \<Rightarrow> daemon \<Rightarrow> daemon_call \<Rightarrow> daemon" where
  "daemon_step E d (CallProtocol M q) = fst (handle_protocol_request E M q d)"
| "daemon_step E d (CallReport k w outcome i) = fst (report_execution E k w outcome i d)"
| "daemon_step E d (CallArbitration M k w c v) = fst (submit_arbitration E M k w c v d)"
| "daemon_step E d (CallReview M k w c v) = fst (submit_review E M k w c v d)"
| "daemon_step E d (CallBeginPlanning i k w) = fst (begin_planning E i k w d)"
| "daemon_step E d (CallFinishPlanning i k w r) = fst (finish_planning E i k w r d)"
| "daemon_step E d (CallBeginFreezing c es i k w) = fst (begin_freezing E c es i k w d)"
| "daemon_step E d (CallFinishFreezing M c k w f) = fst (finish_freezing E M c k w f d)"
| "daemon_step E d (CallBeginVerifying c i k w) = fst (begin_verifying E c i k w d)"
| "daemon_step E d (CallFinishVerifying M i k w c p m r) = fst (finish_verifying E M i k w c p m r d)"
| "daemon_step E d (CallBeginPromoting k dir same w c) = fst (begin_promoting E k dir same w c d)"
| "daemon_step E d (CallBindPromotion w c g e j) = fst (bind_promotion w c g e j d)"
| "daemon_step E d (CallFailPromoting w c g m r) = fst (fail_promoting w c g m r d)"
| "daemon_step E d (CallFinishPromoting w c g j) = fst (finish_promoting E w c g j d)"
| "daemon_step E d (CallWorktree k w) = fst (validate_worktree_request E k w d)"
| "daemon_step E d (CallEligibility k s w) = fst (admission_eligibility E k s w d)"
| "daemon_step E d (CallControl k w op i) = fst (control_execute E k w op i d)"
| "daemon_step E d (CallAudit i obs) = fst (audit_record E i obs d)"

definition run_daemon :: "ambient \<Rightarrow> daemon \<Rightarrow> daemon_call list \<Rightarrow> daemon" where
  "run_daemon E d calls = foldl (daemon_step E) d calls"

section \<open>Keeping an invariant at one state\<close>

definition keeps_at :: "(daemon \<Rightarrow> bool) \<Rightarrow> 'a handler \<Rightarrow> daemon \<Rightarrow> bool" where
  "keeps_at P h d \<longleftrightarrow> (P d \<longrightarrow> P (fst (h d)))"

lemma keeps_keeps_at: "keeps P h \<Longrightarrow> keeps_at P h d"
  by (simp add: keeps_def keeps_at_def)

lemma keeps_at_keeps: "(\<And>d. keeps_at P h d) \<Longrightarrow> keeps P h"
  by (simp add: keeps_def keeps_at_def)

lemma keeps_at_seq:
  assumes "keeps_at P h d" and "\<And>d' a. h d = (d', Ok a) \<Longrightarrow> keeps_at P (k a) d'"
  shows "keeps_at P (seq h k) d"
proof (cases "h d")
  case (Pair d' r)
  show ?thesis
  proof (cases r)
    case (Inl e)
    with Pair assms(1) show ?thesis by (simp add: keeps_at_def seq_def)
  next
    case (Inr a)
    with Pair assms(1) assms(2) [of d' a] show ?thesis by (simp add: keeps_at_def seq_def)
  qed
qed

text \<open>A handler that starts by reading, at one state.\<close>

lemma seq_read:
  "seq (give a) k d = k a d"
  "seq (refuse e) k' d = (d, Err e)"
  "seq (looking f) l d = l (f d) d"
  "seq (demand b m) l' d = (if b then l' () d else (d, Err (Refused m)))"
  by (simp_all add: seq_def give_def refuse_def looking_def demand_def)

lemma seq_read_cases:
  "seq (demand_some x m) k d = (case x of None \<Rightarrow> (d, Err (Refused m)) | Some a \<Rightarrow> k a d)"
  "seq (reading f) l d = (case f d of Inl e \<Rightarrow> (d, Err (StoreFailed e)) | Inr a \<Rightarrow> l a d)"
  by (simp_all add: seq_def demand_some_def reading_def give_def refuse_def split: option.split sum.split)

lemma seq_assoc: "seq (seq h k) l = seq h (\<lambda>a. seq (k a) l)"
  by (rule ext) (auto simp: seq_def split: prod.split sum.split)

lemma bt_get_insert_same: "bt_get (bt_insert k v m) k = Some v"
  by (induction k v m rule: bt_insert.induct) (auto simp: bt_get_def)

text \<open>What was checked by the time an arbitration is stored.\<close>

definition arbitration_basis ::
  "ambient \<Rightarrow> daemon \<Rightarrow> workflow_id \<Rightarrow> candidate_id \<Rightarrow> arbiter_verdict \<Rightarrow> arbitration_receipt \<Rightarrow> bool" where
  "arbitration_basis E d w c v r \<longleftrightarrow>
     (\<exists>state p request plan candidate.
        load_workflow (tables d) w = Some state \<and> wf_state state = Arbitration \<and> wf_candidate state = Some c
        \<and> load_arbitration d c = None
        \<and> load_request d w = Ok (Some (p, request)) \<and> load_architecture d w = Ok (Some plan)
        \<and> candidate_of E d c = Ok (Some candidate)
        \<and> receipt_workflow r = w \<and> receipt_candidate r = c
        \<and> receipt_request r = request_digest (sha256 E) (rfc3339_text E) request
        \<and> receipt_candidate_digest r = manifest_digest E (stored_manifest candidate)
        \<and> arbiter_candidate v = manifest_digest E (stored_manifest candidate)
        \<and> receipt_verdict r = verdict_digest E v
        \<and> set (receipt_evidence r) = evidence_record_id ` fst ` set (load_candidate_evidence (tables d) c)
        \<and> arbiter_validate v (fold bs_insert (map requirement_id (requirements plan)) [])
            (receipt_evidence r) = Ok ()
        \<and> (arbiter_decision v = ArbiterApproved \<longrightarrow> \<not> gates_missed (load_candidate_evidence (tables d) c))
        \<and> (case wf_mode state of
             Some Full \<Rightarrow> \<exists>f s. {f, s} \<subseteq> set (load_reviews d c)
               \<and> review_role f = FunctionalReviewer \<and> review_role s = SecurityArchitectureReviewer
               \<and> review_candidate f = receipt_candidate_digest r \<and> review_candidate s = receipt_candidate_digest r
               \<and> functional_review r = Some (review_digest E f) \<and> security_review r = Some (review_digest E s)
               \<and> (arbiter_decision v = ArbiterApproved \<longrightarrow>
                   review_decision f = ReviewApproved \<and> review_decision s = ReviewApproved)
           | Some Quick \<Rightarrow> load_reviews d c = [] \<and> functional_review r = None \<and> security_review r = None
           | None \<Rightarrow> False))"

fun is_approve :: "workflow_command \<Rightarrow> bool" where
  "is_approve (Approve _) = True"
| "is_approve _ = False"

section \<open>What every request keeps\<close>

text \<open>
  An interface between the requests and the tables: what is kept by each operation on the tables, by
  every workflow command but an approval, by storing an arbitration that was checked, and by an
  approval that a stored arbitration backs, is kept by every request.
\<close>

locale daemon_invariant =
  fixes E :: ambient and P :: "daemon \<Rightarrow> bool"
  assumes kept_append: "P d \<Longrightarrow> P (fst (append_ledger_event E d ev))"
    and kept_checkpoint: "P d \<Longrightarrow> P (fst (save_checkpoint E d cp))"
    and kept_request: "P d \<Longrightarrow> P (fst (save_request_once d w p request created))"
    and kept_architecture: "P d \<Longrightarrow> P (fst (save_architecture_once E d w plan))"
    and kept_constraint: "P d \<Longrightarrow> P (fst (save_constraint_once d w kind digest json))"
    and kept_review: "P d \<Longrightarrow> P (fst (save_review_once E d w c review))"
    and kept_arbitration: "P d \<Longrightarrow> arbitration_basis E d w c v r
      \<Longrightarrow> P (fst (save_arbitration_once E d w c v r))"
    and kept_plan: "P d \<Longrightarrow> P (d\<lparr>tables := fst (save_verification_plan_once (tables d) i w json_text)\<rparr>)"
    and kept_candidate: "P d
      \<Longrightarrow> save_candidate_once (sha256 E) (listing_json E) (tables d) w m diff payload = Some (s, res)
      \<Longrightarrow> P (d\<lparr>tables := s\<rparr>)"
    and kept_evidence: "P d
      \<Longrightarrow> P (d\<lparr>tables := fst (save_evidence_once (sha256 E) (tables d) i w c x output mandatory)\<rparr>)"
    and kept_reserve: "P d \<Longrightarrow> P (d\<lparr>tables := fst (reserve_candidate_delivery (tables d) w c digest)\<rparr>)"
    and kept_release: "P d \<Longrightarrow> P (d\<lparr>tables := fst (release_candidate_delivery (tables d) w c digest)\<rparr>)"
    and kept_bind: "P d \<Longrightarrow> P (d\<lparr>tables := fst (bind_delivery_journal (tables d) w c digest expected journal)\<rparr>)"
    and kept_deliver: "P d
      \<Longrightarrow> P (d\<lparr>tables := fst (deliver_reserved_candidate (tables d) w c digest journal key)\<rparr>)"
    and kept_command: "P d \<Longrightarrow> \<not> is_approve command
      \<Longrightarrow> P (d\<lparr>tables := fst (apply_workflow_command (tables d) w key command)\<rparr>)"
    and kept_approval: "P d \<Longrightarrow> bt_get (arbitration_rows d) c = Some (w, v, r)
      \<Longrightarrow> arbiter_decision v = ArbiterApproved \<Longrightarrow> load_workflow (tables d) w = Some state
      \<Longrightarrow> wf_state state = Arbitration \<Longrightarrow> wf_candidate state = Some c
      \<Longrightarrow> P (d\<lparr>tables := fst (apply_workflow_command (tables d) w key (Approve True))\<rparr>)"
begin

lemma auditing_kept [keeps_intro]: "keeps P (auditing E fresh obs)"
  by (rule keeps_auditing) (simp_all add: kept_append kept_checkpoint)

lemma audit_kept: "P d \<Longrightarrow> P (fst (audit_record E i obs d))"
  using keepsD [OF auditing_kept, of d i obs] by (simp add: auditing_def)

lemma commanding_kept [keeps_intro]: "\<not> is_approve command \<Longrightarrow> keeps P (commanding w key command)"
  unfolding commanding_def
  by (intro keeps_seq keeps_on_tables keeps_prod keeps_give kept_command)

lemma validate_project_kept [keeps_intro]: "keeps P (validate_project p w)"
  unfolding validate_project_def by (intro keeps_intro)

lemma current_workflow_kept [keeps_intro]: "keeps P (current_workflow w)"
  unfolding current_workflow_def by (intro keeps_intro)

lemma report_execution_kept: "keeps P (report_execution E k w outcome i)"
proof (rule keeps_at_keeps)
  fix d
  show "keeps_at P (report_execution E k w outcome i) d"
    unfolding report_execution_def
    by (intro keeps_at_seq keeps_keeps_at [OF validate_project_kept] keeps_keeps_at [OF current_workflow_kept]
        keeps_keeps_at [OF keeps_give] keeps_keeps_at [OF commanding_kept])
      (auto simp: handler_Ok_iff split: execution_outcome.splits
        intro!: keeps_keeps_at keeps_intro)
qed

lemma repair_route_kept [keeps_intro]: "keeps P (repair_route E w c cause)"
proof -
  have body: "keeps_at P (seq (if wf_state state = Verification then give (VerificationRejected target)
        else if wf_state state = Arbitration then give (Reject target)
        else refuse (StoreFailed (TransitionFailed InvalidTransition))) (\<lambda>command.
       seq (commanding w key command) k)) d" if "\<And>x. keeps P (k x)" for state target key k d
    by (intro keeps_at_seq keeps_keeps_at [OF that])
      (auto simp: handler_Ok_iff split: if_splits intro!: keeps_keeps_at keeps_intro)
  show ?thesis
    unfolding repair_route_def Let_def
    by (intro keeps_intro keeps_at_keeps [OF body]) simp_all
qed

lemma storing_kept [keeps_intro]:
  "keeps P (storing (\<lambda>d. save_request_once d w p request created))"
  "keeps P (storing (\<lambda>d. save_architecture_once E d w plan))"
  "keeps P (storing (\<lambda>d. save_constraint_once d w kind digest json))"
  "keeps P (storing (\<lambda>d. save_review_once E d w c review))"
  by (rule keeps_storing, simp add: kept_request kept_architecture kept_constraint kept_review)+

lemma on_tables_kept [keeps_intro]:
  "keeps P (on_tables (\<lambda>s. save_verification_plan_once s i w json_text))"
  "keeps P (on_tables (\<lambda>s. save_evidence_once (sha256 E) s i w c x output mandatory))"
  "keeps P (on_tables (\<lambda>s. reserve_candidate_delivery s w c digest))"
  "keeps P (on_tables (\<lambda>s. release_candidate_delivery s w c digest))"
  "keeps P (on_tables (\<lambda>s. bind_delivery_journal s w c digest expected journal))"
  "keeps P (on_tables (\<lambda>s. deliver_reserved_candidate s w c digest journal key))"
  by (rule keeps_on_tables, simp add: kept_plan kept_evidence kept_reserve kept_release kept_bind kept_deliver)+

lemma command_kept [keeps_intro]:
  "\<not> is_approve command \<Longrightarrow> keeps P (on_tables (\<lambda>s. apply_workflow_command s w key command))"
  by (rule keeps_on_tables) (simp add: kept_command)

lemma saving_candidate_kept [keeps_intro]: "keeps P (saving_candidate E w f)"
  unfolding keeps_def
proof (intro allI impI)
  fix d assume "P d"
  then show "P (fst (saving_candidate E w f d))"
    by (cases "save_candidate_once (sha256 E) (listing_json E) (tables d) w (frozen_manifest f)
        (frozen_diff f) (frozen_files f)") (auto simp: saving_candidate_def split: prod.splits intro: kept_candidate)
qed

lemma review_role_name_kept [keeps_intro]: "keeps P (review_role_name role)"
  by (cases role) (simp_all add: review_role_name_def keeps_give keeps_refuse)

lemma submit_review_kept: "keeps P (submit_review E M k w c v)"
  unfolding submit_review_def by (intro keeps_intro) simp_all

lemma stored_plan_kept [keeps_intro]: "keeps P (stored_plan E json)"
  unfolding stored_plan_def by (intro keeps_intro)

lemma planning_kept: "keeps P (begin_planning E i k w)" "keeps P (finish_planning E i k w r)"
  unfolding begin_planning_def finish_planning_def by (intro keeps_intro)+

lemma candidate_ready_kept [keeps_intro]: "keeps P (candidate_ready E w c)"
  unfolding candidate_ready_def by (intro keeps_intro) simp

lemma validate_candidate_state_kept [keeps_intro]: "keeps P (validate_candidate_state w c)"
  unfolding validate_candidate_state_def by (intro keeps_intro)

lemma freezing_kept: "keeps P (begin_freezing E c es i k w)" "keeps P (finish_freezing E M c k w f)"
  unfolding begin_freezing_def finish_freezing_def Let_def by (intro keeps_intro)+

lemma keep_evidence_kept [keeps_intro]: "keeps P (keep_evidence E M i w m c k run x)"
  unfolding keep_evidence_def by (intro keeps_intro)

lemma conclude_verification_kept [keeps_intro]: "keeps P (conclude_verification E w c run)"
  unfolding conclude_verification_def by (intro keeps_intro) simp_all

lemma verifying_kept:
  "keeps P (begin_verifying E c i k w)" "keeps P (finish_verifying E M i k w c p m r)"
  unfolding begin_verifying_def finish_verifying_def by (intro keeps_intro)+

lemma promoting_kept:
  "keeps P (begin_promoting E k dir same w c)" "keeps P (bind_promotion w c g e j)"
  "keeps P (fail_promoting w c g m recover)" "keeps P (finish_promoting E w c g j)"
  unfolding begin_promoting_def bind_promotion_def fail_promoting_def finish_promoting_def
  by (intro keeps_intro)+

lemma reading_requests_kept:
  "keeps P (validate_worktree_request E k w)" "keeps P (admission_eligibility E k s w)"
  unfolding validate_worktree_request_def admission_eligibility_def by (intro keeps_intro)+

lemma decide_and_record_kept [keeps_intro]: "keeps P (decide_and_record E M ev pref approval k w)"
  unfolding decide_and_record_def Let_def by (intro keeps_intro)

lemma start_workflow_kept: "keeps P (start_workflow E M q record)"
  unfolding start_workflow_def Let_def by (intro keeps_intro) simp_all

lemma accept_architecture_kept: "keeps P (accept_architecture E M q plan)"
  unfolding accept_architecture_def Let_def by (intro keeps_intro) simp_all

lemma protocol_kept:
  assumes "P d"
  shows "P (fst (handle_protocol_request E M q d))"
proof -
  have "keeps P (process_protocol_request E M q)"
    by (cases "envelope_payload (ipc_envelope q)")
      (simp_all add: process_protocol_request_def start_workflow_kept accept_architecture_kept
        keeps_coded keeps_refuse)
  from keepsD [OF this assms] show ?thesis
    by (auto simp: handle_protocol_request_def split: prod.splits sum.splits)
qed

lemma control_command_approve: "control_command op s = Some command \<Longrightarrow> \<not> is_approve command"
  by (cases op) (auto split: if_splits)

lemma otherwise_kept [keeps_intro]: "keeps P h \<Longrightarrow> keeps P k \<Longrightarrow> keeps P (otherwise h k)"
  unfolding keeps_def otherwise_def by (auto split: prod.splits sum.splits; metis fst_conv)

lemma control_change_kept: "\<not> is_approve command \<Longrightarrow> keeps P (control_change E w s op command i)"
  unfolding control_change_def Let_def by (intro keeps_intro) simp_all

lemma control_kept: "keeps P (control_execute E k w op i)"
proof -
  have controlled: "keeps P (controlled_workflow E k w)"
    unfolding controlled_workflow_def by (intro keeps_intro)
  show ?thesis
    unfolding control_execute_def
    by (cases op; simp; intro keeps_intro controlled) (auto intro!: control_change_kept)
qed

lemma arbitration_tail_kept:
  assumes "arbitration_basis E d w c v r"
  shows "keeps_at P (seq (storing (\<lambda>d. save_arbitration_once E d w c v r)) (\<lambda>_.
    seq (carry_out_verdict E w c v) (\<lambda>next. seq (auditing E i obs) (\<lambda>_. give (r, next))))) d"
proof (rule keeps_at_seq)
  show "keeps_at P (storing (\<lambda>d. save_arbitration_once E d w c v r)) d"
    using kept_arbitration [OF _ assms] by (simp add: keeps_at_def storing_def)
next
  fix d' dup assume "storing (\<lambda>d. save_arbitration_once E d w c v r) d = (d', Ok dup)"
  then have "save_arbitration_once E d w c v r = (d', Ok dup)"
    by (cases "save_arbitration_once E d w c v r") (auto simp: storing_def)
  then have row: "bt_get (arbitration_rows d') c = Some (w, v, r)" and same: "tables d' = tables d"
    by (auto simp: save_arbitration_once_def bt_get_insert_same split: if_splits option.splits)
  from assms obtain state where state: "load_workflow (tables d') w = Some state"
      "wf_state state = Arbitration" "wf_candidate state = Some c"
    unfolding arbitration_basis_def same by blast
  have "keeps_at P (carry_out_verdict E w c v) d'"
  proof (cases "arbiter_decision v")
    case ArbiterApproved
    note kept = kept_approval [OF _ row ArbiterApproved state]
    have "keeps_at P (on_tables (\<lambda>s. apply_workflow_command s w key (Approve True))) d'" for key
      using kept [of key] by (simp add: keeps_at_def on_tables_def split_beta)
    then show ?thesis
      unfolding carry_out_verdict_def ArbiterApproved commanding_def arbiter_decision.simps
      by (auto intro!: keeps_at_seq keeps_keeps_at [OF keeps_give] keeps_keeps_at [OF keeps_prod] keeps_give)
  next
    case ArbiterRejected
    then show ?thesis
      unfolding carry_out_verdict_def
      by (auto intro!: keeps_keeps_at keeps_option keeps_seq keeps_refuse keeps_give repair_route_kept)
  qed
  then show "keeps_at P (seq (carry_out_verdict E w c v) (\<lambda>next. seq (auditing E i obs) (\<lambda>_. give (r, next)))) d'"
    by (intro keeps_at_seq) (auto intro!: keeps_keeps_at keeps_intro)
qed

end

text \<open>A handler that stops while it reads, or goes on with what it has read.\<close>

definition stops_or :: "(daemon \<times> (refusal + 'a) \<Rightarrow> bool) \<Rightarrow> 'a handler \<Rightarrow> daemon \<Rightarrow> bool" where
  "stops_or Q h d \<longleftrightarrow> (\<exists>e. h d = (d, Err e)) \<or> Q (h d)"

lemma stops_or_rules:
  "(b \<Longrightarrow> stops_or Q (k ()) d) \<Longrightarrow> stops_or Q (seq (demand b m) k) d"
  "(\<And>a. x = Some a \<Longrightarrow> stops_or Q (k' a) d) \<Longrightarrow> stops_or Q (seq (demand_some x m) k') d"
  "(\<And>a. f d = Ok a \<Longrightarrow> stops_or Q (l a) d) \<Longrightarrow> stops_or Q (seq (reading f) l) d"
  "(\<And>a. g d = a \<Longrightarrow> stops_or Q (l' a) d) \<Longrightarrow> stops_or Q (seq (looking g) l') d"
  "stops_or Q (n y) d \<Longrightarrow> stops_or Q (seq (give y) n) d"
  by (auto simp: stops_or_def seq_read seq_read_cases refuse_def split: option.split sum.split)

lemma stops_or_refuse: "stops_or Q (seq (refuse e) k) d"
  by (simp add: stops_or_def seq_read)

lemma stops_or_assoc: "stops_or Q (seq h (\<lambda>a. seq (k a) l)) d \<Longrightarrow> stops_or Q (seq (seq h k) l) d"
  by (simp add: seq_assoc)

lemma stops_or_prod:
  "(\<And>u v. p = (u, v) \<Longrightarrow> stops_or Q (h u v) d) \<Longrightarrow> stops_or Q (case p of (u, v) \<Rightarrow> h u v) d"
  by (cases p) simp

lemma stops_or_mode:
  "(mode = Some Full \<Longrightarrow> stops_or Q (seq h k) d) \<Longrightarrow> (mode = Some Quick \<Longrightarrow> stops_or Q (seq l k) d) \<Longrightarrow>
   (mode = None \<Longrightarrow> stops_or Q (seq n k) d) \<Longrightarrow>
   stops_or Q (seq (case mode of None \<Rightarrow> n | Some Full \<Rightarrow> h | Some Quick \<Rightarrow> l) k) d"
  by (auto split: option.split workflow_mode.split)

lemma stops_or_checked:
  "(\<And>a. x = Inr a \<Longrightarrow> stops_or Q (k ()) d) \<Longrightarrow>
   stops_or Q (seq (case x of Inl e \<Rightarrow> refuse (f e) | Inr _ \<Rightarrow> give ()) k) d"
  by (cases x) (simp_all add: stops_or_rules stops_or_refuse)

text \<open>A new arbitration either stops while it checks, or has a basis and goes on to store it.\<close>

definition stores_arbitration ::
  "ambient \<Rightarrow> moment \<Rightarrow> string \<Rightarrow> workflow_id \<Rightarrow> candidate_id \<Rightarrow> arbiter_verdict \<Rightarrow> arbitration_receipt \<Rightarrow>
     candidate_manifest \<Rightarrow> (arbitration_receipt \<times> workflow_state) handler" where
  "stores_arbitration E M k w c v r m =
     seq (storing (\<lambda>d. save_arbitration_once E d w c v r)) (\<lambda>_.
     seq (carry_out_verdict E w c v) (\<lambda>next.
     seq (auditing E (fresh_event M 0) (arbitration_observation E M k w c m v r)) (\<lambda>_.
     give (r, next))))"

lemma found_by_role:
  "find (\<lambda>v. review_role v = role) reviews = Some x \<Longrightarrow> list_all (\<lambda>v. review_candidate v = digest) reviews
   \<Longrightarrow> x \<in> set reviews \<and> review_role x = role \<and> review_candidate x = digest"
  by (auto simp: find_Some_iff list_all_iff)

definition arbitration_started where
  "arbitration_started E M k w c v d x \<longleftrightarrow>
     (\<exists>r m. arbitration_basis E d w c v r \<and> x = stores_arbitration E M k w c v r m d)"

lemma stops_or_store:
  "arbitration_basis E d w c v r \<Longrightarrow>
   stops_or (arbitration_started E M k w c v d)
     (seq (storing (\<lambda>d. save_arbitration_once E d w c v r)) (\<lambda>_.
      seq (carry_out_verdict E w c v) (\<lambda>next.
      seq (auditing E (fresh_event M 0) (arbitration_observation E M k w c m v r)) (\<lambda>_.
      give (r, next))))) d"
  unfolding stops_or_def arbitration_started_def stores_arbitration_def by blast

lemma evidence_id_set:
  "set (fold bs_insert (map (\<lambda>(r, _). evidence_record_id r) evidence) [])
     = evidence_record_id ` fst ` set evidence"
proof -
  have "set (fold bs_insert xs ys) = set ys \<union> set xs" for xs ys :: "evidence_id list"
    by (induction xs arbitrary: ys) (auto simp: set_insort_insert)
  then show ?thesis by (force simp: split_beta)
qed

lemma submit_new_arbitration_outcome:
  assumes "load_arbitration d c = None"
  shows "stops_or (arbitration_started E M k w c v d) (submit_new_arbitration E M k w c v) d"
  unfolding submit_new_arbitration_def current_workflow_def review_basis_def Let_def seq_assoc
proof (intro stops_or_rules stops_or_mode stops_or_checked stops_or_prod stops_or_refuse
    stops_or_assoc stops_or_store,
    goal_cases)
  case 1
  then show ?case
    using assms by (auto simp: arbitration_basis_def evidence_id_set dest!: found_by_role)
next
  case 2
  then show ?case using assms by (auto simp: arbitration_basis_def evidence_id_set)
qed

context daemon_invariant
begin

lemma submit_new_arbitration_kept:
  assumes "load_arbitration d c = None" and "P d"
  shows "P (fst (submit_new_arbitration E M k w c v d))"
  using submit_new_arbitration_outcome [OF assms(1), of E M k w v]
proof (unfold stops_or_def, elim disjE exE)
  fix e assume "submit_new_arbitration E M k w c v d = (d, Err e)"
  with assms(2) show ?thesis by simp
next
  assume "arbitration_started E M k w c v d (submit_new_arbitration E M k w c v d)"
  then obtain r m where basis: "arbitration_basis E d w c v r"
    and eq: "submit_new_arbitration E M k w c v d = stores_arbitration E M k w c v r m d"
    by (auto simp: arbitration_started_def)
  from arbitration_tail_kept [OF basis] assms(2) show ?thesis
    by (simp add: eq stores_arbitration_def keeps_at_def)
qed

lemma submit_arbitration_kept: "keeps P (submit_arbitration E M k w c v)"
proof (rule keeps_at_keeps)
  fix d
  show "keeps_at P (submit_arbitration E M k w c v) d"
    unfolding submit_arbitration_def
  proof (rule keeps_at_seq [OF keeps_keeps_at [OF validate_project_kept]],
      rule keeps_at_seq [OF keeps_keeps_at [OF keeps_looking]])
    fix d1 d2 u a
    assume "looking (\<lambda>d. load_arbitration d c) d1 = (d2, Ok a)"
    then have a: "load_arbitration d2 c = a" by (auto simp: looking_Ok_iff)
    show "keeps_at P (case a of None \<Rightarrow> submit_new_arbitration E M k w c v
        | Some (owner, verdict, receipt) \<Rightarrow>
            seq (demand (owner = w \<and> verdict = v) ''candidate already has another arbitration verdict'') (\<lambda>_.
            seq (current_workflow w) (\<lambda>state. give (receipt, wf_state state)))) d2"
    proof (cases a)
      case None
      with a submit_new_arbitration_kept [of d2 c] show ?thesis by (simp add: keeps_at_def)
    next
      case (Some x)
      then show ?thesis by (auto intro!: keeps_keeps_at keeps_intro split: prod.split)
    qed
  qed
qed

lemma daemon_step_kept: "P d \<Longrightarrow> P (daemon_step E d call)"
  by (cases call) (simp_all add: protocol_kept keepsD [OF report_execution_kept]
    keepsD [OF submit_arbitration_kept] keepsD [OF submit_review_kept] keepsD [OF planning_kept(1)]
    keepsD [OF planning_kept(2)] keepsD [OF freezing_kept(1)] keepsD [OF freezing_kept(2)]
    keepsD [OF verifying_kept(1)] keepsD [OF verifying_kept(2)] keepsD [OF promoting_kept(1)]
    keepsD [OF promoting_kept(2)] keepsD [OF promoting_kept(3)] keepsD [OF promoting_kept(4)]
    keepsD [OF reading_requests_kept(1)] keepsD [OF reading_requests_kept(2)] keepsD [OF control_kept]
    audit_kept)

lemma run_kept: "P d \<Longrightarrow> P (run_daemon E d calls)"
  unfolding run_daemon_def by (induction calls arbitrary: d) (simp_all add: daemon_step_kept)

end

end
