(* ===== verification/Daemon_Guarantees.thy ===== *)
theory Daemon_Guarantees
  imports Daemon Store_Contents
begin

text \<open>
  What the daemon's requests keep, in any order and however their halves interleave: two instances of
  the locale \<open>daemon_invariant\<close>, one for the approvals behind a delivery and one for the ledger.
\<close>

section \<open>The ledger\<close>

definition ledger_inv :: "ambient \<Rightarrow> daemon \<Rightarrow> bool" where
  "ledger_inv E d \<longleftrightarrow> chain_inv (sha256 E) (event_json E) (ledger d) \<and> length (entries (ledger d)) \<le> 2 ^ 63"

lemma next_entry_chain:
  assumes "chain_inv sha json c" and "length (entries c) < 2 ^ 64"
  shows "next_entry c = Ok (of_nat (length (entries c)), chain_head c)"
proof (cases "entries c")
  case Nil
  then show ?thesis by (simp add: next_entry_def chain_head_def)
next
  case (Cons e es)
  then have ne: "entries c \<noteq> []" by simp
  let ?n = "length (entries c)"
  from assms(1) have "map entry_sequence (entries c) = map of_nat [0..<?n]"
    unfolding chain_inv_def by (metis add_0 verify_entries_sequences)
  then have "last (map entry_sequence (entries c)) = of_nat (?n - 1)"
    using ne by (simp add: last_map last_conv_nth)
  then have s: "entry_sequence (last (entries c)) = of_nat (?n - 1)"
    using ne by (simp add: last_map)
  have n: "?n \<ge> 1" using ne by (cases "entries c") simp_all
  have "unat (of_nat (?n - 1) :: u64) = ?n - 1"
    using assms(2) by (intro unat_of_nat_small) simp
  then have "checked_add (entry_sequence (last (entries c))) 1 = Some (of_nat ?n)"
    using assms(2) n by (simp add: checked_add_def s of_nat_diff)
  moreover have "chain_head c = Some (entry_hash (last (entries c)))"
    using ne by (simp add: chain_head_def)
  ultimately show ?thesis by (simp add: next_entry_def Cons)
qed

text \<open>The stored ledger does what the chain of the ledger crate does.\<close>

lemma append_ledger_event_chain:
  assumes "ledger_inv E d"
  shows "fst (append_ledger_event E d ev) = d
    \<or> fst (append_ledger_event E d ev) =
        d\<lparr>ledger := fst (chain_append (sha256 E) (event_json E) (ledger d) ev)\<rparr>
      \<and> length (entries (ledger d)) < 2 ^ 63"
proof -
  let ?n = "length (entries (ledger d))"
  have n: "?n < 2 ^ 64" "chain_inv (sha256 E) (event_json E) (ledger d)"
    using assms by (simp_all add: ledger_inv_def)
  note entry = next_entry_chain [OF n(2) n(1)]
  have u: "unat (of_nat ?n :: u64) = ?n" using n(1) by (intro unat_of_nat_small) simp
  show ?thesis
    using n(1) by (cases "entry_new (sha256 E) (event_json E) (of_nat ?n) (chain_head (ledger d)) ev")
      (auto simp: append_ledger_event_def entry u chain_append_def fits_def)
qed

lemma ledger_inv_append: "ledger_inv E d \<Longrightarrow> ledger_inv E (fst (append_ledger_event E d ev))"
  using append_ledger_event_chain [of E d ev]
    chain_append_inv [of "sha256 E" "event_json E" "ledger d" ev]
    chain_append_cases [of "sha256 E" "event_json E" "ledger d" ev]
  by (auto simp: ledger_inv_def Let_def)

lemma ledger_inv_tables [simp]: "ledger_inv E (d\<lparr>tables := t\<rparr>) = ledger_inv E d"
  by (simp add: ledger_inv_def)

lemma ledger_inv_cong: "ledger d' = ledger d \<Longrightarrow> ledger_inv E d \<Longrightarrow> ledger_inv E d'"
  by (simp add: ledger_inv_def)

text \<open>What the other operations leave alone.\<close>

lemma storing_frames:
  "ledger (fst (save_checkpoint E d cp)) = ledger d"
  "ledger (fst (save_request_once d w p request created)) = ledger d"
  "ledger (fst (save_architecture_once E d w plan)) = ledger d"
  "ledger (fst (save_constraint_once d w kind digest json)) = ledger d"
  "ledger (fst (save_review_once E d w c review)) = ledger d"
  "ledger (fst (save_arbitration_once E d w c v r)) = ledger d"
  by (auto simp: save_checkpoint_def save_request_once_def save_architecture_once_def Let_def
      save_constraint_once_def save_review_once_def save_arbitration_once_def
      split: option.splits sum.splits)

interpretation daemon_ledger: daemon_invariant E "ledger_inv E" for E
  by unfold_locales
    (simp_all add: ledger_inv_append storing_frames
      ledger_inv_cong [OF storing_frames(1)] ledger_inv_cong [OF storing_frames(2)]
      ledger_inv_cong [OF storing_frames(3)] ledger_inv_cong [OF storing_frames(4)]
      ledger_inv_cong [OF storing_frames(5)] ledger_inv_cong [OF storing_frames(6)])

lemma ledger_inv_empty: "ledger_inv E empty_daemon"
  by (simp add: ledger_inv_def empty_daemon_def chain_inv_empty empty_chain_def [symmetric])
    (simp add: empty_chain_def)

section \<open>Approvals\<close>

text \<open>What is said of one stored arbitration, from what is stored beside it.\<close>

definition arbitration_backed ::
  "ambient \<Rightarrow> daemon \<Rightarrow> candidate_id \<Rightarrow> workflow_id \<Rightarrow> arbiter_verdict \<Rightarrow> arbitration_receipt \<Rightarrow> bool" where
  "arbitration_backed E d c w v r \<longleftrightarrow>
     receipt_workflow r = w \<and> receipt_candidate r = c \<and> receipt_verdict r = verdict_digest E v
     \<and> receipt_candidate_digest r = arbiter_candidate v
     \<and> (\<exists>candidate. candidate_of E d c = Ok (Some candidate)
          \<and> arbiter_candidate v = manifest_digest E (stored_manifest candidate))
     \<and> (functional_review r \<noteq> None \<longrightarrow> (\<exists>f s. {f, s} \<subseteq> set (load_reviews d c)
          \<and> review_role f = FunctionalReviewer \<and> review_role s = SecurityArchitectureReviewer
          \<and> review_candidate f = arbiter_candidate v \<and> review_candidate s = arbiter_candidate v
          \<and> functional_review r = Some (review_digest E f) \<and> security_review r = Some (review_digest E s)
          \<and> (arbiter_decision v = ArbiterApproved \<longrightarrow>
              review_decision f = ReviewApproved \<and> review_decision s = ReviewApproved)))"

definition delivered :: "workflow \<Rightarrow> bool" where
  "delivered s \<longleftrightarrow> effective s = Delivery \<or> effective s = Completed"

definition routed :: "workflow \<Rightarrow> bool" where
  "routed s \<longleftrightarrow> workflow_ok s \<and> (wf_mode s \<noteq> None \<longrightarrow> effective s \<notin> {Intake, Workflow.Routing})"

definition approved_inv :: "ambient \<Rightarrow> daemon \<Rightarrow> bool" where
  "approved_inv E d \<longleftrightarrow> bt_wf (workflow_rows (tables d)) \<and> bt_wf (candidate_rows (tables d))
     \<and> bt_wf (arbitration_rows d)
     \<and> (\<forall>w s. load_workflow (tables d) w = Some s \<longrightarrow> routed s)
     \<and> (\<forall>c w v r. load_arbitration d c = Some (w, v, r) \<longrightarrow> arbitration_backed E d c w v r
          \<and> (\<exists>s. load_workflow (tables d) w = Some s \<and> wf_mode s \<noteq> None
               \<and> (wf_mode s = Some Full \<longrightarrow> functional_review r \<noteq> None)))
     \<and> (\<forall>w s. load_workflow (tables d) w = Some s \<longrightarrow> delivered s
          \<longrightarrow> (\<exists>c v r. wf_candidate s = Some c \<and> load_arbitration d c = Some (w, v, r)
               \<and> arbiter_decision v = ArbiterApproved))"

lemma approved_delivered:
  "approved_inv E d \<Longrightarrow> load_workflow (tables d) w = Some s \<Longrightarrow> delivered s \<Longrightarrow>
   \<exists>c v r. wf_candidate s = Some c \<and> load_arbitration d c = Some (w, v, r) \<and> arbiter_decision v = ArbiterApproved"
  unfolding approved_inv_def by blast

lemma approved_inv_empty: "approved_inv E empty_daemon"
  by (simp add: approved_inv_def empty_daemon_def empty_store_def load_workflow_def load_arbitration_def)

text \<open>What a workflow command does to the stage, the mode and the candidate.\<close>

lemma routed_new: "routed workflow_default"
  by (simp add: routed_def workflow_default_def workflow_new_ok) (simp add: workflow_new_def effective_def)

definition steady :: "workflow_command \<Rightarrow> workflow \<Rightarrow> workflow \<Rightarrow> bool" where
  "steady command s s' \<longleftrightarrow>
     (wf_mode s' \<noteq> None \<longrightarrow> effective s' \<notin> {Intake, Workflow.Routing})
     \<and> (wf_mode s \<noteq> None \<longrightarrow> wf_mode s' = wf_mode s)
     \<and> (\<not> is_approve command \<longrightarrow> delivered s' \<longrightarrow> delivered s \<and> wf_candidate s' = wf_candidate s)
     \<and> (is_approve command \<longrightarrow> wf_candidate s' = wf_candidate s)"

text \<open>A suspended workflow and the one it resumes to are in the same stage.\<close>

lemma steady_suspended:
  assumes "routed s" and "command \<in> {Pause, Resume, BlockInfrastructure, ResumeInfrastructure, RetryInfrastructure}"
    and "workflow_apply s command = (s', Ok evs)"
  shows "steady command s s'"
proof -
  have "effective s' = effective s \<and> wf_mode s' = wf_mode s \<and> wf_candidate s' = wf_candidate s"
    using assms(2)
  proof (elim insertE emptyE)
    assume c: "command = Pause"
    with assms(3) have "can_pause (wf_state s)" by (auto split: if_splits)
    with assms(3) c show ?thesis
      by (cases "wf_state s") (auto simp: effective_def can_pause_def workflow_step_defs)
  next
    assume c: "command = BlockInfrastructure"
    with assms(3) have "can_block_infrastructure (wf_state s)" by (auto split: if_splits)
    with assms(3) c show ?thesis
      by (cases "wf_state s") (auto simp: effective_def can_block_infrastructure_def workflow_step_defs)
  next
    assume c: "command = RetryInfrastructure"
    with assms(3) show ?thesis by (auto split: if_splits)
  next
    assume c: "command = Resume"
    with assms(3) obtain t where "wf_state s = Paused" "wf_paused_from s = Some t"
      by (auto split: if_splits option.splits simp: Let_def)
    moreover from this assms(1) have "can_pause t" "wf_infrastructure_blocked_from s = None"
      by (auto simp: routed_def workflow_ok_def links_ok_def)
    ultimately show ?thesis
      using assms(3) c by (auto simp: effective_def can_pause_def workflow_step_defs Let_def)
  next
    assume c: "command = ResumeInfrastructure"
    with assms(3) obtain t where "wf_state s = Blocked" "wf_infrastructure_blocked_from s = Some t"
      by (auto split: if_splits option.splits simp: Let_def)
    moreover from this assms(1) have "can_block_infrastructure t" "wf_paused_from s = None"
      by (auto simp: routed_def workflow_ok_def links_ok_def)
    ultimately show ?thesis
      using assms(3) c by (auto simp: effective_def can_block_infrastructure_def workflow_step_defs Let_def)
  qed
  with assms(1,2) show ?thesis by (auto simp: steady_def routed_def delivered_def)
qed

text \<open>Every other command leaves a stage that is not suspended for one that is not.\<close>

lemma effective_at [simp]:
  "wf_state s \<noteq> Paused \<Longrightarrow> wf_state s \<noteq> Blocked \<Longrightarrow> effective s = wf_state s"
  "wf_infrastructure_blocked_from s = None \<Longrightarrow> wf_state s = Blocked \<Longrightarrow> effective s = Blocked"
  by (simp_all add: effective_def)

lemma steady_step:
  assumes "routed s" and "workflow_apply s command = (s', Ok evs)"
  shows "steady command s s'"
proof (cases "command \<in> {Pause, Resume, BlockInfrastructure, ResumeInfrastructure, RetryInfrastructure}")
  case True
  with assms show ?thesis by (intro steady_suspended)
next
  case False
  have old: "links_ok s" "wf_state s = Intake \<or> wf_state s = Workflow.Routing \<Longrightarrow> wf_mode s = None"
    using assms(1) by (auto simp: routed_def workflow_ok_def)
  note rules = steady_def delivered_def links_ok_def workflow_step_defs Let_def
  from assms old False show ?thesis
    by (cases command; simp only: workflow_apply.simps split: if_split_asm;
      auto simp: rules split: option.splits workflow_mode.splits repair_target.splits sum.splits if_splits)
qed

lemma routed_step:
  assumes "routed s" and "workflow_apply s command = (s', Ok evs)"
  shows "routed s'"
  using steady_step [OF assms] workflow_apply_ok [of s command evs] assms
  by (simp add: routed_def steady_def)

text \<open>Candidates and reviews are only added, so what backs an arbitration stays.\<close>

definition grows :: "ambient \<Rightarrow> daemon \<Rightarrow> daemon \<Rightarrow> bool" where
  "grows E d d' \<longleftrightarrow> (\<forall>c candidate. candidate_of E d c = Ok (Some candidate) \<longrightarrow> candidate_of E d' c = Ok (Some candidate))
     \<and> (\<forall>c. set (load_reviews d c) \<subseteq> set (load_reviews d' c))"

lemma grows_same:
  "candidate_rows (tables d') = candidate_rows (tables d) \<Longrightarrow> review_rows d' = review_rows d \<Longrightarrow> grows E d d'"
  by (simp add: grows_def candidate_of_def load_candidate_def load_reviews_def)

lemma arbitration_backed_grows:
  "grows E d d' \<Longrightarrow> arbitration_backed E d c w v r \<Longrightarrow> arbitration_backed E d' c w v r"
  unfolding arbitration_backed_def grows_def by (auto; blast)

lemma approved_frame:
  assumes "approved_inv E d" and "workflow_rows (tables d') = workflow_rows (tables d)"
    and "arbitration_rows d' = arbitration_rows d" and "grows E d d'" and "bt_wf (candidate_rows (tables d'))"
  shows "approved_inv E d'"
  using assms arbitration_backed_grows [OF assms(4)]
  by (auto simp: approved_inv_def load_workflow_def load_arbitration_def)

lemma grows_review: "grows E d (fst (save_review_once E d w c review))"
proof (cases "fst (save_review_once E d w c review) = d")
  case True
  then show ?thesis by (simp add: grows_def)
next
  case False
  then obtain role where role: "bt_get (review_rows d) (c, role) = None"
    and eq: "fst (save_review_once E d w c review) = d\<lparr>review_rows := bt_insert (c, role) review (review_rows d)\<rparr>"
    by (auto simp: save_review_once_def split: if_splits option.splits sum.splits)
  have "set (bt_insert (c, role) review (review_rows d)) = insert ((c, role), review) (set (review_rows d))"
    using role by (intro bt_set_insert_new) (force simp: bt_get_def map_of_eq_None_iff)
  then show ?thesis
    by (auto simp: eq grows_def candidate_of_def load_reviews_def)
qed

lemma save_candidate_shape:
  assumes "save_candidate_once sha json s w m diff ps = Some (t, res)" and "bt_wf (candidate_rows s)"
  shows "workflow_rows t = workflow_rows s \<and> bt_wf (candidate_rows t)
    \<and> (\<forall>c row. bt_get (candidate_rows s) c = Some row \<longrightarrow> bt_get (candidate_rows t) c = Some row)"
  using assms by (auto simp: save_candidate_once_def bt_get_insert bt_wf_insert
      split: if_splits option.splits sum.splits)

lemma candidate_of_rows:
  assumes "candidate_of E d c = Ok (Some candidate)"
    and "bt_get (candidate_rows (tables d')) c = bt_get (candidate_rows (tables d)) c"
  shows "candidate_of E d' c = Ok (Some candidate)"
  using assms by (simp add: candidate_of_def load_candidate_def)

lemma approved_candidate:
  assumes "approved_inv E d"
    and "save_candidate_once (sha256 E) (listing_json E) (tables d) w m diff payload = Some (t, res)"
  shows "approved_inv E (d\<lparr>tables := t\<rparr>)"
proof (rule approved_frame [OF assms(1)])
  note shape = save_candidate_shape [OF assms(2)]
  from assms(1) have wf: "bt_wf (candidate_rows (tables d))" by (simp add: approved_inv_def)
  show "workflow_rows (tables (d\<lparr>tables := t\<rparr>)) = workflow_rows (tables d)"
    and "bt_wf (candidate_rows (tables (d\<lparr>tables := t\<rparr>)))" using shape wf by simp_all
  show "grows E d (d\<lparr>tables := t\<rparr>)" unfolding grows_def
  proof (intro conjI allI impI)
    fix c candidate assume found: "candidate_of E d c = Ok (Some candidate)"
    then obtain row where "bt_get (candidate_rows (tables d)) c = Some row"
      by (cases "bt_get (candidate_rows (tables d)) c") (auto simp: candidate_of_def load_candidate_def)
    with shape wf have "bt_get (candidate_rows (tables (d\<lparr>tables := t\<rparr>))) c = bt_get (candidate_rows (tables d)) c"
      by simp
    with found show "candidate_of E (d\<lparr>tables := t\<rparr>) c = Ok (Some candidate)" by (rule candidate_of_rows)
  qed (simp add: load_reviews_def)
qed simp

lemma arbitration_basis_summary:
  assumes "arbitration_basis E d w c v r"
  shows "\<exists>state. load_workflow (tables d) w = Some state \<and> wf_mode state \<noteq> None
    \<and> (wf_mode state = Some Full \<longrightarrow> functional_review r \<noteq> None)
    \<and> load_arbitration d c = None \<and> arbitration_backed E d c w v r"
proof -
  from assms [unfolded arbitration_basis_def] obtain state p request plan candidate where
    state: "load_workflow (tables d) w = Some state" and none: "load_arbitration d c = None"
    and candidate: "candidate_of E d c = Ok (Some candidate)"
    and bound: "receipt_workflow r = w" "receipt_candidate r = c"
      "receipt_candidate_digest r = manifest_digest E (stored_manifest candidate)"
      "arbiter_candidate v = manifest_digest E (stored_manifest candidate)"
      "receipt_verdict r = verdict_digest E v"
    and mode: "case wf_mode state of
             Some Full \<Rightarrow> \<exists>f s. {f, s} \<subseteq> set (load_reviews d c)
               \<and> review_role f = FunctionalReviewer \<and> review_role s = SecurityArchitectureReviewer
               \<and> review_candidate f = receipt_candidate_digest r \<and> review_candidate s = receipt_candidate_digest r
               \<and> functional_review r = Some (review_digest E f) \<and> security_review r = Some (review_digest E s)
               \<and> (arbiter_decision v = ArbiterApproved \<longrightarrow>
                   review_decision f = ReviewApproved \<and> review_decision s = ReviewApproved)
           | Some Quick \<Rightarrow> load_reviews d c = [] \<and> functional_review r = None \<and> security_review r = None
           | None \<Rightarrow> False"
    by blast
  show ?thesis
  proof (cases "wf_mode state")
    case (Some m)
    with mode state none candidate bound show ?thesis
      by (cases m) (auto simp: arbitration_backed_def)
  qed (use mode in simp)
qed

lemma approved_arbitration:
  assumes inv: "approved_inv E d" and basis: "arbitration_basis E d w c v r"
  shows "approved_inv E (fst (save_arbitration_once E d w c v r))"
proof (cases "fst (save_arbitration_once E d w c v r) = d")
  case True
  with inv show ?thesis by simp
next
  case False
  then have eq: "fst (save_arbitration_once E d w c v r) = d\<lparr>arbitration_rows := bt_insert c (w, v, r) (arbitration_rows d)\<rparr>"
    by (auto simp: save_arbitration_once_def split: if_splits option.splits)
  let ?d = "d\<lparr>arbitration_rows := bt_insert c (w, v, r) (arbitration_rows d)\<rparr>"
  from inv have wf: "bt_wf (arbitration_rows d)" by (simp add: approved_inv_def)
  have get: "load_arbitration ?d = (load_arbitration d)(c \<mapsto> (w, v, r))"
    using wf by (simp add: load_arbitration_def [abs_def] bt_get_insert fun_eq_iff)
  have grow: "grows E d ?d" by (rule grows_same) simp_all
  note backed = arbitration_backed_grows [OF grow]
  from arbitration_basis_summary [OF basis] obtain state where
      state: "load_workflow (tables d) w = Some state" "wf_mode state \<noteq> None"
      "wf_mode state = Some Full \<longrightarrow> functional_review r \<noteq> None"
    and none: "load_arbitration d c = None" and now_backed: "arbitration_backed E d c w v r" by blast
  from now_backed have new: "arbitration_backed E ?d c w v r" by (rule backed)
  note parts = inv [unfolded approved_inv_def]
  show ?thesis unfolding eq approved_inv_def get
  proof (intro conjI allI impI)
    fix c' w' v' r' assume row: "((load_arbitration d)(c \<mapsto> (w, v, r))) c' = Some (w', v', r')"
    then have "(c' = c \<and> w' = w \<and> v' = v \<and> r' = r) \<or> load_arbitration d c' = Some (w', v', r')"
      by (auto split: if_splits)
    then show "arbitration_backed E ?d c' w' v' r'"
      and "\<exists>s. load_workflow (tables ?d) w' = Some s \<and> wf_mode s \<noteq> None
        \<and> (wf_mode s = Some Full \<longrightarrow> functional_review r' \<noteq> None)"
      using new state parts backed by auto
  next
    fix u s assume "load_workflow (tables ?d) u = Some s" "delivered s"
    then obtain c' v' r' where "wf_candidate s = Some c'"
      "load_arbitration d c' = Some (u, v', r')" "arbiter_decision v' = ArbiterApproved"
      using approved_delivered [OF inv, of u s] by auto
    with none show "\<exists>c' v' r'. wf_candidate s = Some c'
        \<and> ((load_arbitration d)(c \<mapsto> (w, v, r))) c' = Some (u, v', r') \<and> arbiter_decision v' = ArbiterApproved"
      by (cases "c' = c") auto
  qed (use parts in \<open>auto simp: bt_wf_insert\<close>)
qed

lemma approved_workflow:
  assumes inv: "approved_inv E d" and same: "candidate_rows t = candidate_rows (tables d)"
    and rows: "bt_wf (workflow_rows t)" "load_workflow t = (load_workflow (tables d))(w \<mapsto> st)"
    and st: "routed st"
    and mode: "\<And>s. load_workflow (tables d) w = Some s \<Longrightarrow> wf_mode s \<noteq> None \<Longrightarrow> wf_mode st = wf_mode s"
    and deliver: "delivered st \<Longrightarrow> \<exists>c v r. wf_candidate st = Some c \<and> load_arbitration d c = Some (w, v, r)
               \<and> arbiter_decision v = ArbiterApproved"
  shows "approved_inv E (d\<lparr>tables := t\<rparr>)"
proof -
  have grow: "grows E d (d\<lparr>tables := t\<rparr>)" by (rule grows_same) (simp_all add: same)
  have load: "load_arbitration (d\<lparr>tables := t\<rparr>) = load_arbitration d"
    by (simp add: load_arbitration_def [abs_def])
  note parts = inv [unfolded approved_inv_def]
  show ?thesis unfolding approved_inv_def load
  proof (intro conjI allI impI)
    fix c u v r assume row: "load_arbitration d c = Some (u, v, r)"
    with parts obtain s where "arbitration_backed E d c u v r" and s: "load_workflow (tables d) u = Some s"
      "wf_mode s \<noteq> None" "wf_mode s = Some Full \<longrightarrow> functional_review r \<noteq> None" by blast
    then show "arbitration_backed E (d\<lparr>tables := t\<rparr>) c u v r" by (intro arbitration_backed_grows [OF grow])
    show "\<exists>s. load_workflow (tables (d\<lparr>tables := t\<rparr>)) u = Some s \<and> wf_mode s \<noteq> None
      \<and> (wf_mode s = Some Full \<longrightarrow> functional_review r \<noteq> None)"
      using s mode by (cases "u = w") (auto simp: rows(2))
  next
    fix u s assume row: "load_workflow (tables (d\<lparr>tables := t\<rparr>)) u = Some s"
    then show "routed s" using parts st by (cases "u = w") (auto simp: rows(2))
    assume "delivered s"
    then show "\<exists>c v r. wf_candidate s = Some c \<and> load_arbitration d c = Some (u, v, r)
        \<and> arbiter_decision v = ArbiterApproved"
      using row parts deliver by (cases "u = w") (auto simp: rows(2))
  qed (use parts rows(1) same in simp_all)
qed

text \<open>A workflow command, under an old or a new key, on a new or an old workflow.\<close>

lemma load_workflow_update:
  "bt_wf (workflow_rows s) \<Longrightarrow>
   load_workflow (s\<lparr>workflow_rows := bt_insert w st (workflow_rows s), event_rows := es, dedup_rows := ds\<rparr>)
     = (load_workflow s)(w \<mapsto> st)"
  by (simp add: load_workflow_def [abs_def] bt_get_insert fun_eq_iff)

lemma row_or_default_routed:
  assumes "approved_inv E d"
  shows "routed (row_or_default (tables d) w)"
  using assms routed_new
  by (auto simp: approved_inv_def row_or_default_def load_workflow_def split: option.split)

lemma default_not_delivered [simp]: "\<not> delivered workflow_default"
  by (simp add: delivered_def workflow_default_def workflow_new_def)

lemma approved_step:
  assumes inv: "approved_inv E d"
    and step: "workflow_apply (row_or_default (tables d) w) command = (st, Ok evs)"
    and same: "candidate_rows t = candidate_rows (tables d)"
    and rows: "bt_wf (workflow_rows t)" "load_workflow t = (load_workflow (tables d))(w \<mapsto> st)"
    and approval: "is_approve command \<Longrightarrow> \<exists>s c v r. load_workflow (tables d) w = Some s
      \<and> wf_candidate s = Some c \<and> load_arbitration d c = Some (w, v, r) \<and> arbiter_decision v = ArbiterApproved"
  shows "approved_inv E (d\<lparr>tables := t\<rparr>)"
proof (rule approved_workflow [OF inv same rows])
  note old = row_or_default_routed [OF inv, of w]
  note steady = steady_step [OF old step, unfolded steady_def]
  have row: "load_workflow (tables d) w = Some s \<Longrightarrow> row_or_default (tables d) w = s" for s
    by (simp add: row_or_default_def load_workflow_def)
  show "routed st" by (rule routed_step [OF old step])
  show "wf_mode st = wf_mode s" if "load_workflow (tables d) w = Some s" "wf_mode s \<noteq> None" for s
    using steady row [OF that(1)] that(2) by simp
  assume after: "delivered st"
  show "\<exists>c v r. wf_candidate st = Some c \<and> load_arbitration d c = Some (w, v, r) \<and> arbiter_decision v = ArbiterApproved"
  proof (cases "is_approve command")
    case True
    from approval [OF this] row True steady show ?thesis by fastforce
  next
    case False
    with after steady have "delivered (row_or_default (tables d) w)"
      and c: "wf_candidate st = wf_candidate (row_or_default (tables d) w)" by blast+
    moreover from this(1) obtain s where "load_workflow (tables d) w = Some s"
      by (cases "load_workflow (tables d) w") (auto simp: row_or_default_def load_workflow_def)
    ultimately show ?thesis using approved_delivered [OF inv] row by fastforce
  qed
qed

lemma approved_command:
  assumes inv: "approved_inv E d"
    and approval: "is_approve command \<Longrightarrow> \<exists>s c v r. load_workflow (tables d) w = Some s
      \<and> wf_candidate s = Some c \<and> load_arbitration d c = Some (w, v, r) \<and> arbiter_decision v = ArbiterApproved"
  shows "approved_inv E (d\<lparr>tables := fst (apply_workflow_command (tables d) w key command)\<rparr>)"
proof (cases rule: apply_workflow_cases [of "tables d" w key command])
  case same
  with inv show ?thesis by simp
next
  case applied
  then obtain st evs where step: "workflow_apply (row_or_default (tables d) w) command = (st, Ok evs)"
    and result: "apply_workflow_command (tables d) w key command =
      ((tables d)\<lparr>workflow_rows := bt_insert w st (workflow_rows (tables d)),
         event_rows := event_rows (tables d) @ map (WorkflowLogged w) evs,
         dedup_rows := bt_insert key (WorkflowAggregate w, WorkflowRecorded evs st) (dedup_rows (tables d))\<rparr>,
       Ok (False, evs, st))" by blast
  have "bt_wf (workflow_rows (tables d))" using inv by (simp add: approved_inv_def)
  then show ?thesis unfolding result
    by (intro approved_step [OF inv step]) (erule approval | simp add: load_workflow_update bt_wf_insert)+
qed

lemma approved_deliver:
  assumes inv: "approved_inv E d"
  shows "approved_inv E (d\<lparr>tables := fst (deliver_reserved_candidate (tables d) w c digest journal key)\<rparr>)"
proof (cases rule: deliver_cases [of "tables d" w c digest journal key])
  case same
  with inv show ?thesis by simp
next
  case applied
  then obtain st evs where row: "bt_get (workflow_rows (tables d)) w = Some (row_or_default (tables d) w)"
    and step: "workflow_apply (row_or_default (tables d) w) Deliver = (st, Ok evs)"
    and result: "deliver_reserved_candidate (tables d) w c digest journal key =
      ((tables d)\<lparr>workflow_rows := bt_set w st (workflow_rows (tables d)),
         event_rows := event_rows (tables d) @ map (WorkflowLogged w) evs,
         dedup_rows := bt_insert key (WorkflowAggregate w, WorkflowRecorded evs st) (dedup_rows (tables d)),
         reservation_rows := bt_remove c (reservation_rows (tables d))\<rparr>,
       Ok (False, evs, st))" by blast
  have "bt_wf (workflow_rows (tables d))" using inv by (simp add: approved_inv_def)
  then show ?thesis unfolding result
    by (intro approved_step [OF inv step])
      (simp_all add: load_workflow_def [abs_def] bt_get_set [OF row] fun_eq_iff)
qed

text \<open>What the other operations leave alone.\<close>

definition keeps_rows :: "daemon \<Rightarrow> daemon \<Rightarrow> bool" where
  "keeps_rows d d' \<longleftrightarrow> tables d' = tables d \<and> arbitration_rows d' = arbitration_rows d
     \<and> review_rows d' = review_rows d"

lemma storing_keeps_rows:
  "keeps_rows d (fst (append_ledger_event E d ev))"
  "keeps_rows d (fst (save_checkpoint E d cp))"
  "keeps_rows d (fst (save_request_once d w p request created))"
  "keeps_rows d (fst (save_architecture_once E d w plan))"
  "keeps_rows d (fst (save_constraint_once d w kind digest json))"
  by (auto simp: keeps_rows_def append_ledger_event_def save_checkpoint_def save_request_once_def
      save_architecture_once_def Let_def save_constraint_once_def split: option.split sum.split)

lemma tables_keep_rows:
  "workflow_rows (fst (save_verification_plan_once s i w json_text)) = workflow_rows s"
  "candidate_rows (fst (save_verification_plan_once s i w json_text)) = candidate_rows s"
  "workflow_rows (fst (save_evidence_once sha s i w c x output mandatory)) = workflow_rows s"
  "candidate_rows (fst (save_evidence_once sha s i w c x output mandatory)) = candidate_rows s"
  "workflow_rows (fst (reserve_candidate_delivery s w c digest)) = workflow_rows s"
  "candidate_rows (fst (reserve_candidate_delivery s w c digest)) = candidate_rows s"
  "workflow_rows (fst (release_candidate_delivery s w c digest)) = workflow_rows s"
  "candidate_rows (fst (release_candidate_delivery s w c digest)) = candidate_rows s"
  "workflow_rows (fst (bind_delivery_journal s w c digest expected journal)) = workflow_rows s"
  "candidate_rows (fst (bind_delivery_journal s w c digest expected journal)) = candidate_rows s"
  by (simp_all add: save_verification_plan_once_def save_evidence_once_def reserve_candidate_delivery_def
      release_candidate_delivery_def bind_delivery_journal_def Let_def split: option.split sum.split)

lemma approved_tables:
  assumes "approved_inv E d" and "workflow_rows t = workflow_rows (tables d) \<and> candidate_rows t = candidate_rows (tables d)"
  shows "approved_inv E (d\<lparr>tables := t\<rparr>)"
  using assms by (intro approved_frame [OF assms(1)] grows_same) (simp_all add: approved_inv_def)

lemma approved_storing:
  assumes "approved_inv E d"
    and "keeps_rows d d'"
  shows "approved_inv E d'"
  using assms by (intro approved_frame [OF assms(1)] grows_same) (simp_all add: approved_inv_def keeps_rows_def)

lemma approved_review:
  assumes "approved_inv E d"
  shows "approved_inv E (fst (save_review_once E d w c review))"
proof -
  have "tables (fst (save_review_once E d w c review)) = tables d"
    "arbitration_rows (fst (save_review_once E d w c review)) = arbitration_rows d"
    by (auto simp: save_review_once_def split: option.splits sum.splits)
  with assms show ?thesis
    by (intro approved_frame [OF assms] grows_review) (simp_all add: approved_inv_def)
qed

interpretation daemon_approvals: daemon_invariant E "approved_inv E" for E
proof unfold_locales
  fix d c w v r state key
  assume "approved_inv E d" and "bt_get (arbitration_rows d) c = Some (w, v, r)"
    and "arbiter_decision v = ArbiterApproved" and "load_workflow (tables d) w = Some state"
    and "wf_candidate state = Some c"
  then show "approved_inv E (d\<lparr>tables := fst (apply_workflow_command (tables d) w key (Approve True))\<rparr>)"
    by (intro approved_command) (auto simp: load_arbitration_def)
qed (rule approved_review approved_arbitration approved_candidate approved_deliver; assumption
  | rule approved_command; simp
  | rule approved_storing, assumption, rule storing_keeps_rows
  | rule approved_tables, assumption, simp add: tables_keep_rows)+

section \<open>Records\<close>

text \<open>
  Requests, reviews, arbitrations, constraints, candidates and verification plans are written once, and
  the ledger and the versions of an architecture only grow.
\<close>

definition records_kept :: "daemon \<Rightarrow> daemon \<Rightarrow> bool" where
  "records_kept d d' \<longleftrightarrow>
     bt_wf (request_rows d') \<and> bt_get (request_rows d) \<subseteq>\<^sub>m bt_get (request_rows d')
     \<and> bt_wf (review_rows d') \<and> bt_get (review_rows d) \<subseteq>\<^sub>m bt_get (review_rows d')
     \<and> bt_wf (arbitration_rows d') \<and> bt_get (arbitration_rows d) \<subseteq>\<^sub>m bt_get (arbitration_rows d')
     \<and> bt_wf (constraint_rows d') \<and> bt_get (constraint_rows d) \<subseteq>\<^sub>m bt_get (constraint_rows d')
     \<and> bt_wf (candidate_rows (tables d'))
     \<and> bt_get (candidate_rows (tables d)) \<subseteq>\<^sub>m bt_get (candidate_rows (tables d'))
     \<and> bt_wf (plan_rows (tables d')) \<and> bt_get (plan_rows (tables d)) \<subseteq>\<^sub>m bt_get (plan_rows (tables d'))
     \<and> prefix (version_rows d) (version_rows d') \<and> prefix (entries (ledger d)) (entries (ledger d'))"

lemma map_le_insert:
  "bt_wf m \<Longrightarrow> f \<subseteq>\<^sub>m bt_get m \<Longrightarrow> bt_get m k = None \<Longrightarrow> f \<subseteq>\<^sub>m bt_get (bt_insert k v m)"
  by (simp add: bt_get_insert map_le_def) (metis domIff)

lemma records_kept_storing:
  "records_kept d0 d \<Longrightarrow> records_kept d0 (fst (append_ledger_event E d ev))"
  "records_kept d0 d \<Longrightarrow> records_kept d0 (fst (save_checkpoint E d cp))"
  "records_kept d0 d \<Longrightarrow> records_kept d0 (fst (save_request_once d w p request created))"
  "records_kept d0 d \<Longrightarrow> records_kept d0 (fst (save_architecture_once E d w plan))"
  "records_kept d0 d \<Longrightarrow> records_kept d0 (fst (save_constraint_once d w kind digest json))"
  by (auto simp: records_kept_def append_ledger_event_def save_checkpoint_def save_request_once_def
      save_architecture_once_def Let_def save_constraint_once_def map_le_insert bt_wf_insert
      split: option.split sum.split)

lemma records_kept_review: "records_kept d0 d \<Longrightarrow> records_kept d0 (fst (save_review_once E d w c review))"
  by (cases "fst (save_review_once E d w c review) = d")
    (auto simp: records_kept_def save_review_once_def map_le_insert bt_wf_insert
      split: option.splits sum.splits if_splits)

lemma records_kept_arbitration:
  "records_kept d0 d \<Longrightarrow> records_kept d0 (fst (save_arbitration_once E d w c v r))"
  by (auto simp: records_kept_def save_arbitration_once_def map_le_insert bt_wf_insert split: option.split)

text \<open>The operations on the tables leave both kinds of record alone, or add to one of them.\<close>

lemma records_kept_tables:
  assumes "records_kept d0 d"
    and "bt_wf (candidate_rows t)" "bt_get (candidate_rows (tables d)) \<subseteq>\<^sub>m bt_get (candidate_rows t)"
    and "bt_wf (plan_rows t)" "bt_get (plan_rows (tables d)) \<subseteq>\<^sub>m bt_get (plan_rows t)"
  shows "records_kept d0 (d\<lparr>tables := t\<rparr>)"
  using assms by (auto simp: records_kept_def intro: map_le_trans)

definition same_records :: "store \<Rightarrow> store \<Rightarrow> bool" where
  "same_records s t \<longleftrightarrow> candidate_rows t = candidate_rows s \<and> plan_rows t = plan_rows s"

lemma records_kept_same: "records_kept d0 d \<Longrightarrow> same_records (tables d) t \<Longrightarrow> records_kept d0 (d\<lparr>tables := t\<rparr>)"
  by (simp add: records_kept_def same_records_def)

lemma same_records_steps:
  "same_records s (fst (save_evidence_once sha s i w c x output mandatory))"
  "same_records s (fst (reserve_candidate_delivery s w c digest))"
  "same_records s (fst (release_candidate_delivery s w c digest))"
  "same_records s (fst (bind_delivery_journal s w c digest expected journal))"
  by (simp_all add: same_records_def save_evidence_once_def reserve_candidate_delivery_def
      release_candidate_delivery_def bind_delivery_journal_def Let_def split: option.split sum.split)

lemma same_records_commands:
  "same_records s (fst (apply_workflow_command s w key command))"
  "same_records s (fst (deliver_reserved_candidate s w c digest journal key))"
proof -
  show "same_records s (fst (apply_workflow_command s w key command))"
    by (cases rule: apply_workflow_cases [of s w key command]) (auto simp: same_records_def)
  show "same_records s (fst (deliver_reserved_candidate s w c digest journal key))"
    by (cases rule: deliver_cases [of s w c digest journal key]) (auto simp: same_records_def)
qed

lemma records_kept_plan:
  assumes "records_kept d0 d"
  shows "records_kept d0 (d\<lparr>tables := fst (save_verification_plan_once (tables d) i w json_text)\<rparr>)"
proof (rule records_kept_tables [OF assms])
  from assms have "bt_wf (plan_rows (tables d))" by (simp add: records_kept_def)
  then show "bt_wf (plan_rows (fst (save_verification_plan_once (tables d) i w json_text)))"
    "bt_get (plan_rows (tables d)) \<subseteq>\<^sub>m bt_get (plan_rows (fst (save_verification_plan_once (tables d) i w json_text)))"
    by (simp_all add: save_verification_plan_once_def map_le_insert bt_wf_insert split: option.split)
qed (use assms in \<open>simp_all add: records_kept_def tables_keep_rows\<close>)

lemma records_kept_candidate:
  assumes "records_kept d0 d" and "save_candidate_once sha json (tables d) w m diff payload = Some (t, res)"
  shows "records_kept d0 (d\<lparr>tables := t\<rparr>)"
proof (rule records_kept_tables [OF assms(1)])
  from assms(1) have wf: "bt_wf (candidate_rows (tables d))" "bt_wf (plan_rows (tables d))"
    by (simp_all add: records_kept_def)
  from save_candidate_shape [OF assms(2) wf(1)]
  show "bt_wf (candidate_rows t)" "bt_get (candidate_rows (tables d)) \<subseteq>\<^sub>m bt_get (candidate_rows t)"
    by (auto simp: map_le_def)
  have "plan_rows t = plan_rows (tables d)"
    using assms(2) by (auto simp: save_candidate_once_def split: if_splits option.splits sum.splits)
  with wf show "bt_wf (plan_rows t)" "bt_get (plan_rows (tables d)) \<subseteq>\<^sub>m bt_get (plan_rows t)" by simp_all
qed

interpretation daemon_records: daemon_invariant E "records_kept d0" for E d0
  by unfold_locales
    (simp_all add: records_kept_storing records_kept_review records_kept_arbitration records_kept_plan
      records_kept_candidate records_kept_same same_records_steps same_records_commands)

lemma records_kept_empty: "records_kept empty_daemon empty_daemon"
  by (simp add: records_kept_def empty_daemon_def empty_store_def bt_wf_def)

lemma records_kept_refl: "records_kept d0 d \<Longrightarrow> records_kept d d"
  by (simp add: records_kept_def)

end
