(* ===== verification/Daemon_Delivery.thy ===== *)
theory Daemon_Delivery
  imports Daemon_Guarantees
begin

text \<open>
  What the daemon's requests guarantee together: a delivery has its approvals, records are final, the
  ledger verifies, a project cannot touch the workflows of another; and where the requests' own keys
  and checks fall short.  A small run, from a request to an approved delivery, shows that the
  hypotheses can hold.
\<close>

section \<open>Deliveries, records and the ledger\<close>

text \<open>
  C3. Whatever requests the daemon has served since it started with an empty store, in any order and
  interleaved at every point where a request lets go of the store, a workflow that is being delivered
  or is completed (also when it is paused or blocked there) has a stored approval: an arbitration of
  this workflow and of its current candidate that decided approval, whose receipt names the workflow,
  the candidate, the digest of the verdict and the digest of the stored candidate; and when the
  workflow was routed as full, a functional and a security review of that digest are stored, both
  approve, and the receipt holds their digests.
\<close>

theorem delivered_workflows_were_approved:
  assumes "d = run_daemon E empty_daemon calls" and "load_workflow (tables d) w = Some s"
    and "effective s \<in> {Delivery, Completed}"
  shows "\<exists>c v r candidate. wf_candidate s = Some c \<and> load_arbitration d c = Some (w, v, r)
    \<and> arbiter_decision v = ArbiterApproved \<and> candidate_of E d c = Ok (Some candidate)
    \<and> receipt_workflow r = w \<and> receipt_candidate r = c \<and> receipt_verdict r = verdict_digest E v
    \<and> receipt_candidate_digest r = manifest_digest E (stored_manifest candidate)
    \<and> arbiter_candidate v = manifest_digest E (stored_manifest candidate)
    \<and> (wf_mode s = Some Full \<longrightarrow> (\<exists>f g. {f, g} \<subseteq> set (load_reviews d c)
         \<and> review_role f = FunctionalReviewer \<and> review_role g = SecurityArchitectureReviewer
         \<and> review_decision f = ReviewApproved \<and> review_decision g = ReviewApproved
         \<and> review_candidate f = receipt_candidate_digest r \<and> review_candidate g = receipt_candidate_digest r
         \<and> functional_review r = Some (review_digest E f) \<and> security_review r = Some (review_digest E g)))"
proof -
  have inv: "approved_inv E d"
    unfolding assms(1) by (rule daemon_approvals.run_kept [OF approved_inv_empty])
  have "delivered s" using assms(3) by (auto simp: delivered_def)
  from approved_delivered [OF inv assms(2) this] obtain c v r where
    c: "wf_candidate s = Some c" and row: "load_arbitration d c = Some (w, v, r)"
    and v: "arbiter_decision v = ArbiterApproved" by blast
  from inv row have backed: "arbitration_backed E d c w v r"
    and full: "wf_mode s = Some Full \<Longrightarrow> functional_review r \<noteq> None"
    using assms(2) unfolding approved_inv_def by (blast, fastforce)
  from backed obtain candidate where "candidate_of E d c = Ok (Some candidate)"
    "arbiter_candidate v = manifest_digest E (stored_manifest candidate)"
    unfolding arbitration_backed_def by blast
  with c row v backed full show ?thesis unfolding arbitration_backed_def by (auto; blast)
qed

text \<open>
  C4. What is recorded stays: from any state the daemon can reach, no further requests change or remove
  a stored request, review, arbitration, constraint, verification plan or candidate, the ledger's
  entries stay where they are and new ones follow them, and so do the versions of an architecture.
\<close>

theorem stored_records_are_final:
  "let d = run_daemon E empty_daemon xs; d' = run_daemon E d ys in
     bt_get (request_rows d) \<subseteq>\<^sub>m bt_get (request_rows d')
   \<and> bt_get (review_rows d) \<subseteq>\<^sub>m bt_get (review_rows d')
   \<and> load_arbitration d \<subseteq>\<^sub>m load_arbitration d'
   \<and> bt_get (constraint_rows d) \<subseteq>\<^sub>m bt_get (constraint_rows d')
   \<and> load_verification_plan d \<subseteq>\<^sub>m load_verification_plan d'
   \<and> bt_get (candidate_rows (tables d)) \<subseteq>\<^sub>m bt_get (candidate_rows (tables d'))
   \<and> prefix (entries (ledger d)) (entries (ledger d')) \<and> prefix (version_rows d) (version_rows d')"
proof -
  let ?d = "run_daemon E empty_daemon xs"
  have "records_kept empty_daemon ?d" by (rule daemon_records.run_kept [OF records_kept_empty])
  from daemon_records.run_kept [OF records_kept_refl [OF this], of E ys]
  show ?thesis
    unfolding records_kept_def Let_def
    by (simp add: load_arbitration_def [abs_def] load_verification_plan_def [abs_def])
qed

text \<open>
  C6. After any requests, the stored ledger verifies against its own head with all its entries: every
  sequence number, every link to the entry before and every recalculated hash.
\<close>

theorem daemon_ledger_verifies:
  "let c = ledger (run_daemon E empty_daemon calls) in
   chain_verify (sha256 E) (event_json E) c (chain_head c) = Valid (length (entries c)) (chain_head c)"
proof -
  have "ledger_inv E (run_daemon E empty_daemon calls)"
    by (rule daemon_ledger.run_kept [OF ledger_inv_empty])
  then show ?thesis by (simp add: ledger_inv_def chain_inv_def chain_verify_def Let_def)
qed

section \<open>Projects\<close>

text \<open>The project key and the workflow that a call carries together; promotions are left out.\<close>

fun acts_for :: "daemon_call \<Rightarrow> (string \<times> workflow_id) option" where
  "acts_for (CallProtocol M q) = map_option (Pair (ipc_project_key q)) (ipc_workflow q)"
| "acts_for (CallReport k w outcome i) = Some (k, w)"
| "acts_for (CallArbitration M k w c v) = Some (k, w)"
| "acts_for (CallReview M k w c v) = Some (k, w)"
| "acts_for (CallBeginPlanning i k w) = Some (k, w)"
| "acts_for (CallFinishPlanning i k w r) = Some (k, w)"
| "acts_for (CallBeginFreezing c es i k w) = Some (k, w)"
| "acts_for (CallFinishFreezing M c k w f) = Some (k, w)"
| "acts_for (CallBeginVerifying c i k w) = Some (k, w)"
| "acts_for (CallFinishVerifying M i k w c p m r) = Some (k, w)"
| "acts_for (CallWorktree k w) = Some (k, w)"
| "acts_for (CallEligibility k workspace w) = Some (k, w)"
| "acts_for (CallControl k w op i) = map_option (Pair k) w"
| "acts_for (CallAudit i obs) = map_option (Pair (obs_project obs)) (obs_workflow obs)"
| "acts_for _ = None"

text \<open>One event more, and perhaps a checkpoint.\<close>

definition logs_only :: "ambient \<Rightarrow> string \<Rightarrow> workflow_id \<Rightarrow> daemon \<Rightarrow> daemon \<Rightarrow> bool" where
  "logs_only E k w d d' \<longleftrightarrow> (\<exists>entry checkpoints. event_project (entry_event entry) = project_of E k
     \<and> event_workflow (entry_event entry) = Some w
     \<and> d' = d\<lparr>ledger := (ledger d)\<lparr>entries := entries (ledger d) @ [entry]\<rparr>, checkpoint_rows := checkpoints\<rparr>)"

lemma validate_project_foreign:
  assumes "bt_get (request_rows d) w = Some (p, r, t)" and "p \<noteq> project_of E k"
  shows "fst (seq (validate_project (project_of E k) w) h d) = d"
  using assms by (cases "request_try_from r")
    (auto simp: validate_project_def load_request_def seq_assoc seq_read seq_read_cases)

lemma protocol_foreign:
  assumes row: "bt_get (request_rows d) w = Some (p, r, t)" and p: "p \<noteq> project_of E (ipc_project_key q)"
    and w: "ipc_workflow q = Some w"
  shows "fst (handle_protocol_request E M q d) = d"
proof -
  have "\<exists>e. process_protocol_request E M q d = (d, Err e)"
  proof (cases "envelope_payload (ipc_envelope q)")
    case (RequestPayload request)
    have "fst (save_request_once d w (project_of E (ipc_project_key q)) request created) = d
      \<and> (\<exists>e. snd (save_request_once d w (project_of E (ipc_project_key q)) request created) = Err e)" for created
      using row p by (simp add: save_request_once_def)
    then obtain e where "save_request_once d w (project_of E (ipc_project_key q)) request
        (rfc3339_text E (moment_time M)) = (d, Err e)" by (metis prod.collapse)
    then show ?thesis
      by (simp add: process_protocol_request_def RequestPayload start_workflow_def w seq_def coded_def
          demand_def storing_def refuse_def give_def)
  next
    case (ArchitecturePayload plan)
    then show ?thesis using row p
      by (cases "request_try_from r")
        (simp_all add: process_protocol_request_def accept_architecture_def w seq_def coded_def demand_def
          demand_some_def reading_def refuse_def give_def load_request_def)
  qed (simp_all add: process_protocol_request_def coded_def refuse_def)
  then show ?thesis by (auto simp: handle_protocol_request_def)
qed

lemma control_foreign:
  assumes "bt_get (request_rows d) w = Some (p, r, t)" and "p \<noteq> project_of E k"
  shows "fst (control_execute E k (Some w) op i d) = d"
  using assms by (cases "request_try_from r")
    (auto simp: control_execute_def controlled_workflow_def load_request_def seq_assoc seq_read seq_read_cases)

lemma event_of_names:
  "event_of E i obs = Ok e \<Longrightarrow> event_project e = project_of E (obs_project obs) \<and> event_workflow e = obs_workflow obs"
  by (auto simp: event_of_def ledger_event_new_def Let_def split: if_splits)

lemma entry_new_event: "entry_new sha json n parent e = Ok entry \<Longrightarrow> entry_event entry = e"
  by (auto simp: entry_new_def Let_def split: sum.splits if_splits)

lemma audit_logs_only:
  assumes "obs_workflow obs = Some w"
  shows "fst (audit_record E i obs d) = d \<or> logs_only E (obs_project obs) w d (fst (audit_record E i obs d))"
proof (cases "\<exists>event d' entry. event_of E i obs = Ok event \<and> append_ledger_event E d event = (d', Ok entry)")
  case True
  then obtain event d' entry where event: "event_of E i obs = Ok event"
    and appended: "append_ledger_event E d event = (d', Ok entry)" by blast
  have d': "d' = d\<lparr>ledger := (ledger d)\<lparr>entries := entries (ledger d) @ [entry]\<rparr>\<rparr>"
    and "entry_event entry = event"
    using appended by (auto simp: append_ledger_event_def entry_new_event split: sum.splits if_splits)
  then have names: "event_project (entry_event entry) = project_of E (obs_project obs)"
    "event_workflow (entry_event entry) = Some w"
    using event_of_names [OF event] assms by simp_all
  have same: "d'\<lparr>checkpoint_rows := checkpoint_rows d'\<rparr> = d'" by simp
  have saved: "\<exists>checkpoints. fst (save_checkpoint E d' c) = d'\<lparr>checkpoint_rows := checkpoints\<rparr>" for c
  proof -
    have "\<exists>checkpoints. d' = d'\<lparr>checkpoint_rows := checkpoints\<rparr>" using same by metis
    then show ?thesis by (auto simp: save_checkpoint_def Let_def)
  qed
  have "fst (audit_record E i obs d) = d \<or> fst (audit_record E i obs d) = d'
      \<or> (\<exists>c. fst (audit_record E i obs d) = fst (save_checkpoint E d' c))"
    by (simp add: audit_record_def event appended split: prod.split sum.split) (metis fst_conv)
  then obtain checkpoints where "fst (audit_record E i obs d) = d
      \<or> fst (audit_record E i obs d) = d'\<lparr>checkpoint_rows := checkpoints\<rparr>"
    using saved same by metis
  then show ?thesis
    using names by (auto simp: logs_only_def d')
next
  case False
  then have "fst (audit_record E i obs d) = d"
    by (auto simp: audit_record_def append_ledger_event_def split: sum.splits prod.splits if_splits)
  then show ?thesis ..
qed

text \<open>
  C5. A project cannot touch the workflows of another one.  A call that carries a workflow together with
  the key of a project other than the one the workflow's request belongs to changes nothing at all,
  whatever else it carries, unless it is an audit observation.  Those are not checked: an observation
  adds at most one event to the ledger, which has the foreign project and the workflow in it, and a
  checkpoint.  (Promotion takes a project key without checking it and is not covered.)
\<close>

theorem foreign_project_changes_nothing:
  assumes "acts_for call = Some (k, w)" and "bt_get (request_rows d) w = Some (p, r, t)"
    and "p \<noteq> project_of E k"
  shows "daemon_step E d call = d
    \<or> (\<exists>i obs. call = CallAudit i obs) \<and> logs_only E k w d (daemon_step E d call)"
proof -
  note foreign = validate_project_foreign [OF assms(2,3)]
  show ?thesis
  proof (cases call)
    case (CallFinishPlanning i k' w' res)
    with assms(1) foreign show ?thesis by (cases res) (simp_all add: finish_planning_def refuse_def)
  next
    case (CallFinishVerifying M i k' w' c p' m res)
    with assms(1) foreign show ?thesis by (cases res) (simp_all add: finish_verifying_def refuse_def)
  next
    case (CallProtocol M q)
    with assms show ?thesis by (auto intro: protocol_foreign)
  next
    case (CallControl k' w' op i)
    with assms show ?thesis by (auto intro: control_foreign)
  next
    case (CallAudit i obs)
    with assms(1) audit_logs_only [of obs w E i d] show ?thesis by auto
  next
    case (CallEligibility k' workspace w')
    with assms show ?thesis
      by (cases "request_try_from r")
        (auto simp: admission_eligibility_def give_def seq_def reading_def load_request_def)
  qed (use assms(1) foreign in
      \<open>simp_all add: report_execution_def submit_arbitration_def submit_review_def begin_planning_def
        begin_freezing_def finish_freezing_def begin_verifying_def validate_worktree_request_def\<close>)
qed

section \<open>Where the keys and checks fall short\<close>

lemma commanding_again:
  assumes "read_write (tables d)" and "validate_idempotency_key key = Ok ()"
    and "\<not> delivery_reserved (tables d) w"
    and "bt_get (dedup_rows (tables d)) key = Some (WorkflowAggregate w, WorkflowRecorded evs st)"
  shows "commanding w key command d = (d, Ok st)"
  using assms by (simp add: commanding_def seq_def on_tables_def apply_workflow_command_def give_def)

text \<open>
  The key of an infrastructure block after a verification names the workflow and the candidate only.
  A second block of the same candidate, after the first was resumed, is answered with the recorded
  state of the first, and the workflow stays where it is.
\<close>

theorem second_block_is_not_carried_out:
  assumes "read_write (tables d)" and "\<not> delivery_reserved (tables d) w"
    and "validate_idempotency_key (candidate_key E w c ''verification-blocked'') = Ok ()"
    and "bt_get (dedup_rows (tables d)) (candidate_key E w c ''verification-blocked'')
      = Some (WorkflowAggregate w, WorkflowRecorded evs st)"
    and "\<not> mandatory_passed run" and "infrastructure_blocked run"
  shows "conclude_verification E w c run d = (d, Ok (wf_state st))"
  using assms by (simp add: conclude_verification_def seq_def commanding_again give_def)

text \<open>
  A candidate that was frozen before is frozen again after a repair: the key of \<open>CandidateReady\<close> was
  used, so the request succeeds and the workflow is still executing.
\<close>

theorem refrozen_candidate_is_not_selected:
  assumes "validate_project (project_of E k) w d = (d, Ok ())"
    and "load_verification_plan d i = Some (w, json)" and "read_plan E json = Some plan"
    and "set (plan_evidence_ids plan) = set evidence_ids"
    and "length (fold bs_insert (plan_evidence_ids plan) []) = length evidence_ids"
    and "candidate_of E d c = Ok (Some candidate)" and "stored_workflow candidate = w"
    and "require_exact_files candidate = Ok exact" and "load_workflow (tables d) w = Some state"
    and "executing state" and "read_write (tables d)" and "\<not> delivery_reserved (tables d) w"
    and "validate_idempotency_key (id_text E w @ '':candidate:'' @ id_text E c) = Ok ()"
    and "bt_get (dedup_rows (tables d)) (id_text E w @ '':candidate:'' @ id_text E c)
      = Some (WorkflowAggregate w, WorkflowRecorded evs st)"
  shows "begin_freezing E c evidence_ids i k w d = (d, Ok (Some (stored_manifest candidate)))"
  using assms by (simp add: begin_freezing_def seq_def looking_def demand_some_def demand_def give_def
      stored_plan_def reading_def current_workflow_def candidate_ready_def commanding_again)

text \<open>A promotion does not ask whose workflow it is: any two project keys are treated alike.\<close>

theorem promotion_ignores_the_project:
  assumes "request_text_ok k" and "request_text_ok k'"
  shows "begin_promoting E k directory same_repository w c = begin_promoting E k' directory same_repository w c"
  using assms by (simp add: begin_promoting_def)

text \<open>
  An audit observation does not ask either.  Recovery takes the base revision of a workflow from the
  ledger, and an observation under any project key sets it.
\<close>

theorem any_project_sets_the_base_revision:
  assumes "audit_record E i obs d = (d', Ok entry)" and "obs_workflow obs = Some w"
    and "obs_data obs = GitAudit False revision" and "is_revision revision" and "\<not> sensitive_value revision"
    and "bt_get (obs_metadata obs) ''action'' = Some ''execution_worktree_prepared''"
  shows "load_worktree_base_revision d' w = Ok (Some revision)"
proof -
  from assms(1) obtain event where event: "event_of E i obs = Ok event"
    by (auto simp: audit_record_def split: if_splits sum.splits)
  have plain: "redact_metadata (redactor_new []) m = map (\<lambda>(key, value). (key,
      if is_sensitive_key (redactor_new []) key \<or> sensitive_value value then redacted_text else value)) m" for m
    by (simp add: redact_metadata_def)
  have kept: "\<not> is_sensitive_key (redactor_new []) ''action''" "\<not> sensitive_value ''execution_worktree_prepared''"
    by code_simp+
  have lookup: "bt_get (redact_metadata (redactor_new []) m) ''action'' = Some ''execution_worktree_prepared''"
    if "bt_get m ''action'' = Some ''execution_worktree_prepared''" for m
    using that kept unfolding plain bt_get_def by (induction m) auto
  have parts: "event_data event = GitData False revision" "event_workflow event = Some w"
    "bt_get (event_metadata event) ''action'' = Some ''execution_worktree_prepared''"
    using event assms(2,3,5) lookup [OF assms(6)]
    by (auto simp: event_of_def ledger_event_new_def Let_def redact_value_id split: if_splits)
  have "entries (ledger d') = entries (ledger d) @ [entry] \<and> entry_event entry = event"
    using assms(1) event
    by (auto simp: audit_record_def append_ledger_event_def save_checkpoint_def Let_def entry_new_event
        split: if_splits sum.splits prod.splits)
  with parts assms(4) show ?thesis by (simp add: load_worktree_base_revision_def)
qed

section \<open>A replanned workflow\<close>

lemma keeps_at_step:
  assumes "\<And>d. P d \<Longrightarrow> P (fst (h d)) \<and> (\<forall>a. snd (h d) = Ok a \<longrightarrow> keeps P (k a))"
  shows "keeps P (seq h k)"
  unfolding keeps_def
proof (intro allI impI)
  fix d assume "P d"
  from assms [OF this] show "P (fst (seq h k d))"
    by (cases "h d"; cases "snd (h d)") (auto simp: seq_def keeps_def)
qed

lemma demanded: "seq (coded code (demand_some (Some a) m)) k = k a"
  by (rule ext) (simp add: seq_def coded_def demand_some_def give_def)

lemma recorded_command_changes_nothing:
  assumes "bt_get (dedup_rows s) key = Some (aggregate, recorded)"
  shows "fst (apply_workflow_command s w key command) = s"
  using assms by (auto simp: apply_workflow_command_def split: sum.split)

text \<open>The plan is for the request of the workflow, and comes from the project of that request.\<close>

definition plan_fits :: "ambient \<Rightarrow> daemon \<Rightarrow> ipc_request \<Rightarrow> workflow_id \<Rightarrow> architecture_plan \<Rightarrow> bool" where
  "plan_fits E d q w plan \<longleftrightarrow> (\<exists>row request created. bt_get (request_rows d) w = Some (project_of E (ipc_project_key q), row, created)
     \<and> request_try_from row = Ok request
     \<and> request_digest (sha256 E) (rfc3339_text E) request = plan_request_digest plan)"

lemma other_plan_is_refused:
  assumes "load_workflow (tables d) w = Some s" and "wf_cycles s = 0"
    and "bt_get (architecture_rows d) w = Some stored" and "ipc_workflow q = Some w" and "plan \<noteq> stored"
  shows "\<exists>e. accept_architecture E M q plan d = (d, Err e)
    \<and> (plan_fits E d q w plan \<and> read_write (tables d) \<longrightarrow>
        e = Coded ''architecture_rejected'' (StoreFailed AggregateConflict))"
proof -
  let ?save = "save_architecture_once E d w plan"
  have "\<exists>e. ?save = (d, Err e) \<and> (plan_fits E d q w plan \<and> read_write (tables d) \<longrightarrow> e = AggregateConflict)"
    using assms(1-3,5)
    by (auto simp: save_architecture_once_def plan_fits_def split: sum.split option.split)
  then obtain e where save: "?save = (d, Err e)"
    and conflict: "plan_fits E d q w plan \<and> read_write (tables d) \<longrightarrow> e = AggregateConflict" by blast
  have load: "\<exists>r. load_request d w = Ok (Some (project_of E (ipc_project_key q), r))" if "plan_fits E d q w plan"
    using that by (auto simp: load_request_def plan_fits_def)
  note defs = accept_architecture_def assms(4) seq_def coded_def reading_def storing_def demand_some_def
    demand_def give_def refuse_def save
  show ?thesis
  proof (cases "load_request d w")
    case (Inl e')
    then show ?thesis using load by (auto simp: defs)
  next
    case (Inr found)
    show ?thesis
    proof (cases "\<exists>r. found = Some (project_of E (ipc_project_key q), r)")
      case True
      with Inr conflict show ?thesis by (auto simp: defs)
    next
      case False
      with Inr load show ?thesis by (cases found) (auto simp: defs)
    qed
  qed
qed

lemma stored_plan_is_a_duplicate:
  assumes "load_workflow (tables d) w = Some s" and "wf_state s = Workflow.Architecture"
    and "bt_get (architecture_rows d) w = Some plan" and "ipc_workflow q = Some w"
    and "bt_get (dedup_rows (tables d)) (id_text E w @ '':architecture-accepted:'' @
      digest_to_string (plan_digest E plan)) = Some (WorkflowAggregate w, WorkflowRecorded evs st)"
    and "plan_fits E d q w plan" and "read_write (tables d)" and "\<not> delivery_reserved (tables d) w"
    and "validate_idempotency_key (id_text E w @ '':architecture-accepted:'' @
      digest_to_string (plan_digest E plan)) = Ok ()"
    and "bt_get (constraint_rows d) (w, ''essentiality'') = Some (essentiality_digest (sha256 E)
      (policy_json E) essentiality_default, policy_json E essentiality_default)"
    and "wf_mode s = Some mode"
  shows "accept_architecture E M q plan d = (d, Ok (w, mode, ipc_envelope q))"
proof -
  obtain row r created where "bt_get (request_rows d) w = Some (project_of E (ipc_project_key q), row, created)"
    and "request_try_from row = Ok r"
    and "request_digest (sha256 E) (rfc3339_text E) r = plan_request_digest plan"
    using assms(6) by (auto simp: plan_fits_def)
  then have load: "load_request d w = Ok (Some (project_of E (ipc_project_key q), r))"
    and save: "save_architecture_once E d w plan = (d, Ok True)"
    using assms(3,7) by (simp_all add: load_request_def save_architecture_once_def)
  have constraint: "save_constraint_once d w ''essentiality'' (essentiality_digest (sha256 E) (policy_json E)
      essentiality_default) (policy_json E essentiality_default) = (d, Ok True)"
    using assms(7,10) by (simp add: save_constraint_once_def)
  note command = commanding_again [OF assms(7,9,8,5)]
  show ?thesis
    using assms(1,2,4,11) load save constraint command
    by (simp add: accept_architecture_def seq_def coded_def reading_def storing_def demand_some_def demand_def
        give_def Let_def current_workflow_def looking_def)
qed

text \<open>
  C7. A plan defect reported before the first repair leaves the workflow without a way on: once it is
  back in architecture with no repair cycle used and the key of its stored plan spent, no architecture
  submission, of the same plan or of another, moves it or changes anything else in the tables of the
  aggregates.  Another plan is always refused, as a conflict with the stored one when it fits the request
  and the store can be written, and changes nothing at all; the same plan, sent again with nothing else
  in its way, is answered as accepted and changes nothing either.
\<close>

theorem replanned_workflow_accepts_no_plan:
  assumes "load_workflow (tables d) w = Some s" and "wf_state s = Workflow.Architecture" and "wf_cycles s = 0"
    and "bt_get (architecture_rows d) w = Some stored"
    and "bt_get (dedup_rows (tables d)) (id_text E w @ '':architecture-accepted:'' @
      digest_to_string (plan_digest E stored)) = Some (WorkflowAggregate w, WorkflowRecorded evs st)"
    and "ipc_workflow q = Some w"
  shows "tables (fst (accept_architecture E M q plan d)) = tables d
    \<and> (plan \<noteq> stored \<longrightarrow> (\<exists>e. accept_architecture E M q plan d = (d, Err e)
        \<and> (plan_fits E d q w plan \<and> read_write (tables d) \<longrightarrow>
            e = Coded ''architecture_rejected'' (StoreFailed AggregateConflict))))
    \<and> (plan = stored \<and> plan_fits E d q w plan \<and> read_write (tables d) \<and> \<not> delivery_reserved (tables d) w
        \<and> validate_idempotency_key (id_text E w @ '':architecture-accepted:'' @
            digest_to_string (plan_digest E plan)) = Ok ()
        \<and> bt_get (constraint_rows d) (w, ''essentiality'') = Some (essentiality_digest (sha256 E)
            (policy_json E) essentiality_default, policy_json E essentiality_default)
        \<and> wf_mode s = Some mode \<longrightarrow> accept_architecture E M q plan d = (d, Ok (w, mode, ipc_envelope q)))"
proof (intro conjI impI)
  show "\<exists>e. accept_architecture E M q plan d = (d, Err e)
      \<and> (plan_fits E d q w plan \<and> read_write (tables d) \<longrightarrow>
          e = Coded ''architecture_rejected'' (StoreFailed AggregateConflict))" if "plan \<noteq> stored"
    by (rule other_plan_is_refused [OF assms(1,3,4,6) that])
  show "accept_architecture E M q plan d = (d, Ok (w, mode, ipc_envelope q))"
    if "plan = stored \<and> plan_fits E d q w plan \<and> read_write (tables d) \<and> \<not> delivery_reserved (tables d) w
        \<and> validate_idempotency_key (id_text E w @ '':architecture-accepted:'' @
            digest_to_string (plan_digest E plan)) = Ok ()
        \<and> bt_get (constraint_rows d) (w, ''essentiality'') = Some (essentiality_digest (sha256 E)
            (policy_json E) essentiality_default, policy_json E essentiality_default)
        \<and> wf_mode s = Some mode"
    using that stored_plan_is_a_duplicate [OF assms(1,2) _ assms(6)] assms(4,5) by blast
next
  define P :: "daemon \<Rightarrow> bool" where "P d' \<longleftrightarrow> tables d' = tables d \<and> bt_get (architecture_rows d') w = Some stored" for d'
  have save: "P (fst (save_architecture_once E d' w plan))
      \<and> (\<forall>a. snd (save_architecture_once E d' w plan) = Ok a \<longrightarrow> plan = stored)" if "P d'" for d'
    using that assms(1-3) by (auto simp: P_def save_architecture_once_def split: option.split sum.split)
  have constraint: "keeps P (storing (\<lambda>d. save_constraint_once d w kind digest json))" for kind digest json
    by (rule keeps_storing) (auto simp: P_def save_constraint_once_def split: option.split)
  have audit: "keeps P (auditing E fresh obs)" for fresh obs
    by (rule keeps_auditing)
      (auto simp: P_def append_ledger_event_def save_checkpoint_def Let_def split: sum.split)
  have command: "plan = stored \<Longrightarrow> keeps P (commanding w (id_text E w @ '':architecture-accepted:'' @
      digest_to_string (plan_digest E plan)) ArchitectureAccepted)"
    unfolding commanding_def using recorded_command_changes_nothing [OF assms(5)]
    by (intro keeps_seq keeps_on_tables keeps_prod keeps_give) (simp add: P_def)
  have current: "keeps P (current_workflow w)"
    unfolding current_workflow_def by (intro keeps_intro)
  have saved: "(\<And>a. plan = stored \<Longrightarrow> keeps P (k a)) \<Longrightarrow>
      keeps P (seq (coded code (storing (\<lambda>d. save_architecture_once E d w plan))) k)" for code k
  proof (rule keeps_at_step)
    fix d' assume cont: "\<And>a. plan = stored \<Longrightarrow> keeps P (k a)" and "P d'"
    with save [of d'] show "P (fst (coded code (storing (\<lambda>d. save_architecture_once E d w plan)) d'))
      \<and> (\<forall>a. snd (coded code (storing (\<lambda>d. save_architecture_once E d w plan)) d') = Ok a \<longrightarrow> keeps P (k a))"
      by (cases "snd (save_architecture_once E d' w plan)") (auto simp: coded_def storing_def)
  qed
  have "keeps P (accept_architecture E M q plan)"
    unfolding accept_architecture_def assms(6) Let_def demanded
    by (rule saved constraint audit current keeps_intro | rule command, assumption)+
  then show "tables (fst (accept_architecture E M q plan d)) = tables d"
    using assms(4) by (auto simp: keeps_def P_def)
qed

section \<open>A small delivery\<close>

text \<open>
  Every hash is zero and every identifier has the same text; the clock leaves the range of the audit
  after the route was recorded, so every later audit fails and what was done before it stays.
\<close>

definition toy_ambient :: ambient where
  "toy_ambient = \<lparr>sha256 = \<lambda>_. 0, rfc3339_text = \<lambda>_. ''1970'', listing_json = \<lambda>_. [], event_json = \<lambda>_. Ok [],
     plan_json = \<lambda>_. [], verdict_json = \<lambda>_. [], review_json = \<lambda>_. [], policy_json = \<lambda>_. [],
     verify_strict = \<lambda>_ _ _. True, is_public_key = \<lambda>_. True,
     ledger_key = \<lparr>public_bytes = [], sign_with = \<lambda>_. replicate 64 0\<rparr>,
     nanos_in_range = \<lambda>t. t = 0, uuid_text = \<lambda>_. ''u'', plan_text = \<lambda>_. ''p'',
     read_plan = \<lambda>_. None, rationale_json = \<lambda>_. ''r''\<rparr>"

definition toy_moment :: "int \<Rightarrow> moment" where
  "toy_moment t = \<lparr>moment_time = 0, moment_millis = \<lambda>_. t, fresh_event = \<lambda>_. Id 9,
     fresh_receipt = Id 8, fresh_workflow = Id 1\<rparr>"

definition toy_message :: "protocol_payload \<Rightarrow> ipc_request" where
  "toy_message p = \<lparr>affected_paths = [], ipc_downgrade_approval = None, ipc_project_key = ''k'',
     ipc_request_id = 0, ipc_preference = PreferQuick, ipc_workflow = Some (Id 1),
     ipc_envelope = envelope_new p\<rparr>"

definition toy_plan :: architecture_plan where
  "toy_plan = \<lparr>assumptions = [], integration_checks = [''x''], plan_request_digest = 0,
     requirements = [\<lparr>requirement_criteria = [''x''], requirement_id = ''r'', statement = ''x''\<rparr>], risks = [],
     plan_tasks = [\<lparr>planned_criteria = [''x''], planned_dependencies = [], planned_id = Id 2,
        planned_objective = ''x'', planned_requirement_ids = [''r''], planned_title = ''x'',
        verification_commands = [''x''], planned_scopes = [''a'']\<rparr>]\<rparr>"

definition toy_gate :: verification_gate where
  "toy_gate = \<lparr>gate_executor = CandidateIntegrity, gate_id = Id 3, gate_kind = Inspection,
     gate_mandatory = True, gate_name = ''g'', precondition = ''x'', gate_risk = InternalInspection, timeout_seconds = 1\<rparr>"

definition toy_checks :: "bool \<Rightarrow> verification_plan" where
  "toy_checks full = \<lparr>plan_gates = (if full then [toy_gate] else []), plan_identity = Id 4\<rparr>"

definition toy_record :: evidence_record where
  "toy_record = \<lparr>evidence_record_id = Id 3, evidence_candidate = 0, evidence_kind = Inspection,
     invocation = ''i'', tool = ''t'', tool_version = ''1'', started_at = 0, finished_at = 0, exit_code = None,
     output_digest = 0, evidence_status = Passed, skip_reason = None\<rparr>"

definition toy_run :: verification_run where
  "toy_run = \<lparr>infrastructure_blocked = False, mandatory_passed = True,
     run_outputs = [(Id 3, ''ok'')], run_records = [toy_record]\<rparr>"

definition toy_frozen :: frozen_candidate where
  "toy_frozen = \<lparr>frozen_manifest = sample_frozen, frozen_diff = [], frozen_files = [sample_file]\<rparr>"

definition toy_verdict :: arbiter_verdict where
  "toy_verdict = \<lparr>arbiter_decision = ArbiterApproved, arbiter_candidate = 0,
     arbiter_requirements = [\<lparr>decided_requirement = ''r'', decided_status = Satisfied, decided_evidence = [Id 3]\<rparr>],
     arbiter_findings = [], arbiter_repair = None\<rparr>"

definition toy_calls :: "daemon_call list" where
  "toy_calls =
    [CallProtocol (toy_moment 0) (toy_message (RequestPayload (request_new ''fix'' []))),
     CallProtocol (toy_moment 1) (toy_message (ArchitecturePayload toy_plan)),
     CallFinishPlanning (Id 4) ''k'' (Id 1) (Ok (toy_checks True)),
     CallFinishFreezing (toy_moment 1) (Id 7) ''k'' (Id 1) toy_frozen,
     CallFinishVerifying (toy_moment 1) (Id 4) ''k'' (Id 1) (Id 7) (toy_checks True) sample_frozen (Ok toy_run),
     CallFinishVerifying (toy_moment 1) (Id 4) ''k'' (Id 1) (Id 7) (toy_checks False) sample_frozen (Ok toy_run),
     CallArbitration (toy_moment 1) ''k'' (Id 1) (Id 7) toy_verdict]"


lemmas handler_defs = seq_def demand_def demand_some_def give_def refuse_def reading_def looking_def
  storing_def on_tables_def coded_def

lemma toy_ambient_simps [simp]:
  "sha256 toy_ambient = (\<lambda>_. 0)" "rfc3339_text toy_ambient = (\<lambda>_. ''1970'')" "listing_json toy_ambient = (\<lambda>_. [])"
  "event_json toy_ambient = (\<lambda>_. Ok [])" "uuid_text toy_ambient = (\<lambda>_. ''u'')" "plan_text toy_ambient = (\<lambda>_. ''p'')"
  "nanos_in_range toy_ambient = (\<lambda>t. t = 0)" "policy_json toy_ambient = (\<lambda>_. [])" "plan_json toy_ambient = (\<lambda>_. [])"
  "verdict_json toy_ambient = (\<lambda>_. [])" "rationale_json toy_ambient = (\<lambda>_. ''r'')"
  "id_text toy_ambient i = ''u''" "verify_strict toy_ambient = (\<lambda>_ _ _. True)" "is_public_key toy_ambient = (\<lambda>_. True)"
  "sign_with (ledger_key toy_ambient) = (\<lambda>_. replicate 64 0)"
  by (simp_all add: toy_ambient_def id_text_def)

lemma toy_evidence: "automatic_evidence ''fix'' [] = \<lparr>evidence_facts = [], rationales = []\<rparr>"
  by code_simp

lemma toy_texts: "\<not> blank ''k''" "\<not> blank ''x''" "\<not> blank ''workflowd''"
  by code_simp+

lemma toy_keys: "validate_idempotency_key ''u:complete-intake'' = Ok ()"
  "validate_idempotency_key ''u:route'' = Ok ()" 
  "validate_idempotency_key ''u:candidate:u'' = Ok ()" 
  "validate_idempotency_key ''u:u:verification-passed'' = Ok ()" 
  "validate_idempotency_key ''u:u:approved'' = Ok ()" 
  by code_simp+


lemma auditing_stopped: "obs_millis obs \<noteq> 0 \<Longrightarrow> auditing toy_ambient i obs d = (d, Err (AuditFailed InvalidAuditTimestamp))"
  by (simp add: auditing_def audit_record_def)

abbreviation toy_decision :: "routing_preference \<Rightarrow> routing_decision" where
  "toy_decision wish \<equiv> route_workflow \<lparr>facts = [], preference = wish, critical_downgrade_approval = None\<rparr>"

abbreviation toy_daemon where
  "toy_daemon t rs as vs cs l C \<equiv> \<lparr>tables = t, request_rows = rs, architecture_rows = as, version_rows = vs,
     constraint_rows = cs, review_rows = [], arbitration_rows = [], ledger = l, checkpoint_rows = C\<rparr>"

lemma toy_audit:
  "\<exists>L C entry. \<forall>t rs. read_write t \<longrightarrow> auditing toy_ambient (Id 9)
    ((daemon_observation ''k'' 0 (Id 1) (WorkflowAudit ''route_selected''))
       \<lparr>obs_metadata := route_metadata toy_ambient (toy_decision wish) \<lparr>evidence_facts = [], rationales = []\<rparr>\<rparr>)
     (toy_daemon t rs [] [] [] empty_chain []) = (toy_daemon t rs [] [] [] L C, Ok entry)"
proof -
  let ?obs = "(daemon_observation ''k'' 0 (Id 1) (WorkflowAudit ''route_selected''))
       \<lparr>obs_metadata := route_metadata toy_ambient (toy_decision wish) \<lparr>evidence_facts = [], rationales = []\<rparr>\<rparr>"
  have "\<not> blank ''workflowd''" "validate_data (WorkflowData ''route_selected'') = Ok ()" by code_simp+
  then obtain ev where ev: "event_of toy_ambient (Id 9) ?obs = Ok ev"
    by (simp add: event_of_def ledger_event_new_def daemon_observation_def)
  have "obs_millis ?obs = 0" by (simp add: daemon_observation_def)
  with ev show ?thesis
    by (simp add: auditing_def audit_record_def append_ledger_event_def next_entry_def
      empty_chain_def entry_new_def calculate_hash_def save_checkpoint_def checkpoint_sign_def
      checkpoint_verify_embedded_def checkpoint_verify_def fits_def Let_def)
qed

lemma toy_modes: "decided_mode (toy_decision PreferQuick) = Quick" "decided_mode (toy_decision PreferFull) = Full"
  by code_simp+

lemma toy_plan_valid: "architecture_try_from toy_plan = Some (Ok toy_plan)"
  by code_simp

lemma obs_at: "obs_millis (daemon_observation k t w x) = t"
  by (simp add: daemon_observation_def)

lemma arbitration_at: "obs_millis (arbitration_observation E M k w c m v r) = moment_millis M 0"
  by (simp add: arbitration_observation_def obs_at)

lemma plan_request_toy: "plan_request_digest toy_plan = 0"
  by (simp add: toy_plan_def)

lemma sample_frozen_id: "manifest_id sample_frozen = Id 7" by (simp add: sample_frozen_def)

lemma toy_saved:
  assumes "read_write s" and "candidate_rows s = []" and "bt_get (workflow_rows s) (Id 1) \<noteq> None"
  shows "save_candidate_once (\<lambda>_. 0) (\<lambda>_. []) s (Id 1) sample_frozen [] [sample_file] =
     Some (s\<lparr>candidate_rows := [(Id 7, \<lparr>candidate_owner = Id 1,
       candidate_manifest_json = sample_frozen, candidate_diff = [], candidate_complete = True,
       candidate_files = [sample_file]\<rparr>)]\<rparr>, Ok False)"
  using assms
  by (simp add: save_candidate_once_def validated_payload_def expected_files_def observe_file_def
      sample_frozen_def sample_file_def payload_bytes_def max_candidate_payload_bytes_def sort_key_def
      payload_listing_def)

lemma toy_candidate_digest: "candidate_digest (\<lambda>_. 0) m = 0"
  by (simp add: candidate_digest_def)

lemma toy_record_valid: "evidence_validate toy_record = Ok ()"
  by code_simp

lemma toy_record_id: "evidence_record_id toy_record = Id 3" "evidence_candidate toy_record = 0" "evidence_status toy_record = Passed"
  by (simp_all add: toy_record_def)

lemma toy_loaded:
  assumes "candidate_rows s = [(Id 7, \<lparr>candidate_owner = Id 1,
       candidate_manifest_json = sample_frozen, candidate_diff = [], candidate_complete = True,
       candidate_files = [sample_file]\<rparr>)]"
  shows "load_candidate (\<lambda>_. 0) (\<lambda>_. []) s (Id 7) = Some (Ok (Some \<lparr>stored_diff = [], stored_files = Some [sample_file],
       stored_manifest = sample_frozen, stored_workflow = Id 1\<rparr>))"
  using assms sample_frozen_valid
  by (simp add: load_candidate_def bt_get_def validated_payload_def expected_files_def observe_file_def
      sample_frozen_def sample_file_def payload_bytes_def max_candidate_payload_bytes_def sort_key_def
      payload_listing_def)

lemma toy_verdict_parts: "arbiter_candidate toy_verdict = 0" "arbiter_decision toy_verdict = ArbiterApproved"
  by (simp_all add: toy_verdict_def)

lemma toy_validated: "arbiter_validate toy_verdict (fold bs_insert (map requirement_id (requirements toy_plan)) []) (bs_insert (Id 3) []) = Ok ()"
  by code_simp

definition toy_workflow :: workflow where
  "toy_workflow = \<lparr>wf_state = Delivery, wf_mode = Some Quick, wf_candidate = Some (Id 7),
     wf_repair_target = None, wf_cycles = 0, wf_max_cycles = 5, wf_paused_from = None,
     wf_infrastructure_blocked_from = None\<rparr>"

lemma toy_delivered:
  "load_workflow (tables (run_daemon toy_ambient empty_daemon toy_calls)) (Id 1) =
    Some toy_workflow"
proof -
  obtain L C entry where audit: "\<forall>t rs. read_write t \<longrightarrow> auditing toy_ambient (Id 9)
    ((daemon_observation ''k'' 0 (Id 1) (WorkflowAudit ''route_selected''))
       \<lparr>obs_metadata := route_metadata toy_ambient (toy_decision PreferQuick) \<lparr>evidence_facts = [], rationales = []\<rparr>\<rparr>)
     (toy_daemon t rs [] [] [] empty_chain []) = (toy_daemon t rs [] [] [] L C, Ok entry)" using toy_audit by blast
  show ?thesis
  by (simp add: toy_workflow_def run_daemon_def toy_calls_def handle_protocol_request_def process_protocol_request_def toy_message_def
     envelope_new_def start_workflow_def toy_texts toy_moment_def Let_def handler_defs save_request_once_def empty_daemon_def empty_store_def
     load_workflow_def commanding_def apply_workflow_command_def toy_keys delivery_reserved_def workflow_default_def workflow_new_def
     workflow_step_defs toy_evidence decide_and_record_def request_new_def audit toy_modes bt_get_def less_char_def
     accept_architecture_def load_request_def request_try_from_def save_architecture_once_def request_digest_def
     save_constraint_once_def toy_plan_valid current_workflow_def executing_def latest_revision_def auditing_stopped 
     essentiality_digest_def obs_at plan_request_toy 
     finish_planning_def validate_project_def save_verification_plan_once_def
     finish_freezing_def validate_candidate_state_def saving_candidate_def toy_saved candidate_ready_def toy_frozen_def sample_frozen_id
     finish_verifying_def toy_run_def toy_checks_def keep_evidence_def toy_gate_def toy_record_id save_evidence_once_def toy_record_valid toy_candidate_digest
     conclude_verification_def candidate_key_def 
     submit_arbitration_def load_arbitration_def submit_new_arbitration_def load_architecture_def candidate_of_def toy_loaded 
     manifest_digest_def toy_verdict_parts load_candidate_evidence_def latest_evidence_def toy_validated load_reviews_def review_basis_def gates_missed_def
     save_arbitration_once_def verdict_digest_def carry_out_verdict_def arbitration_at)
qed

theorem delivered_workflows_were_approved_witness:
  "\<exists>v r. load_arbitration (run_daemon toy_ambient empty_daemon toy_calls) (Id 7) = Some (Id 1, v, r)
     \<and> arbiter_decision v = ArbiterApproved"
proof -
  have "effective toy_workflow \<in> {Delivery, Completed}" and "wf_candidate toy_workflow = Some (Id 7)"
    by (simp_all add: toy_workflow_def effective_def)
  from delivered_workflows_were_approved [OF refl toy_delivered this(1)] this(2) show ?thesis by auto
qed

definition toy_replan :: "daemon_call list" where
  "toy_replan =
    [CallProtocol (toy_moment 0)
       ((toy_message (RequestPayload (request_new ''fix'' [])))\<lparr>ipc_preference := PreferFull\<rparr>),
     CallProtocol (toy_moment 1) (toy_message (ArchitecturePayload toy_plan)),
     CallProtocol (toy_moment 1) (toy_message (ArchitecturePayload toy_plan)),
     CallReport ''k'' (Id 1) OutcomePlanDefect (Id 6)]"

lemma toy_replanned:
  "\<exists>evs st. load_workflow (tables (run_daemon toy_ambient empty_daemon toy_replan)) (Id 1) =
      Some (toy_workflow\<lparr>wf_state := Workflow.Architecture, wf_mode := Some Full, wf_candidate := None\<rparr>)
    \<and> bt_get (architecture_rows (run_daemon toy_ambient empty_daemon toy_replan)) (Id 1) = Some toy_plan
    \<and> bt_get (dedup_rows (tables (run_daemon toy_ambient empty_daemon toy_replan)))
       (''u:architecture-accepted:'' @ digest_to_string 0) = Some (WorkflowAggregate (Id 1), WorkflowRecorded evs st)"
proof -
  obtain L C entry where audit: "\<forall>t rs. read_write t \<longrightarrow> auditing toy_ambient (Id 9)
    ((daemon_observation ''k'' 0 (Id 1) (WorkflowAudit ''route_selected''))
       \<lparr>obs_metadata := route_metadata toy_ambient (toy_decision PreferFull) \<lparr>evidence_facts = [], rationales = []\<rparr>\<rparr>)
     (toy_daemon t rs [] [] [] empty_chain []) = (toy_daemon t rs [] [] [] L C, Ok entry)" using toy_audit by blast
  have keys: "validate_idempotency_key (''u:architecture-accepted:'' @ digest_to_string 0) = Ok ()"
    "validate_idempotency_key ''u:execution-report:u'' = Ok ()"
    using digest_to_string_shape [of 0] by (simp_all add: validate_idempotency_key_def)
  show ?thesis
  by (simp add: toy_workflow_def run_daemon_def toy_replan_def handle_protocol_request_def process_protocol_request_def toy_message_def
     envelope_new_def start_workflow_def toy_texts toy_moment_def Let_def handler_defs save_request_once_def empty_daemon_def empty_store_def
     load_workflow_def commanding_def apply_workflow_command_def toy_keys delivery_reserved_def workflow_default_def workflow_new_def
     workflow_step_defs toy_evidence decide_and_record_def request_new_def audit toy_modes bt_get_def less_char_def
     accept_architecture_def load_request_def request_try_from_def save_architecture_once_def request_digest_def
     save_constraint_once_def toy_plan_valid current_workflow_def executing_def latest_revision_def auditing_stopped
     essentiality_digest_def obs_at plan_request_toy report_execution_def validate_project_def plan_digest_def
     keys [simplified])
qed

theorem foreign_project_changes_nothing_witness:
  "let d = empty_daemon\<lparr>request_rows := [(Id 1, Id (as_uuid (project_of toy_ambient ''k'') + 1),
         request_new ''fix'' [], ''1970'')]\<rparr> in
   daemon_step toy_ambient d (CallControl ''k'' (Some (Id 1)) CancelWorkflow (Id 1)) = d"
  unfolding Let_def
proof -
  let ?d = "empty_daemon\<lparr>request_rows := [(Id 1, Id (as_uuid (project_of toy_ambient ''k'') + 1),
         request_new ''fix'' [], ''1970'')]\<rparr>"
  have "Id (as_uuid x + 1) \<noteq> x" for x :: project_id
    by (cases x) simp
  then have other: "Id (as_uuid (project_of toy_ambient ''k'') + 1) \<noteq> project_of toy_ambient ''k''" .
  have "bt_get (request_rows ?d) (Id 1) = Some (Id (as_uuid (project_of toy_ambient ''k'') + 1),
         request_new ''fix'' [], ''1970'')"
    by (simp add: bt_get_def)
  from foreign_project_changes_nothing [OF _ this other, of "CallControl ''k'' (Some (Id 1)) CancelWorkflow (Id 1)"]
  show "daemon_step toy_ambient ?d (CallControl ''k'' (Some (Id 1)) CancelWorkflow (Id 1)) = ?d" by simp
qed

theorem replanned_workflow_accepts_no_plan_witness:
  "\<exists>e. accept_architecture toy_ambient (toy_moment 1) (toy_message (ArchitecturePayload toy_plan))
       (toy_plan\<lparr>risks := [''y'']\<rparr>) (run_daemon toy_ambient empty_daemon toy_replan)
     = (run_daemon toy_ambient empty_daemon toy_replan, Err e)"
proof -
  let ?d = "run_daemon toy_ambient empty_daemon toy_replan"
  let ?s = "toy_workflow\<lparr>wf_state := Workflow.Architecture, wf_mode := Some Full, wf_candidate := None\<rparr>"
  obtain evs st where load: "load_workflow (tables ?d) (Id 1) = Some ?s"
    and row: "bt_get (architecture_rows ?d) (Id 1) = Some toy_plan"
    and key: "bt_get (dedup_rows (tables ?d)) (''u:architecture-accepted:'' @ digest_to_string 0)
      = Some (WorkflowAggregate (Id 1), WorkflowRecorded evs st)"
    using toy_replanned by blast
  have s: "wf_state ?s = Workflow.Architecture" "wf_cycles ?s = 0" by (simp_all add: toy_workflow_def)
  have key': "bt_get (dedup_rows (tables ?d)) (id_text toy_ambient (Id 1 :: workflow_id) @ '':architecture-accepted:'' @
      digest_to_string (plan_digest toy_ambient toy_plan)) = Some (WorkflowAggregate (Id 1), WorkflowRecorded evs st)"
    using key by (simp add: plan_digest_def)
  have q: "ipc_workflow (toy_message (ArchitecturePayload toy_plan)) = Some (Id 1)"
    by (simp add: toy_message_def)
  have "toy_plan\<lparr>risks := [''y'']\<rparr> \<noteq> toy_plan" by (simp add: toy_plan_def)
  with replanned_workflow_accepts_no_plan [OF load s row key' q, of "toy_moment 1" "toy_plan\<lparr>risks := [''y'']\<rparr>"]
  show ?thesis by blast
qed

end
