(* ===== verification/Freeze.thy ===== *)
theory Freeze
  imports Daemon_Candidates Store_Contents
begin

text \<open>
  Freezing a candidate: the first half of \<open>crates/workflowd/src/candidate.rs\<close>.  What git, the disk and
  the platform answer comes in as records; a stream that git writes is the list of its bytes.
\<close>

section \<open>Errors and the outside\<close>

datatype io_error = NotFound | NotADirectory | AlreadyExists | DirectoryNotEmpty | OtherIo string

datatype manifest_error = ChangedDuringRead | ManifestIo io_error | NotRegularFile

datatype freeze_error =
    CoreError candidate_error
  | DirtyWorktree
  | GitFailed string
  | InvalidBaseRevision
  | InvalidRepository
  | FreezeIo io_error
  | ManifestError manifest_error
  | NonUtf8Path
  | PayloadMismatch
  | PayloadTooLarge
  | UnsupportedExecutableMode
  | SerializationFailed string

text \<open>A git process that could not be run, or its success with both of its streams.\<close>

datatype git_answer = NotRun io_error | Exited bool "byte list" "byte list"

record file_metadata =
  metadata_length :: u64
  modified_unix_nanos :: "u64 option"

text \<open>
  One work tree: git's answers there, \<open>canonicalize\<close>, \<open>is_file\<close>, \<open>symlink_metadata\<close> (whether it is a
  regular file, and its metadata), the bytes of a file, and the metadata of the open file.
\<close>

record work_tree_view =
  git_answer_to :: "string list \<Rightarrow> git_answer"
  canonical_path :: "string \<Rightarrow> io_error + string"
  present_file :: "string \<Rightarrow> bool"
  link_status :: "string \<Rightarrow> io_error + bool \<times> file_metadata"
  file_content :: "string \<Rightarrow> io_error + byte list"
  open_status :: "string \<Rightarrow> io_error + file_metadata"

record platform =
  sha_of :: "byte list \<Rightarrow> content_digest"
  payload_json :: "(string \<times> string \<times> bool) list \<Rightarrow> byte list"
  on_windows :: bool
  architecture_name :: string
  operating_system_name :: string
  environment_json :: "string \<times> string \<times> string \<Rightarrow> byte list"
  entries_json :: "(string \<times> string) list \<Rightarrow> byte list"

section \<open>Running git\<close>

definition git_message :: "byte list \<Rightarrow> string" where
  "git_message err = trim (string_of_bytes (from_utf8_lossy err))"

definition git :: "work_tree_view \<Rightarrow> string list \<Rightarrow> freeze_error + byte list" where
  "git V args =
     (case git_answer_to V args of
        NotRun e \<Rightarrow> Err (FreezeIo e)
      | Exited success out err \<Rightarrow> if success then Ok out else Err (GitFailed (git_message err)))"

text \<open>The process is killed as soon as it has written more than the limit.\<close>

definition git_stdout_bounded ::
  "work_tree_view \<Rightarrow> string list \<Rightarrow> nat \<Rightarrow> freeze_error + byte list" where
  "git_stdout_bounded V args limit =
     (case git_answer_to V args of
        NotRun e \<Rightarrow> Err (FreezeIo e)
      | Exited success out err \<Rightarrow>
          if length out > limit then Err PayloadTooLarge
          else if success then Ok out else Err (GitFailed (git_message err)))"

definition git_status :: "work_tree_view \<Rightarrow> string list \<Rightarrow> freeze_error + bool" where
  "git_status V args =
     (case git_answer_to V args of NotRun e \<Rightarrow> Err (FreezeIo e) | Exited success out err \<Rightarrow> Ok success)"

definition output_text :: "byte list \<Rightarrow> freeze_error + string" where
  "output_text out =
     (if \<not> utf8_valid out then Err (GitFailed ''Git returned non-UTF-8 output'')
      else let value = trim (string_of_bytes out) in
        if value = [] then Err (GitFailed ''Git returned empty output'') else Ok value)"

definition git_text :: "work_tree_view \<Rightarrow> string list \<Rightarrow> freeze_error + string" where
  "git_text V args = and_then (git V args) output_text"

definition canonicalize :: "work_tree_view \<Rightarrow> string \<Rightarrow> freeze_error + string" where
  "canonicalize V path = map_err FreezeIo (canonical_path V path)"

definition require_clean :: "work_tree_view \<Rightarrow> freeze_error + unit" where
  "require_clean V =
     and_then (git V [''status'', ''--porcelain=v1'', ''-z'', ''--untracked-files=all'']) (\<lambda>out.
     ensure (out = []) DirtyWorktree)"

text \<open>The first field that is not UTF-8 ends the collection.\<close>

definition nul_fields :: "byte list \<Rightarrow> freeze_error + string list" where
  "nul_fields encoded =
     (let fields = filter (\<lambda>f. f \<noteq> []) (split_on 0 encoded) in
      if list_all utf8_valid fields then Ok (map string_of_bytes fields) else Err NonUtf8Path)"

section \<open>The files of a candidate\<close>

text \<open>The entry of a file in a tree of git: mode, type and object, a tab, the path, and a null byte.\<close>

definition git_tree_entry_at ::
  "work_tree_view \<Rightarrow> string \<Rightarrow> string \<Rightarrow> freeze_error + bool \<times> string" where
  "git_tree_entry_at V revision path =
     and_then (git V [''ls-tree'', ''-z'', revision, ''--'', path]) (\<lambda>out.
     if out = [] \<or> last out \<noteq> 0 then Err PayloadMismatch
     else let entry = butlast out; metadata = takeWhile (\<lambda>b. b \<noteq> 9) entry in
     if length metadata = length entry then Err PayloadMismatch
     else if drop (Suc (length metadata)) entry \<noteq> as_bytes path then Err PayloadMismatch
     else case split_on 0x20 metadata of
         [mode, type, object] \<Rightarrow>
           if type \<noteq> as_bytes ''blob'' then Err PayloadMismatch
           else and_then
             (if mode = as_bytes ''100644'' then Ok False
              else if mode = as_bytes ''100755'' then Ok True else Err PayloadMismatch) (\<lambda>exec.
           if utf8_valid object then Ok (exec, string_of_bytes object) else Err PayloadMismatch)
       | _ \<Rightarrow> Err PayloadMismatch)"

definition git_tree_entry :: "work_tree_view \<Rightarrow> string \<Rightarrow> freeze_error + bool \<times> string" where
  "git_tree_entry V path = git_tree_entry_at V ''HEAD'' path"

text \<open>\<open>str::parse::<u64>\<close>: digits after an optional plus sign, within the range.\<close>

definition digits_value :: "string \<Rightarrow> nat" where
  "digits_value ds = foldl (\<lambda>n c. 10 * n + (of_char c - 48)) 0 ds"

definition parse_u64 :: "string \<Rightarrow> nat option" where
  "parse_u64 s =
     (let ds = (if s \<noteq> [] \<and> hd s = CHR ''+'' then tl s else s) in
      if ds \<noteq> [] \<and> list_all is_ascii_digit ds \<and> digits_value ds < 2 ^ 64 then Some (digits_value ds)
      else None)"

definition generated_path :: "string \<Rightarrow> bool" where
  "generated_path path \<longleftrightarrow>
     list_ex (\<lambda>c. c \<in> {''build'', ''dist'', ''generated'', ''out''}) (split_on (CHR ''/'') path)"

definition status_kind :: "string \<Rightarrow> string \<Rightarrow> candidate_file_kind" where
  "status_kind status path =
     (if status = ''A'' then if generated_path path then Generated else Added
      else if status = ''D'' then Deleted else Modified)"

fun pairs :: "'a list \<Rightarrow> ('a \<times> 'a) list" where
  "pairs (a # b # xs) = (a, b) # pairs xs"
| "pairs _ = []"

type_synonym tree_entries = "(string, bool \<times> string) btree_map"

text \<open>The first pass adds up the sizes; a sum past the range of \<open>usize\<close> is past the limit as well.\<close>

definition measure_change ::
  "work_tree_view \<Rightarrow> nat \<times> tree_entries \<Rightarrow> string \<times> string \<Rightarrow> freeze_error + nat \<times> tree_entries" where
  "measure_change V = (\<lambda>(payload, trees) (status, path).
     if status = ''D'' then Ok (payload, trees)
     else and_then (git_tree_entry V path) (\<lambda>entry.
       and_then (git_text V [''cat-file'', ''-s'', snd entry]) (\<lambda>text.
       and_then (ok_or (parse_u64 text) PayloadMismatch) (\<lambda>size.
       if payload + size > max_candidate_payload_bytes then Err PayloadTooLarge
       else Ok (payload + size, bt_insert path entry trees)))))"

text \<open>The second pass reads the contents, within what remains of the limit.\<close>

record reading_state =
  remaining :: nat
  read_files :: "candidate_file list"
  read_payloads :: "file_payload list"

definition read_change ::
  "platform \<Rightarrow> work_tree_view \<Rightarrow> tree_entries \<Rightarrow> reading_state \<Rightarrow> string \<times> string \<Rightarrow>
     freeze_error + reading_state" where
  "read_change P V trees st = (\<lambda>(status, path).
     let kind = status_kind status path in
     if kind = Deleted then
       and_then (map_err CoreError (candidate_file_new path None kind)) (\<lambda>f.
       Ok (st\<lparr>read_files := read_files st @ [with_executable f False]\<rparr>))
     else and_then (ok_or (bt_get trees path) PayloadMismatch) (\<lambda>(exec, object).
       and_then (git_stdout_bounded V [''cat-file'', ''blob'', object] (remaining st)) (\<lambda>content.
       and_then (map_err CoreError (candidate_file_new path (Some (sha_of P content)) kind)) (\<lambda>f.
       Ok \<lparr>remaining = remaining st - length content,
           read_files = read_files st @ [with_executable f exec],
           read_payloads = read_payloads st
             @ [\<lparr>payload_path = path, payload_content = content, payload_executable = exec\<rparr>]\<rparr>))))"

definition candidate_files_of ::
  "platform \<Rightarrow> work_tree_view \<Rightarrow> byte list \<Rightarrow> nat \<Rightarrow> freeze_error + candidate_file list \<times> file_payload list" where
  "candidate_files_of P V encoded diff_bytes =
     and_then (nul_fields encoded) (\<lambda>fields.
     if odd (length fields) then Err (GitFailed ''Git returned a malformed change list'')
     else and_then (try_fold (measure_change V) (diff_bytes, []) (pairs fields)) (\<lambda>(_, trees).
       and_then (try_fold (read_change P V trees)
         \<lparr>remaining = max_candidate_payload_bytes - diff_bytes, read_files = [], read_payloads = []\<rparr>
         (pairs fields)) (\<lambda>st.
       Ok (read_files st, sort_key payload_path (read_payloads st)))))"

section \<open>Digests over the tracked files\<close>

text \<open>\<open>hash_file\<close> of the code intelligence crate.\<close>

definition hash_file ::
  "platform \<Rightarrow> work_tree_view \<Rightarrow> string \<Rightarrow> manifest_error + file_metadata \<times> content_digest" where
  "hash_file P V path =
     and_then (map_err ManifestIo (link_status V path)) (\<lambda>(regular, before).
     if \<not> regular then Err NotRegularFile
     else and_then (map_err ManifestIo (file_content V path)) (\<lambda>content.
       and_then (map_err ManifestIo (open_status V path)) (\<lambda>after.
       if before \<noteq> after then Err ChangedDuringRead else Ok (after, sha_of P content))))"

definition hash_entry ::
  "platform \<Rightarrow> work_tree_view \<Rightarrow> (string \<times> string) list \<Rightarrow> string \<Rightarrow> freeze_error + (string \<times> string) list" where
  "hash_entry P V trees path =
     (if present_file V path
      then and_then (map_err ManifestError (hash_file P V path)) (\<lambda>(_, digest).
        Ok (trees @ [(path, digest_to_string digest)]))
      else Ok trees)"

definition selected_files_digest ::
  "platform \<Rightarrow> work_tree_view \<Rightarrow> string list \<Rightarrow> (string \<Rightarrow> bool) \<Rightarrow> freeze_error + content_digest" where
  "selected_files_digest P V tracked selected =
     and_then (try_fold (hash_entry P V) [] (filter selected tracked)) (\<lambda>trees.
     Ok (sha_of P (entries_json P trees)))"

definition last_component :: "string \<Rightarrow> string" where
  "last_component path = last (split_on (CHR ''/'') path)"

definition dependency_file :: "string \<Rightarrow> bool" where
  "dependency_file path \<longleftrightarrow>
     (let name = last_component path in
      name \<in> {''Cargo.lock'', ''Gemfile.lock'', ''Pipfile.lock'', ''bun.lock'', ''bun.lockb'', ''composer.lock'',
        ''go.sum'', ''package-lock.json'', ''pnpm-lock.yaml'', ''poetry.lock'', ''uv.lock'', ''yarn.lock''}
      \<or> prefix ''requirements'' name \<and> suffix ''.txt'' name)"

definition configuration_file :: "string \<Rightarrow> bool" where
  "configuration_file path \<longleftrightarrow>
     (let name = last_component path in
      name \<in> {''Cargo.toml'', ''Dockerfile'', ''biome.json'', ''biome.jsonc'', ''composer.json'', ''deno.json'',
        ''deno.jsonc'', ''go.mod'', ''package.json'', ''pyproject.toml''}
      \<or> prefix ''tsconfig'' name \<and> suffix ''.json'' name
      \<or> prefix ''eslint.config.'' name \<or> prefix ''vite.config.'' name \<or> prefix ''next.config.'' name
      \<or> prefix ''compose.'' name \<and> last (split_on (CHR ''.'') name) \<in> {''yaml'', ''yml''})"

section \<open>Freezing\<close>

definition detect_environment ::
  "platform \<Rightarrow> work_tree_view \<Rightarrow> freeze_error + string \<times> string \<times> string" where
  "detect_environment P V =
     and_then (git_text V [''--version'']) (\<lambda>version.
     Ok (architecture_name P, version, operating_system_name P))"

text \<open>On Windows git's executable bit cannot be delivered to disk.\<close>

definition check_mode ::
  "work_tree_view \<Rightarrow> string \<Rightarrow> candidate_file \<Rightarrow> freeze_error + unit" where
  "check_mode V base f =
     (if file_kind f \<in> {Added, Generated} \<and> executable f then Err UnsupportedExecutableMode
      else if file_kind f = Modified then
        and_then (git_tree_entry_at V base (file_path f)) (\<lambda>(base_executable, _).
        ensure (base_executable = executable f) UnsupportedExecutableMode)
      else Ok ())"

definition validate_platform_modes ::
  "platform \<Rightarrow> work_tree_view \<Rightarrow> candidate_manifest \<Rightarrow> freeze_error + unit" where
  "validate_platform_modes P V m =
     (if on_windows P
      then and_then (ok_or (base_revision m) InvalidBaseRevision) (\<lambda>base. try_each (check_mode V base) (files m))
      else Ok ())"

text \<open>\<open>V\<close> is the work tree while it is read, \<open>W\<close> when its cleanness is checked again at the end.\<close>

definition freeze ::
  "platform \<Rightarrow> work_tree_view \<Rightarrow> work_tree_view \<Rightarrow> string \<Rightarrow> string \<Rightarrow> candidate_id \<Rightarrow>
     evidence_id list \<Rightarrow> freeze_error + frozen_candidate" where
  "freeze P V W project base c evidence =
     and_then (canonicalize V project) (\<lambda>root.
     and_then (git_text V [''rev-parse'', ''--show-toplevel'']) (\<lambda>top.
     and_then (canonicalize V top) (\<lambda>discovered.
     and_then (ensure (discovered = root) InvalidRepository) (\<lambda>_.
     and_then (require_clean V) (\<lambda>_.
     and_then (git_text V [''rev-parse'', base @ ''^{commit}'']) (\<lambda>resolved.
     and_then (if resolved \<noteq> base then Ok False
       else git_status V [''merge-base'', ''--is-ancestor'', base, ''HEAD'']) (\<lambda>usable.
     and_then (ensure usable InvalidBaseRevision) (\<lambda>_.
     and_then (git_stdout_bounded V
       [''diff'', ''--binary'', ''--no-ext-diff'', ''--full-index'', base, ''HEAD'', ''--'']
       max_candidate_payload_bytes) (\<lambda>diff.
     and_then (git V [''diff'', ''--name-status'', ''-z'', ''--no-renames'', base, ''HEAD'', ''--'']) (\<lambda>changes.
     and_then (candidate_files_of P V changes (length diff)) (\<lambda>(fs, exact).
     and_then (and_then (git V [''ls-files'', ''-z'']) nul_fields) (\<lambda>tracked.
     and_then (selected_files_digest P V tracked dependency_file) (\<lambda>dependency.
     and_then (selected_files_digest P V tracked configuration_file) (\<lambda>configuration.
     and_then (detect_environment P V) (\<lambda>environment.
     and_then (map_err CoreError (manifest_new c (Some base) fs
       \<lparr>configuration_of = configuration, dependency_state_of = dependency, diff_of = sha_of P diff,
        environment_of = sha_of P (environment_json P environment)\<rparr> evidence)) (\<lambda>m.
     let m = with_delivery_payload_digest m (Some (sha_of P (payload_json P (payload_listing (sha_of P) exact)))) in
     and_then (validate_platform_modes P V m) (\<lambda>_.
     and_then (require_clean W) (\<lambda>_.
     Ok \<lparr>frozen_manifest = m, frozen_diff = diff, frozen_files = exact\<rparr>))))))))))))))))))"

definition verify_frozen ::
  "platform \<Rightarrow> work_tree_view \<Rightarrow> work_tree_view \<Rightarrow> string \<Rightarrow> candidate_manifest \<Rightarrow> byte list \<Rightarrow>
     file_payload list \<Rightarrow> freeze_error + bool" where
  "verify_frozen P V W project m diff exact =
     and_then (ok_or (base_revision m) InvalidBaseRevision) (\<lambda>base.
     and_then (freeze P V W project base (manifest_id m) (manifest_evidence m)) (\<lambda>observed.
     Ok (frozen_manifest observed = m \<and> frozen_diff observed = diff \<and> frozen_files observed = exact)))"

section \<open>The payload of a delivery\<close>

text \<open>\<open>None\<close> is the panic on a file of the manifest that has no digest and is not deleted.\<close>

definition observe_payload ::
  "(byte list \<Rightarrow> content_digest) \<Rightarrow> (string, content_digest \<times> bool) btree_map \<Rightarrow> file_payload \<Rightarrow>
     freeze_error + (string, content_digest \<times> bool) btree_map" where
  "observe_payload sha m p =
     (if bt_get m (payload_path p) \<noteq> None then Err PayloadMismatch
      else Ok (bt_insert (payload_path p) (sha (payload_content p), payload_executable p) m))"

definition validate_payload ::
  "platform \<Rightarrow> candidate_manifest \<Rightarrow> byte list \<Rightarrow> file_payload list \<Rightarrow> (freeze_error + unit) option" where
  "validate_payload P m diff exact =
     (if length diff + payload_bytes exact > max_candidate_payload_bytes then Some (Err PayloadTooLarge)
      else if sha_of P diff \<noteq> diff_digest m then Some (Err PayloadMismatch)
      else if delivery_payload_digest m \<noteq> Some (sha_of P (payload_json P (payload_listing (sha_of P) exact)))
        then Some (Err PayloadMismatch)
      else if list_ex (\<lambda>f. file_kind f \<noteq> Deleted \<and> file_digest f = None) (files m) then None
      else Some (and_then (try_fold (observe_payload (sha_of P)) [] exact) (\<lambda>observed.
        ensure (observed = expected_files (files m)) PayloadMismatch)))"


section \<open>What freezing produces can be stored and delivered\<close>

lemma collect_same_set:
  fixes xs ys :: "('k::linorder \<times> 'v) list"
  assumes "distinct (map fst xs)" and "distinct (map fst ys)" and "set xs = set ys"
  shows "fold (\<lambda>(k, v). bt_insert k v) xs [] = fold (\<lambda>(k, v). bt_insert k v) ys []"
proof (intro btree.entries_ext btree.good_collect)
  have "map_of (rev zs) k = Some v \<longleftrightarrow> (k, v) \<in> set zs" if "distinct (map fst zs)"
    for zs :: "('k \<times> 'v) list" and k v
  proof -
    have "distinct (map fst (rev zs))" using that by (metis distinct_rev rev_map)
    then show ?thesis by (simp add: map_of_eq_Some_iff)
  qed
  with assms have "map_of (rev xs) = map_of (rev ys)" by (intro ext option_eqI) simp
  then show "bt_get (fold (\<lambda>(k, v). bt_insert k v) xs []) = bt_get (fold (\<lambda>(k, v). bt_insert k v) ys [])"
    by (simp add: btree.get_collect)
qed simp_all

definition promised_entry :: "candidate_file \<Rightarrow> string \<times> content_digest \<times> bool" where
  "promised_entry f = (file_path f, the (file_digest f), executable f)"

definition kept :: "candidate_file \<Rightarrow> bool" where
  "kept f \<longleftrightarrow> file_kind f \<noteq> Deleted"

lemma expected_files_collect:
  "expected_files fs = fold (\<lambda>(k, v). bt_insert k v) (map promised_entry (filter kept fs)) []"
  by (simp add: expected_files_def promised_entry_def kept_def [abs_def] fold_map o_def)

lemma observe_payload_Ok_iff:
  "try_fold (observe_payload sha) m ps = Ok m' \<longleftrightarrow> try_fold (observe_file sha) m ps = Ok m'"
  by (induction ps arbitrary: m) (auto simp: observe_payload_def observe_file_def)

text \<open>The second pass: every kept file has its payload, and the limit pays for the bytes.\<close>

definition reading_ok :: "platform \<Rightarrow> nat \<Rightarrow> reading_state \<Rightarrow> bool" where
  "reading_ok P limit st \<longleftrightarrow> remaining st + payload_bytes (read_payloads st) = limit
     \<and> map (observed_entry (sha_of P)) (read_payloads st) = map promised_entry (filter kept (read_files st))
     \<and> (\<forall>f \<in> set (read_files st). kept f \<longleftrightarrow> file_digest f \<noteq> None)"

lemma git_stdout_bounded_length: "git_stdout_bounded V args limit = Ok out \<Longrightarrow> length out \<le> limit"
  by (auto simp: git_stdout_bounded_def split: git_answer.splits if_splits)

lemma reading_ok_step:
  assumes "reading_ok P limit st" and "read_change P V trees st change = Ok st'"
  shows "reading_ok P limit st'"
proof -
  obtain status path where c: "change = (status, path)" by fastforce
  show ?thesis
  proof (cases "status_kind status path = Deleted")
    case True
    with assms show ?thesis
      by (auto simp: c read_change_def Let_def candidate_file_new_def with_executable_def reading_ok_def
          kept_def split: if_splits)
  next
    case False
    with assms(2) obtain exec object content where
      content: "git_stdout_bounded V [''cat-file'', ''blob'', object] (remaining st) = Ok content"
      and st': "st' = \<lparr>remaining = remaining st - length content,
           read_files = read_files st @ [\<lparr>executable = exec, file_path = path,
             file_digest = Some (sha_of P content), file_kind = status_kind status path\<rparr>],
           read_payloads = read_payloads st
             @ [\<lparr>payload_path = path, payload_content = content, payload_executable = exec\<rparr>]\<rparr>"
      by (auto simp: c read_change_def Let_def candidate_file_new_def with_executable_def
          split: if_splits prod.splits)
    from git_stdout_bounded_length [OF content] assms(1) False show ?thesis
      by (auto simp: st' reading_ok_def kept_def observed_entry_def promised_entry_def payload_bytes_def)
  qed
qed

lemma candidate_files_ok:
  assumes "candidate_files_of P V encoded n = Ok (fs, exact)" and "n \<le> max_candidate_payload_bytes"
  shows "n + payload_bytes exact \<le> max_candidate_payload_bytes
    \<and> exact = sort_key payload_path exact
    \<and> set (map (observed_entry (sha_of P)) exact) = set (map promised_entry (filter kept fs))
    \<and> length exact = length (filter kept fs)
    \<and> (\<forall>f \<in> set fs. kept f \<longleftrightarrow> file_digest f \<noteq> None)"
proof -
  let ?st0 = "\<lparr>remaining = max_candidate_payload_bytes - n, read_files = [], read_payloads = []\<rparr>"
  obtain trees fields st where
    run: "try_fold (read_change P V trees) ?st0 (pairs fields) = Ok st"
    and fs: "fs = read_files st" and exact: "exact = sort_key payload_path (read_payloads st)"
    using assms(1) by (auto simp: candidate_files_of_def split: if_splits)
  have "reading_ok P (max_candidate_payload_bytes - n) st"
    by (rule try_fold_invariant [OF run]) (simp add: reading_ok_def payload_bytes_def, erule (1) reading_ok_step)
  then have ok: "remaining st + payload_bytes (read_payloads st) = max_candidate_payload_bytes - n"
    "map (observed_entry (sha_of P)) (read_payloads st) = map promised_entry (filter kept (read_files st))"
    "\<forall>f \<in> set (read_files st). kept f \<longleftrightarrow> file_digest f \<noteq> None"
    by (simp_all add: reading_ok_def)
  have "set (map (observed_entry (sha_of P)) (sort_key payload_path (read_payloads st)))
      = set (map (observed_entry (sha_of P)) (read_payloads st))"
    by simp
  moreover have "length (read_payloads st) = length (filter kept (read_files st))"
    using arg_cong [OF ok(2), of length] by simp
  ultimately show ?thesis using ok assms(2) unfolding fs exact by simp
qed

lemma observed_keys: "map fst (map (observed_entry sha) ps) = map payload_path ps"
  by (simp add: observed_entry_def o_def)

lemma promised_keys: "map fst (map promised_entry fs) = map file_path fs"
  by (simp add: promised_entry_def o_def)

lemma payload_matches_files:
  assumes "set (map (observed_entry sha) exact) = set (map promised_entry (filter kept fs))"
    and "length exact = length (filter kept fs)" and "distinct (map file_path fs)"
  shows "try_fold (observe_file sha) [] exact = Ok (expected_files (sort_key file_path fs))"
proof -
  let ?es = "map (observed_entry sha) exact" and ?ps = "map promised_entry (filter kept (sort_key file_path fs))"
  have kept_paths: "distinct (map file_path (filter kept fs))"
    using assms(3) by (simp add: distinct_map_filter)
  have "distinct (map file_path (sort_key file_path fs))"
    using assms(3) by (metis distinct_map distinct_sort set_sort)
  then have ps: "distinct (map fst ?ps)"
    unfolding promised_keys by (simp add: distinct_map_filter)
  have "fst ` set ?es = set (map file_path (filter kept fs))"
    unfolding assms(1) by (force simp: promised_entry_def)
  then have "set (map payload_path exact) = set (map file_path (filter kept fs))"
    by (force simp: observed_entry_def)
  then have "distinct (map payload_path exact)"
    using assms(2) kept_paths by (metis card_distinct distinct_card length_map)
  then have es: "distinct (map fst ?es)" unfolding observed_keys .
  have "set ?es = set ?ps" using assms(1) by simp
  with es ps have "fold (\<lambda>(k, v). bt_insert k v) ?es [] = expected_files (sort_key file_path fs)"
    unfolding expected_files_collect by (rule collect_same_set)
  with es show ?thesis
    unfolding observed_keys by (simp add: observe_loop_Ok_iff)
qed

lemma freeze_parts:
  assumes "freeze P V W project base c evidence = Ok f"
  obtains diff changes fs exact digests m where
    "git_stdout_bounded V
       [''diff'', ''--binary'', ''--no-ext-diff'', ''--full-index'', base, ''HEAD'', ''--'']
       max_candidate_payload_bytes = Ok diff"
    "git V [''diff'', ''--name-status'', ''-z'', ''--no-renames'', base, ''HEAD'', ''--''] = Ok changes"
    "candidate_files_of P V changes (length diff) = Ok (fs, exact)"
    "manifest_new c (Some base) fs digests evidence = Ok m" "diff_of digests = sha_of P diff"
    "f = \<lparr>frozen_manifest = with_delivery_payload_digest m
          (Some (sha_of P (payload_json P (payload_listing (sha_of P) exact)))),
        frozen_diff = diff, frozen_files = exact\<rparr>"
    "require_clean V = Ok ()" "require_clean W = Ok ()"
  using assms unfolding freeze_def by (auto simp: Let_def split: prod.splits)

text \<open>
  C1. A candidate that was frozen is accepted as it is: its diff and its files pass the comparison with
  the manifest that the store makes and the one that a promotion makes before it touches the work tree,
  and a store that can be written, knows the workflow and has no candidate under its identifier saves
  it.  (What promotion asks of the repository and of the work tree, from the revision at its head to
  the destinations of the files, is not part of this.)
\<close>

theorem frozen_candidate_is_accepted:
  assumes "freeze P V W project base c evidence = Ok f"
  shows "validate_payload P (frozen_manifest f) (frozen_diff f) (frozen_files f) = Some (Ok ())
    \<and> validated_payload (sha_of P) (payload_json P) (frozen_manifest f) (length (frozen_diff f))
        (frozen_files f) = Some (Ok (frozen_files f))
    \<and> (read_write s \<and> bt_get (workflow_rows s) w \<noteq> None
        \<and> bt_get (candidate_rows s) (manifest_id (frozen_manifest f)) = None \<longrightarrow>
        (\<exists>s'. save_candidate_once (sha_of P) (payload_json P) s w (frozen_manifest f) (frozen_diff f)
          (frozen_files f) = Some (s', Ok False)))"
  using assms
proof (rule freeze_parts)
  fix diff changes fs exact digests m
  assume diff: "git_stdout_bounded V
       [''diff'', ''--binary'', ''--no-ext-diff'', ''--full-index'', base, ''HEAD'', ''--'']
       max_candidate_payload_bytes = Ok diff"
    and read: "candidate_files_of P V changes (length diff) = Ok (fs, exact)"
    and m: "manifest_new c (Some base) fs digests evidence = Ok m" "diff_of digests = sha_of P diff"
    and f: "f = \<lparr>frozen_manifest = with_delivery_payload_digest m
          (Some (sha_of P (payload_json P (payload_listing (sha_of P) exact)))),
        frozen_diff = diff, frozen_files = exact\<rparr>"
  have paths: "distinct (map file_path fs)" and files: "files m = sort_key file_path fs"
    and digest: "diff_digest m = sha_of P diff"
    using m unfolding manifest_new_Ok_iff by simp_all
  note ok = candidate_files_ok [OF read git_stdout_bounded_length [OF diff]]
  then have "try_fold (observe_file (sha_of P)) [] exact = Ok (expected_files (files m))"
    unfolding files by (intro payload_matches_files paths) simp_all
  moreover have "\<not> list_ex (\<lambda>f. file_kind f \<noteq> Deleted \<and> file_digest f = None) (files m)"
    using ok by (auto simp: files list_ex_iff kept_def)
  ultimately show ?thesis
    using ok digest observe_payload_Ok_iff [of "sha_of P" "[]" exact]
    by (simp add: f validate_payload_def validated_payload_def with_delivery_payload_digest_def
        save_candidate_once_def)
qed


text \<open>A repository with one new file, whose single byte is a line feed.\<close>

definition sample_platform :: platform where
  "sample_platform = \<lparr>sha_of = \<lambda>bs. of_nat (length bs), payload_json = \<lambda>l. replicate (length l) 0,
     on_windows = False, architecture_name = ''x86_64'', operating_system_name = ''linux'',
     environment_json = \<lambda>_. [], entries_json = \<lambda>_. []\<rparr>"

definition sample_git :: "string list \<Rightarrow> git_answer" where
  "sample_git args =
     (if args = [''rev-parse'', ''--show-toplevel''] then Exited True (as_bytes ''/r'') []
      else if hd args = ''rev-parse'' then Exited True (as_bytes ''b'') []
      else if ''--binary'' \<in> set args then Exited True [7] []
      else if ''--name-status'' \<in> set args then Exited True (as_bytes ''A'' @ [0] @ as_bytes ''new'' @ [0]) []
      else if hd args = ''ls-tree'' then Exited True (as_bytes ''100755 blob 1f'' @ [9] @ as_bytes ''new'' @ [0]) []
      else if ''-s'' \<in> set args then Exited True (as_bytes ''1'') []
      else if hd args = ''cat-file'' then Exited True [10] []
      else if hd args = ''--version'' then Exited True (as_bytes ''git'') []
      else Exited True [] [])"

definition frozen_view :: work_tree_view where
  "frozen_view = \<lparr>git_answer_to = sample_git, canonical_path = Ok, present_file = \<lambda>_. True,
     link_status = \<lambda>_. Err NotFound, file_content = \<lambda>_. Err NotFound, open_status = \<lambda>_. Err NotFound\<rparr>"

definition sample_frozen_candidate :: frozen_candidate where
  "sample_frozen_candidate = \<lparr>
     frozen_manifest = \<lparr>manifest_id = Id 1, base_revision = Some ''b'',
       files = [\<lparr>executable = True, file_path = ''new'', file_digest = Some 1, file_kind = Added\<rparr>],
       diff_digest = 1, dependency_state_digest = 0, configuration_digest = 0, environment_digest = 0,
       delivery_payload_digest = Some 1, manifest_evidence = []\<rparr>,
     frozen_diff = [7],
     frozen_files = [\<lparr>payload_path = ''new'', payload_content = [10], payload_executable = True\<rparr>]\<rparr>"

lemma sample_texts:
  "git_text frozen_view [''rev-parse'', ''--show-toplevel''] = Ok ''/r''"
  "git_text frozen_view [''rev-parse'', ''b^{commit}''] = Ok ''b''"
  "git_text frozen_view [''--version''] = Ok ''git''"
  "git_text frozen_view [''cat-file'', ''-s'', ''1f''] = Ok ''1''"
  "git_tree_entry frozen_view ''new'' = Ok (True, ''1f'')"
  "git_status frozen_view [''merge-base'', ''--is-ancestor'', ''b'', ''HEAD''] = Ok True"
  "require_clean frozen_view = Ok ()"
  "nul_fields (as_bytes ''A'' @ [0] @ as_bytes ''new'' @ [0]) = Ok [''A'', ''new'']"
  "status_kind ''A'' ''new'' = Added"
  by code_simp+

lemma sample_reads:
  "git frozen_view [''diff'', ''--name-status'', ''-z'', ''--no-renames'', ''b'', ''HEAD'', ''--''] =
     Ok (as_bytes ''A'' @ 0 # as_bytes ''new'' @ [0])"
  "nul_fields (as_bytes ''A'' @ 0 # as_bytes ''new'' @ [0]) = Ok [''A'', ''new'']"
  "git frozen_view [''ls-files'', ''-z''] = Ok []"
  "is_safe_relative ''new''"
  "nul_fields [] = Ok []"
  by code_simp+

lemma sample_streams:
  "canonicalize frozen_view p = Ok p"
  "0 < n \<Longrightarrow> git_stdout_bounded frozen_view
     [''diff'', ''--binary'', ''--no-ext-diff'', ''--full-index'', ''b'', ''HEAD'', ''--''] n = Ok [7]"
  "0 < n \<Longrightarrow> git_stdout_bounded frozen_view [''cat-file'', ''blob'', ''1f''] n = Ok [10]"
  "parse_u64 ''1'' = Some 1"
  by (simp_all add: canonicalize_def git_stdout_bounded_def frozen_view_def sample_git_def parse_u64_def
      digits_value_def is_ascii_digit_def)

lemma sample_freeze:
  "freeze sample_platform frozen_view frozen_view ''/r'' ''b'' (Id 1) [] = Ok sample_frozen_candidate"
  by (simp add: freeze_def sample_texts sample_reads sample_streams max_candidate_payload_bytes_def
      ensure_def candidate_files_of_def measure_change_def read_change_def candidate_file_new_def
      selected_files_digest_def detect_environment_def manifest_new_def validate_platform_modes_def
      sample_platform_def sample_frozen_candidate_def with_delivery_payload_digest_def bt_get_def
      with_executable_def payload_listing_def del: and_then_Ok_iff)

theorem frozen_candidate_is_accepted_witness:
  "validate_payload sample_platform (frozen_manifest sample_frozen_candidate) [7]
     [\<lparr>payload_path = ''new'', payload_content = [10], payload_executable = True\<rparr>] = Some (Ok ())"
  using frozen_candidate_is_accepted [OF sample_freeze, of empty_store "Id 1"]
  by (simp add: sample_frozen_candidate_def)


section \<open>What freezing reports\<close>

lemma read_change_kind:
  assumes "read_change P V trees st change = Ok st'"
  shows "map (\<lambda>f. (file_path f, file_kind f)) (read_files st') =
    map (\<lambda>f. (file_path f, file_kind f)) (read_files st) @ [(snd change, status_kind (fst change) (snd change))]"
  using assms
  by (auto simp: read_change_def Let_def candidate_file_new_def with_executable_def
      split: if_splits prod.splits)

lemma read_changes_kinds:
  "try_fold (read_change P V trees) st changes = Ok st' \<Longrightarrow>
   map (\<lambda>f. (file_path f, file_kind f)) (read_files st') =
     map (\<lambda>f. (file_path f, file_kind f)) (read_files st)
     @ map (\<lambda>(status, path). (path, status_kind status path)) changes"
  by (induction changes arbitrary: st) (force dest: read_change_kind)+

text \<open>
  The manifest of a frozen candidate lists each change that git reports between the base and the head,
  once and with its kind, and nothing else.
\<close>

theorem frozen_manifest_lists_changes:
  assumes "freeze P V W project base c evidence = Ok f"
  shows "\<exists>changes fields.
      git V [''diff'', ''--name-status'', ''-z'', ''--no-renames'', base, ''HEAD'', ''--''] = Ok changes
      \<and> nul_fields changes = Ok fields
      \<and> mset (map (\<lambda>f. (file_path f, file_kind f)) (files (frozen_manifest f)))
        = mset (map (\<lambda>(status, path). (path, status_kind status path)) (pairs fields))"
  using assms
proof (rule freeze_parts)
  fix diff changes fs exact digests m
  assume changes: "git V [''diff'', ''--name-status'', ''-z'', ''--no-renames'', base, ''HEAD'', ''--''] = Ok changes"
    and read: "candidate_files_of P V changes (length diff) = Ok (fs, exact)"
    and m: "manifest_new c (Some base) fs digests evidence = Ok m"
    and f: "f = \<lparr>frozen_manifest = with_delivery_payload_digest m
          (Some (sha_of P (payload_json P (payload_listing (sha_of P) exact)))),
        frozen_diff = diff, frozen_files = exact\<rparr>"
  obtain fields where fields: "nul_fields changes = Ok fields"
    and kinds: "map (\<lambda>f. (file_path f, file_kind f)) fs =
      map (\<lambda>(status, path). (path, status_kind status path)) (pairs fields)"
    using read by (auto simp: candidate_files_of_def split: if_splits dest!: read_changes_kinds)
  have "mset (map (\<lambda>f. (file_path f, file_kind f)) (files m)) = mset (map (\<lambda>f. (file_path f, file_kind f)) fs)"
    using m unfolding manifest_new_Ok_iff by simp
  with changes fields kinds show ?thesis by (auto simp: f with_delivery_payload_digest_def)
qed

text \<open>Freezing again finds the same candidate, as long as the work tree is the one it was.\<close>

lemma manifest_new_sorted: "manifest_new c base fs digests (sort evidence) = manifest_new c base fs digests evidence"
  by (simp add: manifest_new_def Let_def)

theorem frozen_candidate_verifies:
  assumes "freeze P V W project base c evidence = Ok f"
  shows "verify_frozen P V W project (frozen_manifest f) (frozen_diff f) (frozen_files f) = Ok True"
proof -
  have parts: "base_revision (frozen_manifest f) = Some base" "manifest_id (frozen_manifest f) = c"
    "manifest_evidence (frozen_manifest f) = sort evidence"
    using assms by (auto elim!: freeze_parts simp: manifest_new_Ok_iff with_delivery_payload_digest_def)
  have "freeze P V W project base c (sort evidence) = freeze P V W project base c evidence"
    by (simp only: freeze_def manifest_new_sorted)
  with assms parts show ?thesis by (simp add: verify_frozen_def)
qed

end
