(* ===== verification/File_Tree.thy ===== *)
theory File_Tree
  imports Freeze "HOL-Library.AList"
begin

text \<open>
  The file system that a delivery works on, and what may happen to it between two operations: a power
  cut, an error of the disk, a change by another program.  The operations are those of Rust's
  \<open>std::fs\<close>; the crate \<open>cap-std\<close> offers the same ones relative to an open directory.
\<close>

section \<open>Paths\<close>

text \<open>The proper ancestors of a path, outermost first, without the root itself.\<close>

definition path_ancestors :: "string \<Rightarrow> string list" where
  "path_ancestors p = map (\<lambda>i. take i p) (filter (\<lambda>i. p ! i = CHR ''/'') [0..<length p])"

definition parent_path :: "string \<Rightarrow> string" where
  "parent_path p = (if path_ancestors p = [] then [] else last (path_ancestors p))"

definition inside :: "string \<Rightarrow> string \<Rightarrow> bool" where
  "inside a p \<longleftrightarrow> prefix (a @ ''/'') p"

definition path_depth :: "string \<Rightarrow> nat" where
  "path_depth p = length (filter (\<lambda>c. c = CHR ''/'') p)"

lemma path_ancestors_iff: "a \<in> set (path_ancestors p) \<longleftrightarrow> inside a p"
proof
  assume "a \<in> set (path_ancestors p)"
  then obtain i where i: "i < length p" "p ! i = CHR ''/''" "a = take i p"
    by (auto simp: path_ancestors_def)
  then have "p = a @ CHR ''/'' # drop (Suc i) p" using id_take_nth_drop [of i p] by simp
  then show "inside a p" by (metis inside_def append_Cons append_Nil append_assoc prefixI)
next
  assume "inside a p"
  then obtain r where r: "p = a @ CHR ''/'' # r" by (auto simp: inside_def prefix_def)
  then show "a \<in> set (path_ancestors p)"
    by (auto simp: path_ancestors_def intro!: rev_image_eqI [of "length a"])
qed

lemma inside_irrefl [simp]: "\<not> inside p p"
  by (auto simp: inside_def prefix_def)

lemma inside_trans: "inside a b \<Longrightarrow> inside b c \<Longrightarrow> inside a c"
  by (auto simp: inside_def prefix_def)

lemma inside_length: "inside a p \<Longrightarrow> length a < length p"
  by (auto simp: inside_def prefix_def)

section \<open>Nodes and places\<close>

datatype node = File "byte list" bool | Directory | Symlink | Special

definition is_file :: "node \<Rightarrow> bool" where
  "is_file n \<longleftrightarrow> (\<exists>c e. n = File c e)"

lemma is_file_simps [simp]:
  "is_file (File c e)" "\<not> is_file Directory" "\<not> is_file Symlink" "\<not> is_file Special"
  by (simp_all add: is_file_def)

lemma is_file_code [code]:
  "is_file n = (case n of File c e \<Rightarrow> True | _ \<Rightarrow> False)"
  by (cases n) simp_all

text \<open>The work tree and the directory of git are apart, wherever the latter is.\<close>

datatype area = WorkTree | GitDirectory

type_synonym place = "area \<times> string"
type_synonym tree = "(place \<times> node) list"

abbreviation at :: "tree \<Rightarrow> place \<Rightarrow> node option" where
  "at t \<equiv> map_of t"

definition put :: "place \<Rightarrow> node \<Rightarrow> tree \<Rightarrow> tree" where
  "put x n t = AList.update x n t"

definition cut :: "place \<Rightarrow> tree \<Rightarrow> tree" where
  "cut x t = AList.delete x t"

lemma at_put [simp]: "at (put x n t) = (at t)(x \<mapsto> n)"
  by (simp add: put_def update_conv')

lemma at_cut [simp]: "at (cut x t) = (at t)(x := None)"
  by (simp add: cut_def delete_conv')

definition parent_place :: "place \<Rightarrow> place" where
  "parent_place x = (fst x, parent_path (snd x))"

definition dir_at :: "tree \<Rightarrow> place \<Rightarrow> bool" where
  "dir_at t x \<longleftrightarrow> snd x = [] \<or> at t x = Some Directory"

definition place_inside :: "place \<Rightarrow> place \<Rightarrow> bool" where
  "place_inside x y \<longleftrightarrow> fst x = fst y \<and> inside (snd x) (snd y)"

definition ancestor_places :: "place \<Rightarrow> place list" where
  "ancestor_places x = map (\<lambda>p. (fst x, p)) (path_ancestors (snd x))"

text \<open>Why a path cannot be reached.\<close>

definition missing :: "tree \<Rightarrow> place \<Rightarrow> io_error" where
  "missing t x =
     (if list_ex (\<lambda>a. at t a \<noteq> None \<and> at t a \<noteq> Some Directory) (ancestor_places x) then NotADirectory else NotFound)"

section \<open>The operations\<close>

type_synonym 'a tree_operation = "tree \<Rightarrow> io_error + 'a \<times> tree"

definition fs_stat :: "place \<Rightarrow> node tree_operation" where
  "fs_stat x t = (case at t x of None \<Rightarrow> Err (missing t x) | Some n \<Rightarrow> Ok (n, t))"

definition fs_read :: "place \<Rightarrow> byte list tree_operation" where
  "fs_read x t = (case at t x of
     None \<Rightarrow> Err (missing t x) | Some (File c e) \<Rightarrow> Ok (c, t) | Some _ \<Rightarrow> Err (OtherIo ''not a regular file''))"

text \<open>The mode of an open file or directory; a directory can be searched.\<close>

definition fs_mode :: "place \<Rightarrow> bool tree_operation" where
  "fs_mode x t = (case at t x of
     None \<Rightarrow> Err (missing t x) | Some (File c e) \<Rightarrow> Ok (e, t) | Some Directory \<Rightarrow> Ok (True, t)
   | Some _ \<Rightarrow> Err (OtherIo ''not a regular file''))"

definition fs_create_new :: "place \<Rightarrow> unit tree_operation" where
  "fs_create_new x t =
     (if at t x \<noteq> None then Err AlreadyExists
      else if \<not> dir_at t (parent_place x) then Err (missing t x)
      else Ok ((), put x (File [] False) t))"

text \<open>A write goes to the file that was opened, whose name may be gone.\<close>

definition fs_write :: "place \<Rightarrow> byte list \<Rightarrow> unit tree_operation" where
  "fs_write x content t = (case at t x of
     Some (File c e) \<Rightarrow> Ok ((), put x (File content e) t) | _ \<Rightarrow> Ok ((), t))"

definition partial_write :: "place \<Rightarrow> byte list \<Rightarrow> nat \<Rightarrow> tree \<Rightarrow> tree" where
  "partial_write x content n t = (case at t x of
     Some (File c e) \<Rightarrow> put x (File (take n content) e) t | _ \<Rightarrow> t)"

definition fs_set_mode :: "place \<Rightarrow> bool \<Rightarrow> unit tree_operation" where
  "fs_set_mode x b t = (case at t x of
     Some (File c e) \<Rightarrow> Ok ((), put x (File c b) t) | Some _ \<Rightarrow> Err (OtherIo ''not a regular file'')
   | None \<Rightarrow> Err (missing t x))"

definition fs_remove_file :: "place \<Rightarrow> unit tree_operation" where
  "fs_remove_file x t = (case at t x of
     None \<Rightarrow> Err (missing t x) | Some Directory \<Rightarrow> Err (OtherIo ''is a directory'')
   | Some _ \<Rightarrow> Ok ((), cut x t))"

text \<open>A second name for a file; what it names does not change afterwards.\<close>

definition fs_hard_link :: "place \<Rightarrow> place \<Rightarrow> unit tree_operation" where
  "fs_hard_link x y t = (case at t x of
     None \<Rightarrow> Err (missing t x)
   | Some Directory \<Rightarrow> Err (OtherIo ''operation not permitted'')
   | Some n \<Rightarrow>
       if at t y \<noteq> None then Err AlreadyExists
       else if \<not> dir_at t (parent_place y) then Err (missing t y)
       else Ok ((), put y n t))"

text \<open>A directory moves with everything inside; a file may replace a file.\<close>

definition moved_place :: "place \<Rightarrow> place \<Rightarrow> place \<Rightarrow> place" where
  "moved_place x y z =
     (if z = x \<or> place_inside x z then (fst y, snd y @ drop (length (snd x)) (snd z)) else z)"

definition moved :: "place \<Rightarrow> place \<Rightarrow> node \<Rightarrow> tree \<Rightarrow> tree" where
  "moved x y n t =
     (if n = Directory then map (\<lambda>(z, m). (moved_place x y z, m)) t else put y n (cut x t))"

definition fs_rename :: "place \<Rightarrow> place \<Rightarrow> unit tree_operation" where
  "fs_rename x y t = (case at t x of
     None \<Rightarrow> Err (missing t x)
   | Some n \<Rightarrow>
       if \<not> dir_at t (parent_place y) then Err (missing t y)
       else if at t y \<noteq> None \<and> (n = Directory \<or> at t y = Some Directory) \<or> place_inside x y
         then Err (OtherIo ''invalid rename'')
       else Ok ((), moved x y n t))"

definition fs_create_dir :: "place \<Rightarrow> unit tree_operation" where
  "fs_create_dir x t =
     (if at t x \<noteq> None then Err AlreadyExists
      else if \<not> dir_at t (parent_place x) then Err (missing t x)
      else Ok ((), put x Directory t))"

definition add_directory :: "place \<Rightarrow> tree \<Rightarrow> tree" where
  "add_directory x t = (if at t x = None then put x Directory t else t)"

definition fs_create_dir_all :: "place \<Rightarrow> unit tree_operation" where
  "fs_create_dir_all x t =
     (if list_ex (\<lambda>y. at t y \<noteq> None \<and> at t y \<noteq> Some Directory) (ancestor_places x @ [x]) then Err AlreadyExists
      else Ok ((), fold add_directory (ancestor_places x @ [x]) t))"

definition partial_create_dir_all :: "place \<Rightarrow> nat \<Rightarrow> tree \<Rightarrow> tree" where
  "partial_create_dir_all x n t =
     (if list_ex (\<lambda>y. at t y \<noteq> None \<and> at t y \<noteq> Some Directory) (ancestor_places x @ [x]) then t
      else fold add_directory (take n (ancestor_places x @ [x])) t)"

definition fs_empty :: "place \<Rightarrow> tree \<Rightarrow> bool" where
  "fs_empty x t \<longleftrightarrow> list_all (\<lambda>(y, n). \<not> place_inside x y) t"

lemma fs_empty_iff: "fs_empty x t \<longleftrightarrow> (\<forall>y. place_inside x y \<longrightarrow> at t y = None)"
  by (force simp: fs_empty_def list_all_iff map_of_eq_None_iff)

definition fs_remove_dir :: "place \<Rightarrow> unit tree_operation" where
  "fs_remove_dir x t = (case at t x of
     None \<Rightarrow> Err (missing t x)
   | Some Directory \<Rightarrow> if fs_empty x t then Ok ((), cut x t) else Err DirectoryNotEmpty
   | Some _ \<Rightarrow> Err NotADirectory)"

text \<open>\<open>open_dir\<close> and whether its first entry is there.\<close>

definition fs_has_entries :: "place \<Rightarrow> bool tree_operation" where
  "fs_has_entries x t = (case at t x of
     None \<Rightarrow> Err (missing t x) | Some Directory \<Rightarrow> Ok (\<not> fs_empty x t, t) | Some _ \<Rightarrow> Err NotADirectory)"

section \<open>What happens between the operations\<close>

text \<open>
  \<open>Fails\<close> and \<open>Crashes\<close> carry how much of the operation was done when it failed or the power was cut;
  \<open>Meanwhile\<close> is a change by another program.  After the listed events nothing goes wrong any more.
\<close>

datatype event = Proceed | Fails io_error nat | Crashes nat | Meanwhile place "node option"

record disk =
  nodes :: tree
  database :: store
  future :: "event list"

datatype ('e, 'a) outcome = Crashed | Panicking | Returned "'e + 'a"

type_synonym ('e, 'a) action = "disk \<Rightarrow> ('e, 'a) outcome \<times> disk"

definition change_node :: "place \<Rightarrow> node option \<Rightarrow> tree \<Rightarrow> tree" where
  "change_node x v t = (case v of None \<Rightarrow> cut x t | Some n \<Rightarrow> put x n t)"

definition attempt :: "(disk \<Rightarrow> 'e + 'a \<times> disk) \<Rightarrow> ('e, 'a) action" where
  "attempt run d = (case run d of Inl e \<Rightarrow> (Returned (Err e), d) | Inr (a, d') \<Rightarrow> (Returned (Ok a), d'))"

fun perform :: "(disk \<Rightarrow> 'e + 'a \<times> disk) \<Rightarrow> (io_error \<Rightarrow> 'e) \<Rightarrow> (nat \<Rightarrow> tree \<Rightarrow> tree) \<Rightarrow>
    event list \<Rightarrow> ('e, 'a) action" where
  "perform run failing partial [] d = attempt run (d\<lparr>future := []\<rparr>)"
| "perform run failing partial (Proceed # es) d = attempt run (d\<lparr>future := es\<rparr>)"
| "perform run failing partial (Fails e n # es) d =
     (Returned (Err (failing e)), d\<lparr>nodes := partial n (nodes d), future := es\<rparr>)"
| "perform run failing partial (Crashes n # es) d =
     (Crashed, d\<lparr>nodes := partial n (nodes d), future := es\<rparr>)"
| "perform run failing partial (Meanwhile x v # es) d =
     perform run failing partial es (d\<lparr>nodes := change_node x v (nodes d)\<rparr>)"

definition on_tree :: "'a tree_operation \<Rightarrow> disk \<Rightarrow> io_error + 'a \<times> disk" where
  "on_tree f d = (case f (nodes d) of Inl e \<Rightarrow> Err e | Inr (a, t) \<Rightarrow> Ok (a, d\<lparr>nodes := t\<rparr>))"

definition io_partly :: "'a tree_operation \<Rightarrow> (nat \<Rightarrow> tree \<Rightarrow> tree) \<Rightarrow> (io_error, 'a) action" where
  "io_partly f partial = (\<lambda>d. perform (on_tree f) (\<lambda>e. e) partial (future d) d)"

definition io :: "'a tree_operation \<Rightarrow> (io_error, 'a) action" where
  "io f = io_partly f (\<lambda>n t. t)"

section \<open>Composing operations\<close>

definition yield :: "'a \<Rightarrow> ('e, 'a) action" where
  "yield a = (\<lambda>d. (Returned (Ok a), d))"

definition fail :: "'e \<Rightarrow> ('e, 'a) action" where
  "fail e = (\<lambda>d. (Returned (Err e), d))"

text \<open>A power cut ends the process and a panic the request; every result goes to the handler.\<close>

definition handle :: "('e, 'a) action \<Rightarrow> ('e + 'a \<Rightarrow> ('f, 'b) action) \<Rightarrow> ('f, 'b) action" where
  "handle m h = (\<lambda>d. case m d of (Crashed, d') \<Rightarrow> (Crashed, d')
     | (Panicking, d') \<Rightarrow> (Panicking, d') | (Returned r, d') \<Rightarrow> h r d')"

definition bind :: "('e, 'a) action \<Rightarrow> ('a \<Rightarrow> ('e, 'b) action) \<Rightarrow> ('e, 'b) action" where
  "bind m f = handle m (\<lambda>r. case r of Inl e \<Rightarrow> fail e | Inr a \<Rightarrow> f a)"

definition failing_with :: "('e \<Rightarrow> 'f) \<Rightarrow> ('e, 'a) action \<Rightarrow> ('f, 'a) action" where
  "failing_with f m = handle m (\<lambda>r. case r of Inl e \<Rightarrow> fail (f e) | Inr a \<Rightarrow> yield a)"

definition panic :: "('e, 'a) action" where
  "panic = (\<lambda>d. (Panicking, d))"

definition require :: "bool \<Rightarrow> 'e \<Rightarrow> ('e, unit) action" where
  "require b e = (if b then yield () else fail e)"

definition pure :: "'e + 'a \<Rightarrow> ('e, 'a) action" where
  "pure r = (\<lambda>d. (Returned r, d))"

fun for_each :: "('a \<Rightarrow> ('e, unit) action) \<Rightarrow> 'a list \<Rightarrow> ('e, unit) action" where
  "for_each f [] = yield ()"
| "for_each f (x # xs) = bind (f x) (\<lambda>_. for_each f xs)"

text \<open>A loop that collects, and one that stops at the first \<open>False\<close>.\<close>

fun for_collect :: "('a \<Rightarrow> ('e, 'b) action) \<Rightarrow> 'a list \<Rightarrow> ('e, 'b list) action" where
  "for_collect f [] = yield []"
| "for_collect f (x # xs) = bind (f x) (\<lambda>y. bind (for_collect f xs) (\<lambda>ys. yield (y # ys)))"

fun for_all :: "('a \<Rightarrow> ('e, bool) action) \<Rightarrow> 'a list \<Rightarrow> ('e, bool) action" where
  "for_all f [] = yield True"
| "for_all f (x # xs) = bind (f x) (\<lambda>b. if b then for_all f xs else yield False)"

end
