(* ===== verification/Delivery.thy ===== *)
theory Delivery
  imports File_Tree Daemon_Decisions
begin

text \<open>
  Delivering a frozen candidate to the user's work tree: the second half of
  \<open>crates/workflowd/src/candidate.rs\<close>.  A delivery writes a journal of what it is about to replace, moves
  the old files aside, links the new ones into place, and marks the journal committed; after an
  interruption the journal says whether to roll back or to clean up.  The lock that keeps two
  deliveries apart is not modelled.
\<close>

section \<open>Outside\<close>

text \<open>
  What is not this code: the platform, the answers of git, which are those of the base revision, but
  for \<open>git apply --check\<close>, which reads the work tree; the texts of errors and identifiers; the JSON of a
  journal.
\<close>

record journal_file =
  approved_digest :: "content_digest option"
  approved_executable :: bool
  original_digest :: "content_digest option"
  original_directory :: bool
  original_executable :: bool
  journal_path :: string

record delivery_journal =
  journal_candidate :: candidate_id
  journal_files :: "journal_file list"
  nonce :: string

record outside =
  platform_of :: platform
  base_view :: work_tree_view
  apply_answer :: "tree \<Rightarrow> byte list \<Rightarrow> git_answer"
  io_text :: "io_error \<Rightarrow> string"
  core_text :: "candidate_error \<Rightarrow> string"
  store_text :: "store_error \<Rightarrow> string"
  quoted :: "string \<Rightarrow> string"
  candidate_text :: "candidate_id \<Rightarrow> string"
  journal_json :: "delivery_journal \<Rightarrow> byte list"
  read_journal :: "byte list \<Rightarrow> string + delivery_journal"

abbreviation sha_in :: "outside \<Rightarrow> byte list \<Rightarrow> content_digest" where
  "sha_in W \<equiv> sha_of (platform_of W)"

text \<open>\<open>Display\<close> of the two error types.\<close>

definition manifest_error_text :: "outside \<Rightarrow> manifest_error \<Rightarrow> string" where
  "manifest_error_text W e = (case e of
     ChangedDuringRead \<Rightarrow> ''file changed while it was being hashed''
   | ManifestIo i \<Rightarrow> io_text W i
   | NotRegularFile \<Rightarrow> ''manifest path is not a regular file'')"

definition error_text :: "outside \<Rightarrow> freeze_error \<Rightarrow> string" where
  "error_text W e = (case e of
     CoreError c \<Rightarrow> core_text W c
   | DirtyWorktree \<Rightarrow> ''candidate worktree must be clean before freezing''
   | GitFailed m \<Rightarrow> ''Git candidate operation failed: '' @ m
   | InvalidBaseRevision \<Rightarrow> ''candidate base revision is invalid or not an ancestor''
   | InvalidRepository \<Rightarrow> ''candidate root is not a Git worktree''
   | FreezeIo i \<Rightarrow> io_text W i
   | ManifestError m \<Rightarrow> manifest_error_text W m
   | NonUtf8Path \<Rightarrow> ''candidate path is not valid UTF-8''
   | PayloadMismatch \<Rightarrow> ''candidate payload does not match its immutable manifest''
   | PayloadTooLarge \<Rightarrow> ''candidate payload exceeds 128 MiB''
   | UnsupportedExecutableMode \<Rightarrow> ''executable candidate files are not supported on this operating system''
   | SerializationFailed m \<Rightarrow> m)"

type_synonym 'a delivery = "(freeze_error, 'a) action"

definition os :: "'a tree_operation \<Rightarrow> 'a delivery" where
  "os f = failing_with FreezeIo (io f)"

definition sync :: "unit delivery" where
  "sync = os (\<lambda>t. Ok ((), t))"

definition git_error :: "string \<Rightarrow> 'a delivery" where
  "git_error m = fail (GitFailed m)"

section \<open>The work tree (RepositoryFs)\<close>

abbreviation in_tree :: "string \<Rightarrow> place" where
  "in_tree p \<equiv> (WorkTree, p)"

definition metadata :: "string \<Rightarrow> node option delivery" where
  "metadata p = handle (io (fs_stat (in_tree p))) (\<lambda>r. case r of
     Inr n \<Rightarrow> yield (Some n)
   | Inl e \<Rightarrow> if e = NotFound \<or> e = NotADirectory then yield None else fail (FreezeIo e))"

definition digest_at :: "outside \<Rightarrow> string \<Rightarrow> content_digest delivery" where
  "digest_at W p = bind (metadata p) (\<lambda>m. case m of
     Some (File c e) \<Rightarrow>
       bind (os (fs_read (in_tree p))) (\<lambda>content.
       if length content \<noteq> length c then git_error ''candidate destination changed during read''
       else yield (sha_in W content))
   | _ \<Rightarrow> fail PayloadMismatch)"

definition remove_file_if_exists :: "outside \<Rightarrow> string \<Rightarrow> unit delivery" where
  "remove_file_if_exists W p = handle (io (fs_remove_file (in_tree p))) (\<lambda>r. case r of
     Inr _ \<Rightarrow> yield ()
   | Inl e \<Rightarrow> if e = NotFound then yield ()
       else git_error (''candidate delivery artifact removal failed for '' @ quoted W p @ '': '' @ io_text W e))"

definition executable_matches :: "outside \<Rightarrow> string \<Rightarrow> bool \<Rightarrow> bool delivery" where
  "executable_matches W p expected =
     (if on_windows (platform_of W) then yield True
      else bind (os (fs_mode (in_tree p))) (\<lambda>mode. yield (mode = expected)))"

definition set_executable :: "outside \<Rightarrow> string \<Rightarrow> bool \<Rightarrow> unit delivery" where
  "set_executable W p b =
     (if on_windows (platform_of W) then yield () else os (fs_set_mode (in_tree p) b))"

definition write_new_file :: "outside \<Rightarrow> string \<Rightarrow> byte list \<Rightarrow> unit delivery" where
  "write_new_file W p content =
     (let failed = \<lambda>what e. GitFailed (''candidate staging '' @ what @ '' failed for '' @ quoted W p @ '': '' @ io_text W e) in
      bind (failing_with (failed ''open'') (io (fs_create_new (in_tree p)))) (\<lambda>_.
      bind (failing_with (failed ''write'') (io_partly (fs_write (in_tree p) content) (partial_write (in_tree p) content))) (\<lambda>_.
      failing_with (failed ''sync'') (io (\<lambda>t. Ok ((), t))))))"

definition create_parents :: "string \<Rightarrow> unit delivery" where
  "create_parents p =
     (if parent_path p = [] then yield ()
      else failing_with FreezeIo (io_partly (fs_create_dir_all (in_tree (parent_path p)))
        (partial_create_dir_all (in_tree (parent_path p)))))"

section \<open>Artefacts in git's directory\<close>

abbreviation in_git :: "string \<Rightarrow> place" where
  "in_git p \<equiv> (GitDirectory, p)"

definition journal_directory :: string where "journal_directory = ''opencode-cycle-delivery''"
definition legacy_directory :: string where "legacy_directory = ''opencode-workflow-delivery''"

definition journal_at :: "outside \<Rightarrow> string \<Rightarrow> candidate_id \<Rightarrow> place" where
  "journal_at W directory c = in_git (directory @ ''/'' @ candidate_text W c @ ''.json'')"

definition committed_at :: "outside \<Rightarrow> string \<Rightarrow> candidate_id \<Rightarrow> place" where
  "committed_at W directory c = in_git (directory @ ''/'' @ candidate_text W c @ ''.committed'')"

definition temporary_of :: "place \<Rightarrow> place" where
  "temporary_of x = (fst x, snd x @ ''.tmp'')"

text \<open>\<open>Path::exists\<close>: an error reads as absence.\<close>

definition exists_at :: "place \<Rightarrow> bool delivery" where
  "exists_at x = handle (io (fs_stat x)) (\<lambda>r. case r of Inr _ \<Rightarrow> yield True | Inl _ \<Rightarrow> yield False)"

definition try_exists_at :: "place \<Rightarrow> bool delivery" where
  "try_exists_at x = handle (io (fs_stat x)) (\<lambda>r. case r of
     Inr _ \<Rightarrow> yield True | Inl e \<Rightarrow> if e = NotFound then yield False else fail (FreezeIo e))"

definition remove_if_exists :: "place \<Rightarrow> unit delivery" where
  "remove_if_exists x = handle (io (fs_stat x)) (\<lambda>r. case r of
     Inr n \<Rightarrow> if is_file n \<or> n = Symlink then os (fs_remove_file x)
       else git_error ''candidate delivery artifact is not a regular file''
   | Inl e \<Rightarrow> if e = NotFound then yield () else fail (FreezeIo e))"

text \<open>The journal is written under another name, which a second link then makes public.\<close>

definition write_journal :: "outside \<Rightarrow> place \<Rightarrow> delivery_journal \<Rightarrow> unit delivery" where
  "write_journal W x J =
     (let encoded = journal_json W J; temporary = temporary_of x in
      bind (remove_if_exists temporary) (\<lambda>_.
      handle
        (bind (os (fs_create_new temporary)) (\<lambda>_.
         bind (failing_with FreezeIo (io_partly (fs_write temporary encoded) (partial_write temporary encoded))) (\<lambda>_.
         bind sync (\<lambda>_.
         bind (failing_with (\<lambda>e. GitFailed (''candidate delivery journal publication failed: '' @ io_text W e))
           (io (fs_hard_link temporary x))) (\<lambda>_.
         bind sync (\<lambda>_.
         bind (failing_with (\<lambda>e. GitFailed (''candidate journal temporary cleanup failed: '' @ io_text W e))
           (io (fs_remove_file temporary))) (\<lambda>_. sync)))))))
        (\<lambda>r. case r of
           Inr _ \<Rightarrow> yield ()
         | Inl e \<Rightarrow> handle (remove_if_exists temporary) (\<lambda>_. fail e))))"

definition write_committed_marker :: "outside \<Rightarrow> place \<Rightarrow> unit delivery" where
  "write_committed_marker W x =
     bind (failing_with (\<lambda>e. GitFailed (''candidate committed marker failed: '' @ io_text W e)) (io (fs_create_new x)))
       (\<lambda>_. bind sync (\<lambda>_. sync))"

section \<open>Journals\<close>

definition adjacent_path :: "outside \<Rightarrow> delivery_journal \<Rightarrow> string \<Rightarrow> nat \<Rightarrow> string" where
  "adjacent_path W J kind i =
     ''.opencode-cycle-'' @ candidate_text W (journal_candidate J) @ ''-'' @ nonce J @ ''-'' @ kind @ ''-'' @ decimal i"

definition journal_digest :: "outside \<Rightarrow> delivery_journal \<Rightarrow> content_digest" where
  "journal_digest W J = sha_in W (journal_json W J)"

definition has_inside :: "(candidate_file \<Rightarrow> bool) \<Rightarrow> candidate_manifest \<Rightarrow> string \<Rightarrow> bool" where
  "has_inside P m path \<longleftrightarrow> list_ex (\<lambda>f. P f \<and> inside path (file_path f)) (files m)"

definition deleted :: "candidate_file \<Rightarrow> bool" where
  "deleted f \<longleftrightarrow> file_kind f = Deleted"

definition journal_entry_matches :: "journal_file \<times> candidate_file \<Rightarrow> bool" where
  "journal_entry_matches = (\<lambda>(saved, approved). is_safe_relative (journal_path saved)
     \<and> journal_path saved = file_path approved \<and> approved_digest saved = file_digest approved
     \<and> approved_executable saved = executable approved)"

definition journal_matches_manifest :: "delivery_journal \<Rightarrow> candidate_manifest \<Rightarrow> bool" where
  "journal_matches_manifest J m \<longleftrightarrow>
     journal_candidate J = manifest_id m \<and> length (nonce J) = 32 \<and> list_all is_lower_hex (nonce J)
     \<and> length (journal_files J) = length (files m)
     \<and> list_all journal_entry_matches (zip (journal_files J) (files m))"

text \<open>A destination has no link on its way, and no file where a directory has to be.\<close>

fun validate_prefixes :: "candidate_manifest \<Rightarrow> string list \<Rightarrow> unit delivery" where
  "validate_prefixes m [] = yield ()"
| "validate_prefixes m (p # ps) =
     bind (metadata p) (\<lambda>found. case found of
       None \<Rightarrow> validate_prefixes m ps
     | Some n \<Rightarrow>
         if n = Symlink
           \<or> ps \<noteq> [] \<and> n \<noteq> Directory \<and> \<not> list_ex (\<lambda>f. file_path f = p \<and> deleted f) (files m)
           \<or> ps = [] \<and> \<not> is_file n \<and> n \<noteq> Directory
         then fail PayloadMismatch else validate_prefixes m ps)"

definition validate_destination :: "candidate_manifest \<Rightarrow> string \<Rightarrow> unit delivery" where
  "validate_destination m path = validate_prefixes m (path_ancestors path @ [path])"

definition git_preimage_matches ::
  "outside \<Rightarrow> string \<Rightarrow> string \<Rightarrow> string \<Rightarrow> content_digest \<Rightarrow> freeze_error + bool" where
  "git_preimage_matches W revision path object actual =
     (let V = base_view W in
      and_then (git_stdout_bounded V [''cat-file'', ''blob'', object] max_candidate_payload_bytes) (\<lambda>blob.
      if actual = sha_in W blob then Ok True
      else and_then (git V [''cat-file'', ''--filters'', ''--path='' @ path, revision @ '':'' @ path]) (\<lambda>filtered.
        Ok (actual = sha_in W filtered))))"

definition git_apply_check :: "outside \<Rightarrow> byte list \<Rightarrow> unit delivery" where
  "git_apply_check W diff = (\<lambda>d.
     (Returned (case apply_answer W (nodes d) diff of
        NotRun e \<Rightarrow> Err (FreezeIo e)
      | Exited success out err \<Rightarrow> if success then Ok () else Err (GitFailed (git_message err))), d))"

definition needs_preimage :: "candidate_file \<Rightarrow> bool" where
  "needs_preimage f \<longleftrightarrow> file_kind f \<in> {Modified, Deleted}"

definition mismatch_text :: string where
  "mismatch_text = ''candidate destination does not match its approved base''"

definition check_preimage ::
  "outside \<Rightarrow> candidate_manifest \<Rightarrow> string \<Rightarrow> candidate_file \<Rightarrow> unit delivery" where
  "check_preimage W m base f =
     (let path = file_path f in
      if needs_preimage f then
        bind (pure (git_tree_entry_at (base_view W) base path)) (\<lambda>(exec, object).
        bind (metadata path) (\<lambda>found.
        if found = None \<or> \<not> is_file (the found) then git_error mismatch_text
        else bind (digest_at W path) (\<lambda>digest.
          bind (pure (git_preimage_matches W base path object digest)) (\<lambda>same.
          if \<not> same then git_error mismatch_text
          else bind (executable_matches W path exec) (\<lambda>mode.
            if mode then yield () else git_error mismatch_text)))))
      else
        bind (metadata path) (\<lambda>found.
        if found \<noteq> None \<and> \<not> (found = Some Directory \<and> has_inside deleted m path)
        then git_error ''candidate destination already exists'' else yield ()))"

definition validate_preimage :: "outside \<Rightarrow> candidate_manifest \<Rightarrow> unit delivery" where
  "validate_preimage W m =
     bind (pure (ok_or (base_revision m) InvalidBaseRevision)) (\<lambda>base. for_each (check_preimage W m base) (files m))"

definition capture_file ::
  "outside \<Rightarrow> candidate_manifest \<Rightarrow> string \<Rightarrow> candidate_file \<Rightarrow> journal_file delivery" where
  "capture_file W m base f =
     (let path = file_path f in
      bind (validate_destination m path) (\<lambda>_.
      bind (if needs_preimage f then
          bind (pure (git_tree_entry_at (base_view W) base path)) (\<lambda>(exec, object).
          bind (digest_at W path) (\<lambda>digest.
          bind (pure (git_preimage_matches W base path object digest)) (\<lambda>same.
          if same then yield (Some (digest, exec)) else git_error mismatch_text)))
        else yield None) (\<lambda>original.
      yield \<lparr>approved_digest = file_digest f, approved_executable = executable f,
        original_digest = map_option fst original,
        original_directory = (original = None \<and> has_inside deleted m path),
        original_executable = (case original of None \<Rightarrow> False | Some (_, exec) \<Rightarrow> exec),
        journal_path = path\<rparr>)))"

definition capture_journal ::
  "outside \<Rightarrow> byte list option \<Rightarrow> candidate_manifest \<Rightarrow> delivery_journal delivery" where
  "capture_journal W entropy m =
     (case entropy of
        None \<Rightarrow> git_error ''operating-system entropy is unavailable''
      | Some bytes \<Rightarrow>
          bind (pure (ok_or (base_revision m) InvalidBaseRevision)) (\<lambda>base.
          bind (for_collect (capture_file W m base) (files m)) (\<lambda>saved.
          yield \<lparr>journal_candidate = manifest_id m, journal_files = saved,
            nonce = concat (map byte_hex bytes)\<rparr>)))"

section \<open>What is on disk\<close>

definition matches_snapshot :: "outside \<Rightarrow> string \<Rightarrow> journal_file \<Rightarrow> bool delivery" where
  "matches_snapshot W path saved =
     (case original_digest saved of
        None \<Rightarrow> yield False
      | Some digest \<Rightarrow> handle (digest_at W path) (\<lambda>r.
          if r = Ok digest then executable_matches W path (original_executable saved) else yield False))"

definition matches_approved :: "outside \<Rightarrow> string \<Rightarrow> journal_file \<Rightarrow> bool delivery" where
  "matches_approved W path saved =
     (case approved_digest saved of
        None \<Rightarrow> yield False
      | Some digest \<Rightarrow>
          bind (metadata path) (\<lambda>found.
          if found = None \<or> \<not> is_file (the found) then yield False
          else bind (digest_at W path) (\<lambda>actual.
            if actual = digest then executable_matches W path (approved_executable saved) else yield False)))"

text \<open>Of several payloads for one path a map keeps the last and a search finds the first.\<close>

definition payload_at :: "file_payload list \<Rightarrow> string \<Rightarrow> file_payload option" where
  "payload_at exact path = find (\<lambda>p. payload_path p = path) (rev exact)"

definition first_payload :: "file_payload list \<Rightarrow> string \<Rightarrow> file_payload option" where
  "first_payload exact path = find (\<lambda>p. payload_path p = path) exact"

definition file_promoted ::
  "outside \<Rightarrow> candidate_manifest \<Rightarrow> file_payload list \<Rightarrow> candidate_file \<Rightarrow> bool delivery" where
  "file_promoted W m exact f =
     (let path = file_path f in
      bind (metadata path) (\<lambda>found.
      if deleted f then
        yield (found = None \<or> found = Some Directory \<and> has_inside (\<lambda>g. \<not> deleted g) m path)
      else if found = None \<or> \<not> is_file (the found) then yield False
      else bind (digest_at W path) (\<lambda>digest.
        case file_digest f of None \<Rightarrow> panic | Some approved \<Rightarrow>
        if digest \<noteq> approved then yield False
        else bind (pure (ok_or (payload_at exact path) PayloadMismatch)) (\<lambda>p.
          executable_matches W path (payload_executable p)))))"

definition verify_promoted ::
  "outside \<Rightarrow> candidate_manifest \<Rightarrow> file_payload list \<Rightarrow> bool delivery" where
  "verify_promoted W m exact = for_all (file_promoted W m exact) (files m)"


section \<open>Installing\<close>

definition indexed :: "'a list \<Rightarrow> (nat \<times> 'a) list" where
  "indexed xs = zip [0..<length xs] xs"

definition stage_file ::
  "outside \<Rightarrow> candidate_manifest \<Rightarrow> file_payload list \<Rightarrow> delivery_journal \<Rightarrow> nat \<times> candidate_file \<Rightarrow> unit delivery" where
  "stage_file W m exact J = (\<lambda>(i, f).
     bind (validate_destination m (file_path f)) (\<lambda>_.
     case payload_at exact (file_path f) of
       None \<Rightarrow> yield ()
     | Some p \<Rightarrow>
         let incoming = adjacent_path W J ''incoming'' i in
         bind (write_new_file W incoming (payload_content p)) (\<lambda>_.
         bind (pure (ok_or (first_payload exact (file_path f)) PayloadMismatch)) (\<lambda>first.
         set_executable W incoming (payload_executable first)))))"

text \<open>What is there moves aside: a file to its backup, an emptied directory away.\<close>

definition move_to_backup ::
  "outside \<Rightarrow> delivery_journal \<Rightarrow> nat \<Rightarrow> string \<Rightarrow> journal_file \<Rightarrow> unit delivery" where
  "move_to_backup W J i path saved =
     (let backup = adjacent_path W J ''backup'' i in
      bind (metadata backup) (\<lambda>old.
      if old \<noteq> None then git_error ''candidate delivery backup collision''
      else bind (os (fs_rename (in_tree path) (in_tree backup))) (\<lambda>_.
        bind (matches_snapshot W backup saved) (\<lambda>same.
        if same then sync
        else bind (metadata path) (\<lambda>again.
          bind (if again = None then os (fs_rename (in_tree backup) (in_tree path)) else yield ()) (\<lambda>_.
          git_error ''candidate destination changed during promotion''))))))"

definition remove_emptied :: "string \<Rightarrow> journal_file \<Rightarrow> unit delivery" where
  "remove_emptied path saved =
     (if \<not> original_directory saved
      then git_error ''candidate destination was concurrently recreated as a directory''
      else bind (os (fs_has_entries (in_tree path))) (\<lambda>full.
        if full then git_error ''candidate destination directory changed during promotion''
        else bind (os (fs_remove_dir (in_tree path))) (\<lambda>_. sync)))"

definition set_aside ::
  "outside \<Rightarrow> candidate_manifest \<Rightarrow> delivery_journal \<Rightarrow> nat \<times> candidate_file \<times> journal_file \<Rightarrow> unit delivery" where
  "set_aside W m J = (\<lambda>(i, f, saved).
     let path = file_path f in
     bind (validate_destination m path) (\<lambda>_.
     bind (metadata path) (\<lambda>found.
     if found \<noteq> None \<and> is_file (the found) then move_to_backup W J i path saved
     else if found = Some Directory then remove_emptied path saved
     else yield ())))"

text \<open>The parents of a new file, innermost first; each has to have its own parent already.\<close>

definition create_missing_parent :: "string list \<Rightarrow> string \<Rightarrow> unit delivery" where
  "create_missing_parent deleted_paths directory =
     (if directory \<in> set deleted_paths then yield ()
      else bind (metadata directory) (\<lambda>found.
        if found = None then os (fs_create_dir (in_tree directory)) else yield ()))"

definition create_missing_parents :: "string list \<Rightarrow> candidate_file \<Rightarrow> unit delivery" where
  "create_missing_parents deleted_paths f =
     (if deleted f then yield ()
      else for_each (create_missing_parent deleted_paths) (rev (path_ancestors (file_path f))))"

text \<open>The new file is linked to its place, which has to be free.\<close>

definition link_incoming ::
  "outside \<Rightarrow> delivery_journal \<Rightarrow> nat \<Rightarrow> string \<Rightarrow> unit delivery" where
  "link_incoming W J i path =
     (let incoming = adjacent_path W J ''incoming'' i in
      handle (io (fs_hard_link (in_tree incoming) (in_tree path))) (\<lambda>r. case r of
        Inr _ \<Rightarrow> failing_with (\<lambda>e. GitFailed (''candidate incoming cleanup failed for '' @ quoted W path @ '': ''
          @ io_text W e)) (io (fs_remove_file (in_tree incoming)))
      | Inl e \<Rightarrow>
          if e = AlreadyExists then git_error ''candidate destination was concurrently recreated''
          else git_error (''candidate no-clobber install failed for '' @ quoted W path @ '': '' @ io_text W e)))"

definition install_file ::
  "outside \<Rightarrow> candidate_manifest \<Rightarrow> delivery_journal \<Rightarrow> nat \<times> candidate_file \<Rightarrow> unit delivery" where
  "install_file W m J = (\<lambda>(i, f).
     let path = file_path f in
     if deleted f then yield ()
     else bind (create_parents path) (\<lambda>_.
       bind (validate_destination m path) (\<lambda>_.
       bind (link_incoming W J i path) (\<lambda>_. sync))))"

definition deepest_first :: "(nat \<times> candidate_file \<times> journal_file) list \<Rightarrow> (nat \<times> candidate_file \<times> journal_file) list" where
  "deepest_first xs = sort_key (\<lambda>(i, f, saved). - int (path_depth (file_path f))) xs"

definition install_files ::
  "outside \<Rightarrow> candidate_manifest \<Rightarrow> file_payload list \<Rightarrow> delivery_journal \<Rightarrow> unit delivery" where
  "install_files W m exact J =
     bind (for_each (set_aside W m J) (deepest_first (indexed (zip (files m) (journal_files J))))) (\<lambda>_.
     bind (for_each (create_missing_parents (map file_path (filter deleted (files m)))) (files m)) (\<lambda>_.
     bind (for_each (install_file W m J) (indexed (files m))) (\<lambda>_.
     bind (verify_promoted W m exact) (\<lambda>done.
     if done then yield () else fail PayloadMismatch))))"

section \<open>Rolling back\<close>

definition has_approved_inside :: "delivery_journal \<Rightarrow> string \<Rightarrow> bool" where
  "has_approved_inside J path \<longleftrightarrow>
     list_ex (\<lambda>g. approved_digest g \<noteq> None \<and> inside path (journal_path g)) (journal_files J)"

definition preserve_concurrent :: "outside \<Rightarrow> delivery_journal \<Rightarrow> nat \<Rightarrow> string \<Rightarrow> unit delivery" where
  "preserve_concurrent W J i target =
     bind (failing_with (\<lambda>e. GitFailed (''concurrent candidate destination could not be preserved: '' @ io_text W e))
       (io (fs_hard_link (in_tree target) (in_tree (adjacent_path W J ''concurrent'' i))))) (\<lambda>_.
     os (fs_remove_file (in_tree target)))"

text \<open>A file at a destination is the original, or the approved one, or somebody else's.\<close>

definition settle_file :: "outside \<Rightarrow> delivery_journal \<Rightarrow> nat \<Rightarrow> journal_file \<Rightarrow> unit delivery" where
  "settle_file W J i saved =
     (let path = journal_path saved in
      bind (matches_snapshot W path saved) (\<lambda>original.
      if original then yield ()
      else bind (matches_approved W path saved) (\<lambda>ours.
        if ours then os (fs_remove_file (in_tree path)) else preserve_concurrent W J i path)))"

definition settle_directory :: "delivery_journal \<Rightarrow> journal_file \<Rightarrow> unit delivery" where
  "settle_directory J saved =
     (let path = journal_path saved in
      if has_approved_inside J path then
        handle (io (fs_remove_dir (in_tree path))) (\<lambda>r. case r of
          Inr _ \<Rightarrow> yield () | Inl e \<Rightarrow> if e = DirectoryNotEmpty then yield () else fail (FreezeIo e))
      else git_error ''concurrent candidate directory was preserved'')"

definition clear_destination ::
  "outside \<Rightarrow> delivery_journal \<Rightarrow> nat \<times> journal_file \<Rightarrow> unit delivery" where
  "clear_destination W J = (\<lambda>(i, saved).
     bind (metadata (journal_path saved)) (\<lambda>found.
     bind (if found \<noteq> None \<and> is_file (the found) then settle_file W J i saved
       else if found = Some Directory \<and> \<not> original_directory saved then settle_directory J saved
       else yield ()) (\<lambda>_.
     remove_file_if_exists W (adjacent_path W J ''incoming'' i))))"

definition remove_new_directory :: "delivery_journal \<Rightarrow> nat \<times> journal_file \<Rightarrow> unit delivery" where
  "remove_new_directory J = (\<lambda>(i, saved).
     let path = journal_path saved in
     if original_directory saved \<or> \<not> has_approved_inside J path then yield ()
     else bind (metadata path) (\<lambda>found.
       if found = Some Directory then os (fs_remove_dir (in_tree path)) else yield ()))"

definition restore_backup :: "outside \<Rightarrow> delivery_journal \<Rightarrow> nat \<Rightarrow> journal_file \<Rightarrow> unit delivery" where
  "restore_backup W J i saved =
     (let path = journal_path saved; backup = adjacent_path W J ''backup'' i in
      bind (metadata path) (\<lambda>found.
      bind (if found = None then
          bind (create_parents path) (\<lambda>_. os (fs_hard_link (in_tree backup) (in_tree path)))
        else bind (matches_snapshot W path saved) (\<lambda>original.
          if original then yield ()
          else git_error ''candidate destination was concurrently recreated during rollback'')) (\<lambda>_.
      os (fs_remove_file (in_tree backup)))))"

text \<open>A backup that is no longer the original is kept, as the file if there is none.\<close>

definition keep_changed_backup :: "outside \<Rightarrow> delivery_journal \<Rightarrow> nat \<Rightarrow> journal_file \<Rightarrow> unit delivery" where
  "keep_changed_backup W J i saved =
     (let path = journal_path saved; backup = adjacent_path W J ''backup'' i in
      bind (metadata path) (\<lambda>found.
      bind (if found = None then
          bind (create_parents path) (\<lambda>_. bind (os (fs_hard_link (in_tree backup) (in_tree path))) (\<lambda>_. sync))
        else yield ()) (\<lambda>_.
      git_error ''candidate delivery backup no longer matches its journal'')))"

definition restore_directory :: "string \<Rightarrow> unit delivery" where
  "restore_directory path =
     bind (metadata path) (\<lambda>found.
     if found = None then failing_with FreezeIo (io_partly (fs_create_dir_all (in_tree path))
       (partial_create_dir_all (in_tree path))) else yield ())"

definition restore_file ::
  "outside \<Rightarrow> delivery_journal \<Rightarrow> nat \<times> journal_file \<Rightarrow> unit delivery" where
  "restore_file W J = (\<lambda>(i, saved).
     let backup = adjacent_path W J ''backup'' i in
     if original_directory saved then restore_directory (journal_path saved)
     else bind (metadata backup) (\<lambda>old.
       if old = None then yield ()
       else bind (matches_snapshot W backup saved) (\<lambda>same.
         if same then restore_backup W J i saved else keep_changed_backup W J i saved)))"

definition shallowest_first :: "(nat \<times> journal_file) list \<Rightarrow> (nat \<times> journal_file) list" where
  "shallowest_first xs = sort_key (\<lambda>(i, saved). path_depth (journal_path saved)) xs"

definition rollback :: "outside \<Rightarrow> delivery_journal \<Rightarrow> place \<Rightarrow> place \<Rightarrow> unit delivery" where
  "rollback W J journal committed =
     (let indices = shallowest_first (indexed (journal_files J)) in
      bind (for_each (clear_destination W J) indices) (\<lambda>_.
      bind (for_each (remove_new_directory J) (rev indices)) (\<lambda>_.
      bind (for_each (restore_file W J) indices) (\<lambda>_.
      bind sync (\<lambda>_.
      bind (remove_if_exists journal) (\<lambda>_. remove_if_exists committed))))))"

definition apply_staged ::
  "outside \<Rightarrow> candidate_manifest \<Rightarrow> file_payload list \<Rightarrow> delivery_journal \<Rightarrow> place \<Rightarrow> place \<Rightarrow> unit delivery" where
  "apply_staged W m exact J journal committed =
     bind (for_each (stage_file W m exact J) (indexed (files m))) (\<lambda>_.
     handle (install_files W m exact J) (\<lambda>r. case r of
       Inr _ \<Rightarrow> yield ()
     | Inl e \<Rightarrow>
         bind (failing_with (\<lambda>e'. GitFailed (''candidate delivery failed ('' @ error_text W e
             @ ''); rollback failed ('' @ error_text W e' @ '')'')) (rollback W J journal committed)) (\<lambda>_.
         fail e)))"

section \<open>Cleaning up and recovering\<close>

definition cleanup_file :: "outside \<Rightarrow> delivery_journal \<Rightarrow> nat \<times> journal_file \<Rightarrow> unit delivery" where
  "cleanup_file W J = (\<lambda>(i, saved).
     bind (remove_file_if_exists W (adjacent_path W J ''backup'' i)) (\<lambda>_.
     remove_file_if_exists W (adjacent_path W J ''incoming'' i)))"

definition cleanup :: "outside \<Rightarrow> delivery_journal \<Rightarrow> place \<Rightarrow> place \<Rightarrow> unit delivery" where
  "cleanup W J journal committed =
     bind (for_each (cleanup_file W J) (indexed (journal_files J))) (\<lambda>_.
     bind (remove_if_exists journal) (\<lambda>_.
     bind sync (\<lambda>_.
     bind (remove_if_exists committed) (\<lambda>_. sync))))"

definition demand_promoted ::
  "outside \<Rightarrow> candidate_manifest \<Rightarrow> file_payload list \<Rightarrow> unit delivery" where
  "demand_promoted W m exact =
     bind (verify_promoted W m exact) (\<lambda>done.
     if done then yield () else git_error ''committed candidate delivery no longer verifies'')"

definition recover_bound ::
  "outside \<Rightarrow> candidate_manifest \<Rightarrow> file_payload list \<Rightarrow> place \<Rightarrow> place \<Rightarrow> content_digest option \<Rightarrow> unit delivery" where
  "recover_bound W m exact journal committed expected =
     bind (exists_at journal) (\<lambda>pending.
     if \<not> pending then
       bind (exists_at committed) (\<lambda>marked.
       if marked then bind (demand_promoted W m exact) (\<lambda>_. remove_if_exists committed) else yield ())
     else
       bind (os (fs_read journal)) (\<lambda>encoded.
       bind (require (expected = Some (sha_in W encoded)) PayloadMismatch) (\<lambda>_.
       bind (pure (map_err SerializationFailed (read_journal W encoded))) (\<lambda>J.
       bind (require (journal_matches_manifest J m) PayloadMismatch) (\<lambda>_.
       bind (exists_at committed) (\<lambda>marked.
       if marked then bind (demand_promoted W m exact) (\<lambda>_. cleanup W J journal committed)
       else rollback W J journal committed))))))"

definition recover_legacy ::
  "outside \<Rightarrow> candidate_manifest \<Rightarrow> file_payload list \<Rightarrow> content_digest option \<Rightarrow> place \<Rightarrow> place \<Rightarrow> unit delivery" where
  "recover_legacy W m exact expected journal committed =
     (let c = manifest_id m; old_journal = journal_at W legacy_directory c; old_committed = committed_at W legacy_directory c in
      bind (exists_at old_journal) (\<lambda>a.
      bind (if a then yield True else exists_at old_committed) (\<lambda>legacy.
      if \<not> legacy then yield ()
      else bind (exists_at journal) (\<lambda>b.
        bind (if b then yield True else exists_at committed) (\<lambda>current.
        if current then git_error ''legacy and current candidate delivery journals coexist''
        else recover_bound W m exact old_journal old_committed expected)))))"

section \<open>Delivering\<close>

type_synonym binding = "content_digest option \<Rightarrow> content_digest \<Rightarrow> unit delivery"

definition prepare_directory :: "outside \<Rightarrow> unit delivery" where
  "prepare_directory W =
     bind (pure (git_text (base_view W) [''rev-parse'', ''--absolute-git-dir''])) (\<lambda>_.
     bind (failing_with FreezeIo (io_partly (fs_create_dir_all (in_git journal_directory))
       (partial_create_dir_all (in_git journal_directory)))) (\<lambda>_.
     handle (io (fs_create_new (in_git (journal_directory @ ''/promotion.lock'')))) (\<lambda>r. case r of
       Inr _ \<Rightarrow> yield () | Inl e \<Rightarrow> if e = AlreadyExists then yield () else fail (FreezeIo e))))"

definition apply_payload ::
  "outside \<Rightarrow> byte list option \<Rightarrow> candidate_manifest \<Rightarrow> byte list \<Rightarrow> file_payload list \<Rightarrow> content_digest option \<Rightarrow>
     binding \<Rightarrow> content_digest delivery" where
  "apply_payload W entropy m diff exact expected binding =
     (let journal = journal_at W journal_directory (manifest_id m);
          committed = committed_at W journal_directory (manifest_id m) in
      bind (prepare_directory W) (\<lambda>_.
      bind (recover_legacy W m exact expected journal committed) (\<lambda>_.
      bind (recover_bound W m exact journal committed expected) (\<lambda>_.
      bind (verify_promoted W m exact) (\<lambda>done.
      if done then
        bind (pure (ok_or (case expected of Some d \<Rightarrow> Some d | None \<Rightarrow> delivery_payload_digest m) PayloadMismatch)) (\<lambda>d.
        bind (binding expected d) (\<lambda>_. yield d))
      else
        bind (git_apply_check W diff) (\<lambda>_.
        bind (validate_preimage W m) (\<lambda>_.
        bind (capture_journal W entropy m) (\<lambda>J.
        bind (binding expected (journal_digest W J)) (\<lambda>_.
        bind (write_journal W journal J) (\<lambda>_.
        bind (git_apply_check W diff) (\<lambda>_.
        bind (apply_staged W m exact J journal committed) (\<lambda>_.
        bind (handle (write_committed_marker W committed) (\<lambda>r. case r of
          Inr _ \<Rightarrow> yield () | Inl e \<Rightarrow> bind (rollback W J journal committed) (\<lambda>_. fail e))) (\<lambda>_.
        bind (cleanup W J journal committed) (\<lambda>_.
        yield (journal_digest W J)))))))))))))))"

definition promote_bound ::
  "outside \<Rightarrow> byte list option \<Rightarrow> string \<Rightarrow> candidate_manifest \<Rightarrow> byte list \<Rightarrow> file_payload list \<Rightarrow>
     content_digest option \<Rightarrow> binding \<Rightarrow> (string list \<times> content_digest) delivery" where
  "promote_bound W entropy project m diff exact expected binding =
     (let V = base_view W in
      bind (pure (canonicalize V project)) (\<lambda>root.
      bind (pure (and_then (git_text V [''rev-parse'', ''--show-toplevel'']) (canonicalize V))) (\<lambda>discovered.
      bind (require (discovered = root) InvalidRepository) (\<lambda>_.
      bind (pure (ok_or (base_revision m) InvalidBaseRevision)) (\<lambda>base.
      bind (pure (git_text V [''rev-parse'', ''HEAD''])) (\<lambda>head.
      bind (require (head = base) InvalidBaseRevision) (\<lambda>_.
      bind (pure (validate_platform_modes (platform_of W) V m)) (\<lambda>_.
      case validate_payload (platform_of W) m diff exact of
        None \<Rightarrow> panic
      | Some r \<Rightarrow>
          bind (pure r) (\<lambda>_.
          bind (apply_payload W entropy m diff exact expected binding) (\<lambda>d.
          yield (map file_path (files m), d)))))))))))"

definition delivery_recovery_required :: "outside \<Rightarrow> candidate_id \<Rightarrow> bool delivery" where
  "delivery_recovery_required W c =
     bind (pure (git_text (base_view W) [''rev-parse'', ''--absolute-git-dir''])) (\<lambda>_.
     bind (for_all (\<lambda>x. bind (try_exists_at x) (\<lambda>found. yield (\<not> found)))
       [journal_at W journal_directory c, committed_at W journal_directory c,
        journal_at W legacy_directory c, committed_at W legacy_directory c]) (\<lambda>none. yield (\<not> none)))"

text \<open>
  The daemon binds the digest of the journal to the reservation of the delivery (\<open>lifecycle.rs\<close>), and
  gives the digest bound so far to the next attempt.
\<close>

definition bind_reservation ::
  "outside \<Rightarrow> workflow_id \<Rightarrow> candidate_id \<Rightarrow> content_digest \<Rightarrow> binding" where
  "bind_reservation W w c digest expected journal = (\<lambda>d.
     perform (\<lambda>d. case bind_delivery_journal (database d) w c digest expected journal of
         (s, Inl e) \<Rightarrow> Err (GitFailed (''candidate delivery reservation binding failed: '' @ store_text W e))
       | (s, Inr _) \<Rightarrow> Ok ((), d\<lparr>database := s\<rparr>))
       (\<lambda>e. GitFailed (''candidate delivery reservation binding failed: '' @ io_text W e))
       (\<lambda>n t. t) (future d) d)"

definition deliver ::
  "outside \<Rightarrow> byte list option \<Rightarrow> string \<Rightarrow> workflow_id \<Rightarrow> candidate_manifest \<Rightarrow> content_digest \<Rightarrow> byte list \<Rightarrow>
     file_payload list \<Rightarrow> (string list \<times> content_digest) delivery" where
  "deliver W entropy project w m digest diff exact = (\<lambda>d.
     promote_bound W entropy project m diff exact (delivery_journal_digest (database d) w (manifest_id m))
       (bind_reservation W w (manifest_id m) digest) d)"

end
