(* ===== verification/Delivery_Steps.thy ===== *)
theory Delivery_Steps
  imports Delivery
begin

text \<open>
  Rules for actions on the disk, in the style of a Hoare logic with three ends: a result, an error, and a
  power cut.  The events are calm when they are nothing but power cuts.  Assertions speak of the tree
  and of the database, never of what is still to come.
\<close>

named_theorems exact_reads \<open>what the reading operations return\<close>

section \<open>Triples\<close>

definition calm :: "bool \<Rightarrow> event list \<Rightarrow> bool" where
  "calm cuts es \<longleftrightarrow> (\<forall>e \<in> set es. e = Proceed \<or> cuts \<and> (\<exists>n. e = Crashes n))"

type_synonym assertion = "tree \<Rightarrow> store \<Rightarrow> bool"

definition ends ::
  "('a \<Rightarrow> assertion) \<Rightarrow> ('e \<Rightarrow> assertion) \<Rightarrow> assertion \<Rightarrow> ('e, 'a) outcome \<times> disk \<Rightarrow> bool" where
  "ends Q E C r \<longleftrightarrow> (case fst r of
     Returned (Inr a) \<Rightarrow> Q a (nodes (snd r)) (database (snd r))
   | Returned (Inl e) \<Rightarrow> E e (nodes (snd r)) (database (snd r))
   | Crashed \<Rightarrow> C (nodes (snd r)) (database (snd r))
   | Panicking \<Rightarrow> False)"

definition triple ::
  "bool \<Rightarrow> assertion \<Rightarrow> ('e, 'a) action \<Rightarrow> ('a \<Rightarrow> assertion) \<Rightarrow> ('e \<Rightarrow> assertion) \<Rightarrow> assertion \<Rightarrow> bool" where
  "triple cuts P m Q E C \<longleftrightarrow>
     (\<forall>d. P (nodes d) (database d) \<and> calm cuts (future d) \<longrightarrow> calm cuts (future (snd (m d))) \<and> ends Q E C (m d))"

lemma tripleI:
  assumes "\<And>d. P (nodes d) (database d) \<Longrightarrow> calm cuts (future d) \<Longrightarrow>
    calm cuts (future (snd (m d))) \<and> ends Q E C (m d)"
  shows "triple cuts P m Q E C"
  using assms by (simp add: triple_def)

lemma tripleD:
  "triple cuts P m Q E C \<Longrightarrow> P (nodes d) (database d) \<Longrightarrow> calm cuts (future d) \<Longrightarrow>
   calm cuts (future (snd (m d))) \<and> ends Q E C (m d)"
  by (simp add: triple_def)

lemma triple_weaken:
  assumes "triple cuts P m Q E C" and "\<And>t s. P' t s \<Longrightarrow> P t s" and "\<And>a t s. Q a t s \<Longrightarrow> Q' a t s"
    and "\<And>e t s. E e t s \<Longrightarrow> E' e t s" and "\<And>t s. C t s \<Longrightarrow> C' t s"
  shows "triple cuts P' m Q' E' C'"
  using assms
  by (fastforce simp: triple_def ends_def split: outcome.splits sum.splits)

lemma triple_pre:
  "triple cuts P m Q E C \<Longrightarrow> (\<And>t s. P' t s \<Longrightarrow> P t s) \<Longrightarrow> triple cuts P' m Q E C"
  by (rule triple_weaken)

lemma triple_assuming:
  "(\<And>t s. P t s \<Longrightarrow> X) \<Longrightarrow> (X \<Longrightarrow> triple cuts P m Q E C) \<Longrightarrow> triple cuts P m Q E C"
  by (auto simp: triple_def)

lemma triple_False: "(\<And>t s. P t s \<Longrightarrow> False) \<Longrightarrow> triple cuts P m Q E C"
  by (auto simp: triple_def)

lemma triple_yield: "(\<And>t s. P t s \<Longrightarrow> Q a t s) \<Longrightarrow> triple cuts P (yield a) Q E C"
  by (simp add: triple_def yield_def ends_def)

lemma triple_fail: "(\<And>t s. P t s \<Longrightarrow> E e t s) \<Longrightarrow> triple cuts P (fail e) Q E C"
  by (simp add: triple_def fail_def ends_def)

lemma triple_handle:
  assumes "triple cuts P m R F C" and "\<And>a. triple cuts (R a) (h (Ok a)) Q E C"
    and "\<And>e. triple cuts (F e) (h (Err e)) Q E C"
  shows "triple cuts P (handle m h) Q E C"
proof (rule tripleI)
  fix d :: disk
  assume "P (nodes d) (database d)" "calm cuts (future d)"
  from tripleD [OF assms(1) this]
  have calm: "calm cuts (future (snd (m d)))" and ends: "ends R F C (m d)" by simp_all
  show "calm cuts (future (snd (handle m h d))) \<and> ends Q E C (handle m h d)"
  proof (cases "fst (m d)")
    case (Returned r)
    then have "handle m h d = h r (snd (m d))"
      by (cases "m d") (simp add: handle_def)
    with calm ends Returned tripleD [OF assms(2)] tripleD [OF assms(3)] show ?thesis
      by (cases r) (simp_all add: ends_def)
  qed (use calm ends in \<open>cases "m d"; simp add: handle_def ends_def\<close>)+
qed

lemma triple_bind:
  assumes "triple cuts P m R E C" and "\<And>a. triple cuts (R a) (f a) Q E C"
  shows "triple cuts P (bind m f) Q E C"
  unfolding bind_def using assms(1) by (rule triple_handle) (use assms(2) in \<open>auto intro: triple_fail\<close>)

lemma triple_failing_with:
  assumes "triple cuts P m Q (\<lambda>e. E (f e)) C"
  shows "triple cuts P (failing_with f m) Q E C"
  unfolding failing_with_def using assms by (rule triple_handle) (auto intro: triple_fail triple_yield)

lemma triple_pure:
  assumes "\<And>a t s. P t s \<Longrightarrow> r = Ok a \<Longrightarrow> Q a t s" and "\<And>e t s. P t s \<Longrightarrow> r = Err e \<Longrightarrow> E e t s"
  shows "triple cuts P (pure r) Q E C"
  using assms by (cases r) (simp_all add: triple_def pure_def ends_def)

lemma triple_require:
  assumes "\<And>t s. P t s \<Longrightarrow> b \<Longrightarrow> Q () t s" and "\<And>t s. P t s \<Longrightarrow> \<not> b \<Longrightarrow> E e t s"
  shows "triple cuts P (require b e) Q E C"
  using assms by (auto simp: require_def intro: triple_yield triple_fail)

lemma triple_perform:
  assumes "\<And>(d :: disk) a d'. P (nodes d) (database d) \<Longrightarrow> run d = Ok (a, d') \<Longrightarrow>
      Q a (nodes d') (database d') \<and> future d' = future d"
    and "\<And>d e. P (nodes d) (database d) \<Longrightarrow> run d = Err e \<Longrightarrow> E e (nodes d) (database d)"
    and "\<And>t s n. cuts \<Longrightarrow> P t s \<Longrightarrow> C (partial n t) s"
  shows "triple cuts P (\<lambda>d. perform run failing partial (future d) d) Q E C"
proof (rule tripleI)
  fix d :: disk
  assume P: "P (nodes d) (database d)" and calm: "calm cuts (future d)"
  have attempt: "calm cuts (future (snd (attempt run (d\<lparr>future := es\<rparr>))))
      \<and> ends Q E C (attempt run (d\<lparr>future := es\<rparr>))" if "calm cuts es" for es
    using P assms(1) [of "d\<lparr>future := es\<rparr>"] assms(2) [of "d\<lparr>future := es\<rparr>"] that
    by (auto simp: attempt_def ends_def split: sum.splits prod.splits)
  show "calm cuts (future (snd (perform run failing partial (future d) d)))
      \<and> ends Q E C (perform run failing partial (future d) d)"
  proof (cases "future d")
    case Nil
    then show ?thesis using attempt [of "[]"] by (simp add: calm_def)
  next
    case (Cons x es)
    with calm have x: "x = Proceed \<or> cuts \<and> (\<exists>n. x = Crashes n)" and es: "calm cuts es"
      by (auto simp: calm_def)
    from x show ?thesis
    proof
      assume "x = Proceed"
      with Cons attempt [OF es] show ?thesis by simp
    next
      assume "cuts \<and> (\<exists>n. x = Crashes n)"
      then obtain n where "cuts" "x = Crashes n" by blast
      with Cons es P assms(3) show ?thesis by (simp add: ends_def)
    qed
  qed
qed

lemma triple_io_partly:
  assumes "\<And>t s. P t s \<Longrightarrow> (case f t of Inr (a, t') \<Rightarrow> Q a t' s | Inl e \<Rightarrow> E e t s)"
    and "\<And>t s n. cuts \<Longrightarrow> P t s \<Longrightarrow> C (partial n t) s"
  shows "triple cuts P (io_partly f partial) Q E C"
  unfolding io_partly_def
proof (rule triple_perform)
  fix d a and d' :: disk
  assume "P (nodes d) (database d)" and "on_tree f d = Ok (a, d')"
  with assms(1) [of "nodes d" "database d"]
  show "Q a (nodes d') (database d') \<and> future d' = future d"
    by (auto simp: on_tree_def split: sum.splits prod.splits)
next
  fix d :: disk and e
  assume "P (nodes d) (database d)" and "on_tree f d = Err e"
  with assms(1) [of "nodes d" "database d"] show "E e (nodes d) (database d)"
    by (auto simp: on_tree_def split: sum.splits prod.splits)
qed (use assms(2) in blast)

lemma triple_io:
  assumes "\<And>t s. P t s \<Longrightarrow> (case f t of Inr (a, t') \<Rightarrow> Q a t' s | Inl e \<Rightarrow> E e t s)"
    and "\<And>t s. cuts \<Longrightarrow> P t s \<Longrightarrow> C t s"
  shows "triple cuts P (io f) Q E C"
  unfolding io_def using assms by (rule triple_io_partly)

lemma triple_os:
  assumes "\<And>t s. P t s \<Longrightarrow> (case f t of Inr (a, t') \<Rightarrow> Q a t' s | Inl e \<Rightarrow> E (FreezeIo e) t s)"
    and "\<And>t s. cuts \<Longrightarrow> P t s \<Longrightarrow> C t s"
  shows "triple cuts P (os f) Q E C"
  unfolding os_def by (rule triple_failing_with, rule triple_io) (use assms in auto)

lemma triple_for_each:
  assumes "\<And>xs x ys. list = xs @ x # ys \<Longrightarrow> triple cuts (I xs) (f x) (\<lambda>_. I (xs @ [x])) E C"
  shows "triple cuts (I []) (for_each f list) (\<lambda>_. I list) E C"
proof -
  have "triple cuts (I xs) (for_each f ys) (\<lambda>_. I list) E C" if "list = xs @ ys" for xs ys
    using that
  proof (induction ys arbitrary: xs)
    case (Cons y ys)
    then show ?case
      by (auto intro!: triple_bind [OF assms] Cons.IH)
  qed (simp add: triple_yield)
  from this [of "[]" list] show ?thesis by simp
qed

text \<open>A loop in which every round keeps one assertion.\<close>

lemma triple_for_each_const:
  assumes "\<And>x. x \<in> set list \<Longrightarrow> triple cuts I (f x) (\<lambda>_. I) E C"
  shows "triple cuts I (for_each f list) (\<lambda>_. I) E C"
  using triple_for_each [of list cuts "\<lambda>_. I" f E C] assms by simp

section \<open>Reading\<close>

text \<open>An action that only reads, and returns what \<open>g\<close> says.\<close>

definition reads :: "('e, 'a) action \<Rightarrow> (tree \<Rightarrow> 'e + 'a) \<Rightarrow> bool" where
  "reads m g \<longleftrightarrow> (\<forall>cuts P. triple cuts P m (\<lambda>a t s. P t s \<and> g t = Ok a) (\<lambda>e t s. P t s \<and> g t = Err e) P)"

lemma reads_triple:
  assumes "reads m g" and "\<And>t s a. P t s \<Longrightarrow> g t = Ok a \<Longrightarrow> Q a t s"
    and "\<And>t s e. P t s \<Longrightarrow> g t = Err e \<Longrightarrow> E e t s" and "\<And>t s. P t s \<Longrightarrow> C t s"
  shows "triple cuts P m Q E C"
proof (rule triple_weaken [where P = P and C = P])
  show "triple cuts P m (\<lambda>a t s. P t s \<and> g t = Ok a) (\<lambda>e t s. P t s \<and> g t = Err e) P"
    using assms(1) by (simp add: reads_def)
qed (use assms in auto)

lemma reads_bind_triple:
  assumes "reads m (\<lambda>t. Ok (g t))" and "\<And>a. triple cuts (\<lambda>t s. P t s \<and> g t = a) (f a) Q E C"
    and "\<And>t s. P t s \<Longrightarrow> C t s"
  shows "triple cuts P (bind m f) Q E C"
  by (rule triple_bind [OF reads_triple [OF assms(1)] assms(2)]) (use assms(3) in auto)

lemma reads_io:
  assumes "\<And>t. f t = (case g t of Inl e \<Rightarrow> Err e | Inr a \<Rightarrow> Ok (a, t))"
  shows "reads (io f) g"
  unfolding reads_def by (auto simp: assms intro!: triple_io split: sum.splits)

lemma reads_yield: "reads (yield a) (\<lambda>t. Ok a)"
  by (simp add: reads_def triple_yield)

lemma reads_fail: "reads (fail e) (\<lambda>t. Err e)"
  by (simp add: reads_def triple_fail)

lemma reads_pure: "reads (pure r) (\<lambda>t. r)"
  by (auto simp: reads_def intro: triple_pure)

lemma reads_handle:
  assumes "reads m g" and "\<And>r. reads (h r) (k r)"
  shows "reads (handle m h) (\<lambda>t. k (g t) t)"
  unfolding reads_def
proof (intro allI triple_handle)
  fix cuts P
  show "triple cuts P m (\<lambda>a t s. P t s \<and> g t = Ok a) (\<lambda>e t s. P t s \<and> g t = Err e) P"
    using assms(1) by (simp add: reads_def)
  show "triple cuts (\<lambda>t s. P t s \<and> g t = Ok a) (h (Ok a)) (\<lambda>b t s. P t s \<and> k (g t) t = Ok b)
      (\<lambda>e t s. P t s \<and> k (g t) t = Err e) P" for a
    by (rule reads_triple [OF assms(2)]) auto
  show "triple cuts (\<lambda>t s. P t s \<and> g t = Err e) (h (Err e)) (\<lambda>b t s. P t s \<and> k (g t) t = Ok b)
      (\<lambda>e' t s. P t s \<and> k (g t) t = Err e') P" for e
    by (rule reads_triple [OF assms(2)]) auto
qed

lemma reads_bind:
  assumes "reads m g" and "\<And>a. reads (f a) (k a)"
  shows "reads (bind m f) (\<lambda>t. case g t of Inl e \<Rightarrow> Err e | Inr a \<Rightarrow> k a t)"
proof -
  have "reads (case r of Inl e \<Rightarrow> fail e | Inr a \<Rightarrow> f a)
      (case r of Inl e \<Rightarrow> (\<lambda>t. Err e) | Inr a \<Rightarrow> k a)" for r
    using assms(2) by (cases r) (simp_all add: reads_fail)
  from reads_handle [OF assms(1) this] show ?thesis
    unfolding bind_def by (rule back_subst [of "reads _"]) (auto split: sum.split)
qed

lemma reads_failing_with:
  assumes "reads m g"
  shows "reads (failing_with f m) (\<lambda>t. map_err f (g t))"
proof -
  have "reads (case r of Inl e \<Rightarrow> fail (f e) | Inr a \<Rightarrow> yield a) (\<lambda>t. map_err f r)" for r
    by (cases r) (simp_all add: reads_fail reads_yield)
  from reads_handle [OF assms this] show ?thesis unfolding failing_with_def .
qed

lemma reads_cong: "reads m g \<Longrightarrow> (\<And>t. g t = g' t) \<Longrightarrow> reads m g'"
  by (metis ext)

lemma reads_if: "reads m g \<Longrightarrow> reads n h \<Longrightarrow> reads (if b then m else n) (\<lambda>t. if b then g t else h t)"
  by simp

section \<open>The reading operations of a delivery\<close>

definition file_at :: "tree \<Rightarrow> string \<Rightarrow> node option" where
  "file_at t p = at t (in_tree p)"

definition digest_of_node :: "outside \<Rightarrow> node option \<Rightarrow> content_digest option" where
  "digest_of_node W n = (case n of Some (File c e) \<Rightarrow> Some (sha_in W c) | _ \<Rightarrow> None)"

definition mode_ok :: "outside \<Rightarrow> bool \<Rightarrow> bool \<Rightarrow> bool" where
  "mode_ok W mode expected \<longleftrightarrow> on_windows (platform_of W) \<or> mode = expected"

definition matches_file :: "outside \<Rightarrow> content_digest option \<Rightarrow> bool \<Rightarrow> node option \<Rightarrow> bool" where
  "matches_file W digest exec n \<longleftrightarrow>
     (case n of Some (File c e) \<Rightarrow> digest = Some (sha_in W c) \<and> mode_ok W e exec | _ \<Rightarrow> False)"

lemma reads_stat:
  "reads (io (fs_stat x)) (\<lambda>t. case at t x of None \<Rightarrow> Err (missing t x) | Some n \<Rightarrow> Ok n)"
  by (rule reads_io) (simp add: fs_stat_def split: option.split)

lemma missing_cases: "missing t x = NotFound \<or> missing t x = NotADirectory"
  by (simp add: missing_def)

lemma reads_metadata [exact_reads]: "reads (metadata p) (\<lambda>t. Ok (file_at t p))"
  unfolding metadata_def
proof (rule reads_cong [OF reads_handle [OF reads_stat]])
  show "reads (case r of Inl e \<Rightarrow> if e = NotFound \<or> e = NotADirectory then yield None else fail (FreezeIo e)
      | Inr n \<Rightarrow> yield (Some n))
    (\<lambda>t. case r of Inl e \<Rightarrow> if e = NotFound \<or> e = NotADirectory then Ok None else Err (FreezeIo e)
      | Inr n \<Rightarrow> Ok (Some n))" for r
    by (cases r) (simp_all add: reads_yield reads_fail)
qed (use missing_cases in \<open>auto simp: file_at_def split: option.split\<close>)

lemma reads_exists [exact_reads]: "reads (exists_at x) (\<lambda>t. Ok (at t x \<noteq> None))"
  unfolding exists_at_def
proof (rule reads_cong [OF reads_handle [OF reads_stat]])
  show "reads (case r of Inl e \<Rightarrow> yield False | Inr n \<Rightarrow> yield True)
    (\<lambda>t. case r of Inl e \<Rightarrow> Ok False | Inr n \<Rightarrow> Ok True)" for r
    by (cases r) (simp_all add: reads_yield)
qed (auto split: option.split)

lemma reads_read:
  "reads (os (fs_read x)) (\<lambda>t. case at t x of
     None \<Rightarrow> Err (FreezeIo (missing t x)) | Some (File c e) \<Rightarrow> Ok c
   | Some _ \<Rightarrow> Err (FreezeIo (OtherIo ''not a regular file'')))"
  unfolding os_def
  by (rule reads_cong [OF reads_failing_with [OF reads_io
        [where g = "\<lambda>t. case at t x of None \<Rightarrow> Err (missing t x) | Some (File c e) \<Rightarrow> Ok c
           | Some _ \<Rightarrow> Err (OtherIo ''not a regular file'')"]]])
    (auto simp: fs_read_def split: option.split node.split)

lemma reads_mode:
  "reads (os (fs_mode x)) (\<lambda>t. case at t x of
     None \<Rightarrow> Err (FreezeIo (missing t x)) | Some (File c e) \<Rightarrow> Ok e | Some Directory \<Rightarrow> Ok True
   | Some _ \<Rightarrow> Err (FreezeIo (OtherIo ''not a regular file'')))"
  unfolding os_def
  by (rule reads_cong [OF reads_failing_with [OF reads_io
        [where g = "\<lambda>t. case at t x of None \<Rightarrow> Err (missing t x) | Some (File c e) \<Rightarrow> Ok e
           | Some Directory \<Rightarrow> Ok True | Some _ \<Rightarrow> Err (OtherIo ''not a regular file'')"]]])
    (auto simp: fs_mode_def split: option.split node.split)


lemma reads_digest: "reads (digest_at W p) (\<lambda>t. ok_or (digest_of_node W (file_at t p)) PayloadMismatch)"
  unfolding digest_at_def
proof (rule reads_cong [OF reads_bind [OF reads_metadata]])
  let ?k = "\<lambda>m t. case m of Some (File c e) \<Rightarrow> (case at t (in_tree p) of
        None \<Rightarrow> Err (FreezeIo (missing t (in_tree p)))
      | Some (File c' e') \<Rightarrow> if length c' \<noteq> length c
          then Err (GitFailed ''candidate destination changed during read'') else Ok (sha_in W c')
      | Some _ \<Rightarrow> Err (FreezeIo (OtherIo ''not a regular file'')))
    | _ \<Rightarrow> Err PayloadMismatch"
  have "reads (bind (os (fs_read (in_tree p))) (\<lambda>content.
      if length content \<noteq> length c then git_error ''candidate destination changed during read''
      else yield (sha_in W content))) (\<lambda>t. ?k (Some (File c e)) t)" for c e
  proof (rule reads_cong [OF reads_bind [OF reads_read]])
    show "reads (if length a \<noteq> length c then git_error ''candidate destination changed during read''
        else yield (sha_in W a)) (\<lambda>t. if length a \<noteq> length c
          then Err (GitFailed ''candidate destination changed during read'') else Ok (sha_in W a))" for a
      by (simp add: git_error_def reads_fail reads_yield)
  qed (auto split: option.split node.split)
  then show "reads (case m of Some (File c e) \<Rightarrow> bind (os (fs_read (in_tree p))) (\<lambda>content.
        if length content \<noteq> length c then git_error ''candidate destination changed during read''
        else yield (sha_in W content)) | _ \<Rightarrow> fail PayloadMismatch) (?k m)" for m
    by (auto simp: reads_fail split: option.split node.split)
  show "(case Ok (file_at t p) of Inl e \<Rightarrow> Err e | Inr m \<Rightarrow> ?k m t) =
      ok_or (digest_of_node W (file_at t p)) PayloadMismatch" for t
    by (auto simp: digest_of_node_def file_at_def split: option.split node.split)
qed

definition mode_answer :: "outside \<Rightarrow> bool \<Rightarrow> tree \<Rightarrow> string \<Rightarrow> freeze_error + bool" where
  "mode_answer W expected t p =
     (if on_windows (platform_of W) then Ok True
      else case file_at t p of
        None \<Rightarrow> Err (FreezeIo (missing t (in_tree p))) | Some (File c e) \<Rightarrow> Ok (e = expected)
      | Some Directory \<Rightarrow> Ok expected | Some _ \<Rightarrow> Err (FreezeIo (OtherIo ''not a regular file'')))"

lemma reads_executable: "reads (executable_matches W p b) (\<lambda>t. mode_answer W b t p)"
proof (cases "on_windows (platform_of W)")
  case False
  have "reads (bind (os (fs_mode (in_tree p))) (\<lambda>mode. yield (mode = b))) (\<lambda>t. mode_answer W b t p)"
    by (rule reads_cong [OF reads_bind [OF reads_mode reads_yield]])
      (use False in \<open>auto simp: mode_answer_def file_at_def split: option.split node.split\<close>)
  with False show ?thesis by (simp add: executable_matches_def)
qed (simp add: executable_matches_def mode_answer_def reads_yield)

lemma mode_answer_file [simp]: "file_at t p = Some (File c e) \<Longrightarrow> mode_answer W b t p = Ok (mode_ok W e b)"
  by (simp add: mode_answer_def mode_ok_def)

lemma digest_of_node_iff: "digest_of_node W n = Some d \<longleftrightarrow> (\<exists>c e. n = Some (File c e) \<and> d = sha_in W c)"
  by (auto simp: digest_of_node_def split: option.splits node.splits)

lemma matches_file_iff:
  "matches_file W digest exec n \<longleftrightarrow>
     (\<exists>c e. n = Some (File c e) \<and> digest = Some (sha_in W c) \<and> mode_ok W e exec)"
  by (auto simp: matches_file_def split: option.splits node.splits)

lemma reads_snapshot [exact_reads]:
  "reads (matches_snapshot W p saved)
     (\<lambda>t. Ok (matches_file W (original_digest saved) (original_executable saved) (file_at t p)))"
proof (cases "original_digest saved")
  case None
  then show ?thesis
    by (auto simp: matches_snapshot_def matches_file_iff intro: reads_cong [OF reads_yield])
next
  case (Some d)
  have inner: "reads (if r = Ok d then executable_matches W p (original_executable saved) else yield False)
      (\<lambda>t. if r = Ok d then mode_answer W (original_executable saved) t p else Ok False)" for r
    by (simp add: reads_executable reads_yield)
  show ?thesis
    unfolding matches_snapshot_def Some option.case
    by (rule reads_cong [OF reads_handle [OF reads_digest inner]])
      (auto simp: matches_file_iff digest_of_node_def split: option.split node.split)
qed

lemma reads_approved [exact_reads]:
  "reads (matches_approved W p saved)
     (\<lambda>t. Ok (matches_file W (approved_digest saved) (approved_executable saved) (file_at t p)))"
proof (cases "approved_digest saved")
  case None
  then show ?thesis
    by (auto simp: matches_approved_def matches_file_iff intro: reads_cong [OF reads_yield])
next
  case (Some d)
  have inner: "reads (if actual = d then executable_matches W p (approved_executable saved) else yield False)
      (\<lambda>t. if actual = d then mode_answer W (approved_executable saved) t p else Ok False)" for actual
    by (simp add: reads_executable reads_yield)
  have "reads (if found = None \<or> \<not> is_file (the found) then yield False
      else bind (digest_at W p) (\<lambda>actual.
        if actual = d then executable_matches W p (approved_executable saved) else yield False))
    (\<lambda>t. if found = None \<or> \<not> is_file (the found) then Ok False
      else case ok_or (digest_of_node W (file_at t p)) PayloadMismatch of Inl e \<Rightarrow> Err e
        | Inr actual \<Rightarrow> if actual = d then mode_answer W (approved_executable saved) t p else Ok False)" for found
    by (intro reads_if reads_yield reads_bind reads_digest inner)
  from reads_cong [OF reads_bind [OF reads_metadata [of p] this]] Some show ?thesis
    by (auto simp: matches_approved_def matches_file_iff digest_of_node_def is_file_def
        split: option.split node.split)
qed

lemma reads_for_all:
  assumes "\<And>x. x \<in> set xs \<Longrightarrow> reads (f x) (\<lambda>t. Ok (g x t))"
  shows "reads (for_all f xs) (\<lambda>t. Ok (\<forall>x \<in> set xs. g x t))"
  using assms
proof (induction xs)
  case (Cons x xs)
  have "reads (if b then for_all f xs else yield False)
      (\<lambda>t. if b then Ok (\<forall>x \<in> set xs. g x t) else Ok False)" for b
    using Cons by (simp add: reads_yield)
  from reads_cong [OF reads_bind [OF Cons.prems this]] show ?case by auto
qed (simp add: reads_yield)

text \<open>A payload that delivers what the manifest promises.\<close>

definition payload_ok :: "outside \<Rightarrow> candidate_manifest \<Rightarrow> file_payload list \<Rightarrow> bool" where
  "payload_ok W m exact \<longleftrightarrow> (\<forall>f \<in> set (files m).
     if deleted f then payload_at exact (file_path f) = None
     else \<exists>p. payload_at exact (file_path f) = Some p \<and> first_payload exact (file_path f) = Some p
       \<and> file_digest f = Some (sha_in W (payload_content p)) \<and> payload_executable p = executable f)"

lemma payload_ok_kept:
  assumes "payload_ok W m exact" and "f \<in> set (files m)" and "\<not> deleted f"
  obtains p where "payload_at exact (file_path f) = Some p" "first_payload exact (file_path f) = Some p"
    "file_digest f = Some (sha_in W (payload_content p))" "payload_executable p = executable f"
  using bspec [OF assms(1) [unfolded payload_ok_def] assms(2)] assms(3) by auto

definition promoted :: "outside \<Rightarrow> candidate_manifest \<Rightarrow> candidate_file \<Rightarrow> node option \<Rightarrow> bool" where
  "promoted W m f n \<longleftrightarrow>
     (if deleted f then n = None \<or> n = Some Directory \<and> has_inside (\<lambda>g. \<not> deleted g) m (file_path f)
      else matches_file W (file_digest f) (executable f) n)"

lemma reads_promoted:
  assumes "payload_ok W m exact" and "f \<in> set (files m)"
  shows "reads (file_promoted W m exact f) (\<lambda>t. Ok (promoted W m f (file_at t (file_path f))))"
proof (cases "deleted f")
  case True
  have "reads (bind (metadata p) (\<lambda>found. yield (F found))) (\<lambda>t. Ok (F (file_at t p)))"
    for p and F :: "node option \<Rightarrow> bool"
    by (rule reads_cong [OF reads_bind [OF reads_metadata reads_yield]]) simp
  with True show ?thesis by (simp add: file_promoted_def promoted_def Let_def)
next
  case False
  with assms obtain p where p: "payload_at exact (file_path f) = Some p"
    "file_digest f = Some (sha_in W (payload_content p))" "payload_executable p = executable f"
    by (rule payload_ok_kept)
  let ?digest = "sha_in W (payload_content p)"
  have inner: "reads (if actual \<noteq> ?digest then yield False
        else bind (pure (Ok p)) (\<lambda>p. executable_matches W (file_path f) (payload_executable p)))
      (\<lambda>t. if actual \<noteq> ?digest then Ok False else case Ok p of Inl e \<Rightarrow> Err e
        | Inr p \<Rightarrow> mode_answer W (payload_executable p) t (file_path f))" for actual
    by (intro reads_if reads_yield reads_bind reads_pure reads_executable)
  have outer: "reads (if found = None \<or> \<not> is_file (the found) then yield False
      else bind (digest_at W (file_path f)) (\<lambda>actual. if actual \<noteq> ?digest then yield False
        else bind (pure (Ok p)) (\<lambda>p. executable_matches W (file_path f) (payload_executable p))))
    (\<lambda>t. if found = None \<or> \<not> is_file (the found) then Ok False
      else case ok_or (digest_of_node W (file_at t (file_path f))) PayloadMismatch of Inl e \<Rightarrow> Err e
        | Inr actual \<Rightarrow> if actual \<noteq> ?digest then Ok False else case Ok p of Inl e \<Rightarrow> Err e
        | Inr p \<Rightarrow> mode_answer W (payload_executable p) t (file_path f))" for found
    by (intro reads_if reads_yield reads_bind reads_digest inner)
  have "reads (bind (metadata (file_path f)) (\<lambda>found. if found = None \<or> \<not> is_file (the found) then yield False
      else bind (digest_at W (file_path f)) (\<lambda>actual. if actual \<noteq> ?digest then yield False
        else bind (pure (Ok p)) (\<lambda>p. executable_matches W (file_path f) (payload_executable p)))))
    (\<lambda>t. Ok (promoted W m f (file_at t (file_path f))))"
    by (rule reads_cong [OF reads_bind [OF reads_metadata outer]])
      (use False p in \<open>auto simp: promoted_def matches_file_iff digest_of_node_def is_file_def
         split: option.split node.split\<close>)
  with False p show ?thesis by (simp add: file_promoted_def Let_def cong del: if_weak_cong)
qed

lemma reads_verify [exact_reads]:
  assumes "payload_ok W m exact"
  shows "reads (verify_promoted W m exact)
    (\<lambda>t. Ok (\<forall>f \<in> set (files m). promoted W m f (file_at t (file_path f))))"
  unfolding verify_promoted_def by (rule reads_for_all) (rule reads_promoted [OF assms])

end
