(* ===== verification/Delivery_Recovery.thy ===== *)
theory Delivery_Recovery
  imports Delivery_Steps
begin

text \<open>
  What a delivery to the work tree guarantees, and where it falls short.
\<close>

section \<open>A journal has to be the bound one\<close>

text \<open>One operation on the tree, when no other program interferes.\<close>

lemma io_cases:
  assumes "\<forall>x v. Meanwhile x v \<notin> set (future d)"
  obtains es where "io f d = (case f (nodes d) of
       Inl e \<Rightarrow> (Returned (Err e), d\<lparr>future := es\<rparr>) | Inr (a, t) \<Rightarrow> (Returned (Ok a), d\<lparr>nodes := t, future := es\<rparr>))"
      "set es \<subseteq> set (future d)"
    | es where "io f d = (Crashed, d\<lparr>future := es\<rparr>)"
    | e n es where "io f d = (Returned (Err e), d\<lparr>future := es\<rparr>)" "future d = Fails e n # es"
proof (cases "future d")
  case Nil
  then show thesis
    by (intro that(1) [of "[]"]) (auto simp: io_def io_partly_def attempt_def on_tree_def split: sum.split prod.split)
next
  case (Cons x es)
  show thesis
  proof (cases x)
    case Proceed
    with Cons show thesis
      by (intro that(1) [of es]) (auto simp: io_def io_partly_def attempt_def on_tree_def split: sum.split prod.split)
  next
    case (Fails e n)
    with Cons show thesis by (intro that(3) [of e es n]) (simp_all add: io_def io_partly_def)
  next
    case (Crashes n)
    with Cons show thesis by (intro that(2) [of es]) (simp add: io_def io_partly_def)
  next
    case (Meanwhile y v)
    with Cons assms show thesis by (metis list.set_intros(1))
  qed
qed

text \<open>
  C2. A journal that was left on disk is acted on only when its digest is the one that the reservation
  of the delivery is bound to.  Otherwise, once it was found, recovery gives an error or ends in a power
  cut, whatever fails after that, and no file is touched: neither what a forged journal names is rolled
  back nor anything cleaned up.  No other program may change the disk meanwhile.  (When the look for the
  journal itself fails, recovery goes on as if there were none: see \<open>unseen_journal_is_passed_over\<close>.)
\<close>

theorem unbound_journal_changes_nothing:
  assumes "at (nodes d) journal = Some (File encoded e)" and "expected \<noteq> Some (sha_in W encoded)"
    and "\<forall>x v. Meanwhile x v \<notin> set (future d)" and "\<forall>e n es. future d \<noteq> Fails e n # es"
  shows "nodes (snd (recover_bound W m exact journal committed expected d)) = nodes d
    \<and> (\<exists>e. fst (recover_bound W m exact journal committed expected d) \<in>
        {Crashed, Returned (Err PayloadMismatch), Returned (Err (FreezeIo e))})"
  using assms(3)
proof (cases rule: io_cases [where f = "fs_stat journal"])
  case (1 es)
  then have found: "exists_at journal d = (Returned (Ok True), d\<lparr>future := es\<rparr>)"
    using assms(1) by (simp add: exists_at_def handle_def fs_stat_def yield_def)
  have "\<forall>x v. Meanwhile x v \<notin> set (future (d\<lparr>future := es\<rparr>))" using 1(2) assms(3) by auto
  then show ?thesis
    by (cases rule: io_cases [where f = "fs_read journal"])
      (use assms(1,2) in \<open>auto simp: recover_bound_def bind_def handle_def found os_def failing_with_def
        fs_read_def require_def yield_def fail_def\<close>)
next
  case (2 es)
  then show ?thesis by (simp add: recover_bound_def exists_at_def bind_def handle_def)
next
  case (3 e n es)
  with assms(4) show ?thesis by blast
qed

text \<open>
  \<open>Path::exists\<close> takes an error for absence.  A journal that cannot be looked at for a moment is passed
  over, and the delivery that it belongs to is neither rolled back nor completed.
\<close>

theorem unseen_journal_is_passed_over:
  assumes "at (nodes d) journal = Some (File encoded e)" and "at (nodes d) committed = None"
    and "future d = [Fails failure n]"
  shows "recover_bound W m exact journal committed expected d = (Returned (Ok ()), d\<lparr>future := []\<rparr>)"
  using assms
  by (cases d) (simp add: recover_bound_def exists_at_def bind_def handle_def io_def io_partly_def attempt_def
      on_tree_def fs_stat_def yield_def)

text \<open>A journal whose bytes are not the bound ones, on a disk that is otherwise empty.\<close>

definition sample_outside :: outside where
  "sample_outside = \<lparr>platform_of = sample_platform, base_view = frozen_view,
     apply_answer = \<lambda>_ _. Exited True [] [], io_text = \<lambda>_. ''io'', core_text = \<lambda>_. ''core'',
     store_text = \<lambda>_. ''store'', quoted = \<lambda>s. s, candidate_text = \<lambda>_. ''c'',
     journal_json = \<lambda>J. [], read_journal = \<lambda>_. Err ''json''\<rparr>"

definition disk_of :: "tree \<Rightarrow> event list \<Rightarrow> disk" where
  "disk_of t es = \<lparr>nodes = t, database = empty_store, future = es\<rparr>"

theorem unbound_journal_changes_nothing_witness:
  "nodes (snd (recover_bound sample_outside (frozen_manifest sample_frozen_candidate) [] (in_git ''j'') (in_git ''k'')
      (Some 7) (disk_of [(in_git ''j'', File [1] False)] [Proceed, Fails NotFound 0, Crashes 0])))
     = [(in_git ''j'', File [1] False)]"
proof -
  let ?d = "disk_of [(in_git ''j'', File [1] False)] [Proceed, Fails NotFound 0, Crashes 0]"
  have "at (nodes ?d) (in_git ''j'') = Some (File [1] False)" "Some 7 \<noteq> Some (sha_in sample_outside [1])"
    "\<forall>x v. Meanwhile x v \<notin> set (future ?d)" "\<forall>e n es. future ?d \<noteq> Fails e n # es"
    by (simp_all add: disk_of_def sample_outside_def sample_platform_def)
  from unbound_journal_changes_nothing [OF this] show ?thesis by (simp add: disk_of_def)
qed

section \<open>New directories\<close>

text \<open>
  The directories of a new file are made from the inside out, each of them alone.  When the one around
  the innermost is missing too, the first of these steps fails.
\<close>

lemma create_missing_parents_fails:
  assumes "\<not> deleted f" and "path_ancestors (file_path f) = as @ [b]" and "b \<notin> set gone"
    and "file_at (nodes d) b = None" and "\<not> dir_at (nodes d) (parent_place (in_tree b))" and "future d = []"
  shows "create_missing_parents gone f d = (Returned (Err (FreezeIo (missing (nodes d) (in_tree b)))), d)"
  using assms missing_cases [of "nodes d" "in_tree b"]
  by (cases d) (auto simp: create_missing_parents_def create_missing_parent_def metadata_def os_def io_def
      io_partly_def handle_def bind_def failing_with_def attempt_def on_tree_def fs_stat_def fs_create_dir_def
      file_at_def yield_def fail_def)


text \<open>
  So a candidate whose only change is a new file two new directories deep cannot be delivered, even into
  an empty work tree where nothing interferes.
\<close>

definition deep_manifest :: candidate_manifest where
  "deep_manifest = \<lparr>manifest_id = Id 1, base_revision = Some ''b'',
     files = [\<lparr>executable = False, file_path = ''d/e/n'', file_digest = Some 1, file_kind = Added\<rparr>],
     diff_digest = 1, dependency_state_digest = 0, configuration_digest = 0, environment_digest = 0,
     delivery_payload_digest = Some 1, manifest_evidence = []\<rparr>"

definition deep_payload :: "file_payload list" where
  "deep_payload = [\<lparr>payload_path = ''d/e/n'', payload_content = [10], payload_executable = False\<rparr>]"

theorem nested_new_file_is_not_delivered:
  "fst (apply_payload sample_outside (Some (replicate 16 0)) deep_manifest [7] deep_payload None
     (\<lambda>_ _. yield ()) (disk_of [] [])) = Returned (Err (FreezeIo NotFound))"
  by code_simp

end
