(* ===== verification/Spec2Isabelle.thy ===== *)
theory Spec2Isabelle
  imports Workflow Task_Lease Request Goal Dag Architecture Candidate Verdicts Ledger_Event
    Ledger_Chain Ipc_Frame Ipc_Auth Scheduler Admission Routing Store_Contents Daemon_Delivery
    Delivery_Recovery
begin

text \<open>
  A verification development for the Rust workspace of \<open>opencode-cycle\<close> (directory \<open>crates/\<close>).

  \<^bold>\<open>The program.\<close>  A daemon drives coding work through a fixed life cycle: a request is taken in,
  routed to a quick or a full workflow, planned as a graph of tasks, executed by agents that hold
  leases, frozen as a candidate, verified, reviewed, arbitrated and delivered; a goal repeats this
  within a budget of continuations.  \<open>workflow-core\<close> holds the state machines and the validated data,
  \<open>workflow-store\<close> persists them and applies commands under idempotency keys, \<open>workflow-ledger\<close> keeps
  a redacted, hash-chained and signed history, \<open>workflow-ipc\<close> frames and authenticates the messages to
  the daemon, and \<open>workflowd\<close> schedules and admits the work.

  \<^bold>\<open>The theories.\<close>
  \<^item> \<open>Cycle_Prelude\<close>: results as sums, loops that stop at an error, checked and saturating integers, big
    endian encodings.  \<open>Cycle_Text\<close>: path rules (\<open>path.rs\<close>).  \<open>Cycle_Digest\<close>: identifiers, digests, the
    canonical hasher (\<open>id.rs\<close>, \<open>digest.rs\<close>, \<open>role.rs\<close>).  \<open>Ordered_Map\<close>: \<open>BTreeMap\<close> and \<open>BTreeSet\<close>, with
    the contract \<open>ordered_map\<close>.
  \<^item> \<open>Command_Machine\<close>: runs of a machine over commands and the contract \<open>command_machine\<close>, which
    \<open>Workflow\<close> (\<open>workflow.rs\<close>), \<open>Task_Lease\<close> (\<open>task.rs\<close>, \<open>lease.rs\<close>) and \<open>Goal\<close> (\<open>goal.rs\<close>) discharge.
    \<open>apply(&mut self, c)\<close> is a function to the new state and a result, so that what a refused command
    leaves behind is part of the model.
  \<^item> \<open>Request\<close>, \<open>Architecture\<close>, \<open>Candidate\<close>, \<open>Verdicts\<close> (\<open>evidence.rs\<close>, \<open>verdict.rs\<close>, \<open>review.rs\<close>): the
    validated records, their constructors, deserialisers and digests.  \<open>Dag\<close> (\<open>dag.rs\<close>): validation,
    Kahn's sort, depth-first reachability, ready tasks.  \<open>Routing\<close> (\<open>routing.rs\<close> of the core and of the
    daemon).
  \<^item> \<open>Ledger_Event\<close> (\<open>event.rs\<close>, \<open>redaction.rs\<close>), \<open>Ledger_Chain\<close> (\<open>chain.rs\<close>, \<open>checkpoint.rs\<close>, \<open>query.rs\<close>).
  \<^item> \<open>Ipc_Frame\<close> (\<open>frame.rs\<close>), \<open>Ipc_Auth\<close> (\<open>auth.rs\<close>).
  \<^item> \<open>Scheduler\<close> (\<open>scheduler/queue.rs\<close>, \<open>scheduler/classes.rs\<close>), \<open>Admission\<close> (\<open>admission.rs\<close>,
    \<open>resources/policy.rs\<close>).
  \<^item> \<open>Store_Tables\<close>, \<open>Store_Commands\<close>, \<open>Store_Records\<close>: the tables and operations of \<open>workflow-store\<close>
    (\<open>workflows.rs\<close>, \<open>tasks.rs\<close>, \<open>goals.rs\<close>, \<open>leases.rs\<close>, \<open>candidates.rs\<close>, \<open>verification.rs\<close>).  \<open>Store\<close>
    composes them with the machines of the core into runs of calls, \<open>Store_Guarantees\<close> and
    \<open>Store_Contents\<close> state what callers rely on; tables that only grow share the contract \<open>append_only\<close>.
  \<^item> \<open>Utf8\<close>, \<open>Verification_Plan\<close> (\<open>verification/plan.rs\<close>: which checks a candidate has to pass) and
    \<open>Verification_Run\<close> (\<open>verification/secrets.rs\<close>, \<open>verification/runner.rs\<close>: what the checks report).
    \<open>Receipt\<close> (\<open>receipt.rs\<close>, protocol versions) and \<open>Essentiality\<close> (\<open>essentiality.rs\<close>).
  \<^item> The daemon: \<open>Daemon_Tables\<close> (the store's tables for requests, reviews, arbitration, architecture,
    constraints and the ledger), \<open>Handler\<close> (requests over the database and \<open>audit.rs\<close>),
    \<open>Daemon_Decisions\<close>, \<open>Daemon_Candidates\<close>, \<open>Daemon_Intake\<close> (the requests of \<open>lifecycle.rs\<close>,
    \<open>routing.rs\<close>, \<open>repair.rs\<close>, \<open>control.rs\<close>).  \<open>Daemon\<close> puts them into one step function \<open>daemon_step\<close> over
    calls; a request that lets go of the store is two calls, so that a list of calls is an interleaving.
    The locale \<open>daemon_invariant\<close> carries an invariant from the single calls to whole runs;
    \<open>Daemon_Guarantees\<close> interprets it three times, for the approvals, for the records and for the
    ledger, and \<open>Daemon_Delivery\<close> states what the daemon guarantees.
  \<^item> A candidate on disk (\<open>candidate.rs\<close> of \<open>workflowd\<close>): \<open>Freeze\<close> makes a candidate of a work tree.
    \<open>File_Tree\<close> is a file system whose operations may meet a power cut, an error or a change by
    another program; \<open>Delivery\<close> is the delivery over it, with its journal, rollback and recovery;
    \<open>Delivery_Steps\<close> has rules for reasoning about such actions, \<open>Delivery_Recovery\<close> what holds.

  \<^bold>\<open>What is shown.\<close> The machines keep their invariants in every run, deliver and
  complete only through the gates, stay within their budgets, and their logs replay.  The stored
  workflows refine those machines for any sequence of store calls; keys are used once, reservations
  and leases exclude, saved candidates are loaded exactly.  Validators accept exactly the documented
  data.  The task graph is accepted exactly when it is acyclic and its overlapping scopes are
  ordered; ready tasks never write to the same place and some task is always ready.  The chain's
  head pins the whole history; digests bind what they claim to, up to a collision of SHA-256 that
  the statement exhibits.  The decoder gives the same frames however the bytes arrive, but for those
  in front of an error, is bounded and stays closed after an error; an accepted challenge's nonce is
  refused until that challenge expires.  The queue serves ready projects and admission keeps its
  limits.  A discovered verification plan covers the project's manifests and runs safe commands
  only, and a run reports one result per gate, a missing tool only with a receipt.  What freezing
  makes of a work tree passes the comparisons of its parts with its manifest that the store and the
  delivery make.  In every interleaving of the daemon's requests a delivered workflow has the
  approvals of its candidate, records are final, the stored ledger verifies, and a project does not
  touch the workflows of another but by a promotion and by the ledger events of audits.  A delivery
  that finds another journal than its own leaves the files alone.  Where a request falls short of
  what it is for (a repair that leaves no way to accept a plan, a block whose key is taken, a
  candidate frozen again), a theorem shows the run that does so.

  \<^bold>\<open>Conventions.\<close>  SHA-256, HMAC, Ed25519, JSON serialisation, fresh identifiers, clocks and the readings
  of the machine are arguments of the definitions; what a proof needs of them stands in the statement.
  A panic is \<open>None\<close> where the code can reach one.  \<open>usize\<close> is 64 bits wide.  Strings are lists of
  characters, of which each stands for a byte.  Recursion is structural or has a measure: the frame
  decoder consumes input, the search of the graph consumes unvisited nodes, Kahn's sort consumes
  pending edges.  The one fuel is that of \<open>pop_loop\<close>, which the code itself bounds by the number of
  projects in the rotation.

  \<^bold>\<open>Not modelled.\<close>  Operating system and library code: file permissions, sockets and pipes, git and other
  processes, SQLite's own behaviour, tree-sitter.  Of the program: the daemon's connection loop and its
  diagnosis of the installation, the requests of \<open>goal.rs\<close>, \<open>history.rs\<close> and \<open>intake.rs\<close> beyond the ones
  named above, the lock between two deliveries and paths that lead through symbolic links, work trees
  (\<open>worktree.rs\<close>), the memory and the code intelligence crates (but for \<open>hash_file\<close>), the transports of the protocol, the key store of the ledger, the migrations of
  the database, and the TypeScript packages.
\<close>

end
